(* ===== verification/Prelude.thy ===== *)
theory Prelude
  imports Main "HOL-Library.Word"
begin

text \<open>
  Shared vocabulary of the development.  The machine integers of the C++ sources are
  words of the same width, so that every addition, mask and shift wraps as it does in the
  program; objects that the program copies with \<^verbatim>\<open>memcpy\<close> are lists of bytes in the
  little-endian order of the x86 host.  The theory holds the encoding of words as bytes, the
  halves of 64-bit registers that the virtio drivers write separately, the truncating
  division of C and generic facts about lists, options and maps of bytes.

  The collections: \<open>byte_simps\<close> rewrites lengths and elements of encoded objects,
  \<open>half_simps\<close> the low and high halves of 64-bit words, \<open>page_arith\<close> the page
  arithmetic shared by the snapshot engines.
\<close>

unbundle bit_operations_syntax

named_theorems byte_simps "lengths and elements of little-endian encodings"
named_theorems half_simps "low and high halves of 64-bit registers"
named_theorems page_arith "page and bitmap index arithmetic"

section \<open>Machine integers\<close>

type_synonym u8 = "8 word"
type_synonym u16 = "16 word"
type_synonym u32 = "32 word"
type_synonym u64 = "64 word"

text \<open>C's \<open>/\<close> on signed operands truncates towards zero; HOL's \<open>div\<close> rounds down.\<close>

definition c_div :: "int \<Rightarrow> int \<Rightarrow> int" where
  "c_div a b = sgn a * sgn b * (\<bar>a\<bar> div \<bar>b\<bar>)"

lemma c_div_nonneg: "0 \<le> a \<Longrightarrow> 0 < b \<Longrightarrow> c_div a b = a div b"
  by (cases "a = 0") (auto simp: c_div_def sgn_if)

lemma c_div_neg: "a < 0 \<Longrightarrow> 0 < b \<Longrightarrow> c_div a b = - ((- a) div b)"
  by (simp add: c_div_def sgn_if)

text \<open>The bytes of a string.\<close>

definition bytes :: "string \<Rightarrow> u8 list" where
  "bytes s = map of_char s"

lemma length_bytes [simp]: "length (bytes s) = length s"
  by (simp add: bytes_def)

section \<open>Little-endian bytes\<close>

definition word_byte :: "'a::len word \<Rightarrow> nat \<Rightarrow> u8" where
  "word_byte w i = ucast (drop_bit (8 * i) w)"

definition le_bytes :: "nat \<Rightarrow> 'a::len word \<Rightarrow> u8 list" where
  "le_bytes n w = map (word_byte w) [0..<n]"

fun le_val :: "u8 list \<Rightarrow> 'a::len word" where
  "le_val [] = 0"
| "le_val (b # bs) = ucast b OR push_bit 8 (le_val bs)"

lemma length_le_bytes [simp, byte_simps]: "length (le_bytes n w) = n"
  by (simp add: le_bytes_def)

lemma nth_le_bytes [byte_simps]: "i < n \<Longrightarrow> le_bytes n w ! i = word_byte w i"
  by (simp add: le_bytes_def)

lemma take_le_bytes [byte_simps]: "take k (le_bytes n w) = le_bytes (min k n) w"
  by (simp add: le_bytes_def take_map take_upt min_def)

lemma bit_word_byte: "bit (word_byte w i) k \<longleftrightarrow> k < 8 \<and> bit w (8 * i + k)"
  by (auto simp: word_byte_def bit_simps)

lemma bit_le_val:
  "bit (le_val bs :: 'a::len word) i \<longleftrightarrow>
     i < LENGTH('a) \<and> i div 8 < length bs \<and> bit (bs ! (i div 8)) (i mod 8)"
proof (induction bs arbitrary: i)
  case Nil
  then show ?case by simp
next
  case (Cons b bs)
  show ?case
  proof (cases "i < 8")
    case True
    then show ?thesis by (auto simp: bit_simps)
  next
    case False
    then obtain j where j: "i = j + 8" by (metis add.commute le_Suc_ex not_less)
    have dj: "(j + 8) div 8 = Suc (j div 8)" by simp
    have nb: "\<not> bit b (j + 8)" by (auto dest: bit_imp_le_length)
    show ?thesis
      using Cons.IH[of j] nb by (auto simp add: j dj bit_simps)
  qed
qed

text \<open>Reading back an encoding of \<open>n\<close> bytes keeps the low \<open>8 * n\<close> bits.\<close>

lemma le_val_le_bytes:
  "(le_val (le_bytes n w) :: 'a::len word) = take_bit (8 * n) (w :: 'a word)"
proof (rule bit_eqI)
  fix i
  assume "possible_bit TYPE('a word) i"
  then have "i < LENGTH('a)" by simp
  then show "bit (le_val (le_bytes n w) :: 'a word) i = bit (take_bit (8 * n) w) i"
    by (auto simp: bit_le_val byte_simps bit_word_byte bit_take_bit_iff)
qed

lemma le_val_le_bytes_id:
  assumes "LENGTH('a) \<le> 8 * n"
  shows "(le_val (le_bytes n w) :: 'a::len word) = w"
  unfolding le_val_le_bytes using assms by (simp add: take_bit_word_eq_self)

lemma le_roundtrip [simp]:
  "le_val (le_bytes 1 (b :: u8)) = b"
  "le_val (le_bytes 2 (h :: u16)) = h"
  "le_val (le_bytes 4 (w :: u32)) = w"
  "le_val (le_bytes 8 (q :: u64)) = q"
  by (simp_all add: le_val_le_bytes_id)

lemma le_bytes_inj:
  assumes "LENGTH('a) \<le> 8 * n" and "le_bytes n (v :: 'a::len word) = le_bytes n w"
  shows "v = w"
  using assms by (metis le_val_le_bytes_id)

text \<open>A whole list of bytes is the encoding of its value.\<close>

lemma le_bytes_le_val:
  assumes "length bs = n" and "8 * n \<le> LENGTH('a)"
  shows "le_bytes n (le_val bs :: 'a::len word) = bs"
proof (rule nth_equalityI)
  show "length (le_bytes n (le_val bs :: 'a word)) = length bs"
    using assms by simp
next
  fix i
  assume "i < length (le_bytes n (le_val bs :: 'a word))"
  then have i: "i < n" by simp
  show "le_bytes n (le_val bs :: 'a word) ! i = bs ! i"
  proof (rule bit_eqI)
    fix k
    assume "possible_bit TYPE(u8) k"
    then have k: "k < 8" by simp
    have "8 * i + k < LENGTH('a)" using i k assms(2) by linarith
    moreover have "(8 * i + k) div 8 = i" "(8 * i + k) mod 8 = k" using k by simp_all
    ultimately show "bit (le_bytes n (le_val bs :: 'a word) ! i) k = bit (bs ! i) k"
      using i k assms(1) by (simp add: byte_simps bit_word_byte bit_le_val)
  qed
qed

section \<open>Halves of 64-bit registers\<close>

text \<open>
  The virtio transport writes 64-bit quantities as two 32-bit accesses.  The sources spell
  the updates \<^verbatim>\<open>(x & ~0xFFFFFFFFULL) | val\<close> and \<^verbatim>\<open>(x & 0xFFFFFFFFULL) | ((uint64_t)val << 32)\<close>.
\<close>

definition set_lo :: "u64 \<Rightarrow> u32 \<Rightarrow> u64" where
  "set_lo x v = (x AND 0xFFFFFFFF00000000) OR ucast v"

definition set_hi :: "u64 \<Rightarrow> u32 \<Rightarrow> u64" where
  "set_hi x v = (x AND 0xFFFFFFFF) OR push_bit 32 (ucast v)"

definition lo32 :: "u64 \<Rightarrow> u32" where
  "lo32 x = ucast (x AND 0xFFFFFFFF)"

definition hi32 :: "u64 \<Rightarrow> u32" where
  "hi32 x = ucast (drop_bit 32 x)"

definition join32 :: "u32 \<Rightarrow> u32 \<Rightarrow> u64" where
  "join32 lo hi = ucast lo OR push_bit 32 (ucast hi)"

lemma mask32_eq: "(0xFFFFFFFF :: u64) = mask 32"
  by (simp add: mask_eq_exp_minus_1)

lemma himask_eq: "(0xFFFFFFFF00000000 :: u64) = NOT (mask 32)"
  by (simp add: mask_eq_exp_minus_1)

lemma bit_lo32: "bit (lo32 x) i \<longleftrightarrow> i < 32 \<and> bit x i"
  by (auto simp: lo32_def mask32_eq bit_simps)

lemma bit_hi32: "bit (hi32 x) i \<longleftrightarrow> i < 32 \<and> bit x (i + 32)"
  by (auto simp: hi32_def bit_simps add.commute)

lemma bit_join32:
  "bit (join32 l h) i \<longleftrightarrow> (if i < 32 then bit l i else i < 64 \<and> bit h (i - 32))"
  by (auto simp: join32_def bit_simps not_le dest: bit_imp_le_length)

lemma set_lo_join: "set_lo x v = join32 v (hi32 x)"
  by (rule bit_word_eqI) (auto simp: set_lo_def himask_eq bit_join32 bit_hi32 bit_simps dest: bit_imp_le_length)

lemma set_hi_join: "set_hi x v = join32 (lo32 x) v"
  by (rule bit_word_eqI) (auto simp: set_hi_def mask32_eq bit_join32 bit_lo32 bit_simps)

lemma lo32_join32 [simp, half_simps]: "lo32 (join32 l h) = l"
  by (rule bit_word_eqI) (simp add: bit_lo32 bit_join32)

lemma hi32_join32 [simp, half_simps]: "hi32 (join32 l h) = h"
  by (rule bit_word_eqI) (simp add: bit_hi32 bit_join32)

lemma join32_lo_hi [simp, half_simps]: "join32 (lo32 x) (hi32 x) = x"
  by (rule bit_word_eqI) (auto simp: bit_lo32 bit_hi32 bit_join32)

lemma lo32_set [simp, half_simps]: "lo32 (set_lo x v) = v" "lo32 (set_hi x v) = lo32 x"
  by (simp_all add: set_lo_join set_hi_join)

lemma hi32_set [simp, half_simps]: "hi32 (set_lo x v) = hi32 x" "hi32 (set_hi x v) = v"
  by (simp_all add: set_lo_join set_hi_join)

lemma set_lo_hi [half_simps]: "set_hi (set_lo x l) h = join32 l h"
  and set_hi_lo [half_simps]: "set_lo (set_hi x h) l = join32 l h"
  by (simp_all add: set_lo_join set_hi_join)

section \<open>Lists and options\<close>

lemma nth_list_update_cases:
  "i < length xs \<Longrightarrow> xs[i := x] ! j = (if i = j then x else xs ! j)"
  by simp

lemma map_upt_shift: "map f [a..<a + n] = map (\<lambda>i. f (a + i)) [0..<n]"
  by (rule nth_equalityI) simp_all

lemma map_upt_append: "map f [a..<a + (n + m)] = map f [a..<a + n] @ map f [a + n..<a + n + m]"
  by (rule nth_equalityI) (auto simp: nth_append)

lemma replicate_eq_map_upt: "replicate n v = map (\<lambda>_. v) [a..<a + n]"
  by (rule nth_equalityI) simp_all

lemma unat_u16: "n < 2 ^ 16 \<Longrightarrow> unat (of_nat n :: u16) = n"
  by (simp add: unsigned_of_nat take_bit_nat_eq_self)

lemma unat_u32: "n < 2 ^ 32 \<Longrightarrow> unat (of_nat n :: u32) = n"
  by (simp add: unsigned_of_nat take_bit_nat_eq_self)

lemma unat_u64: "n < 2 ^ 64 \<Longrightarrow> unat (of_nat n :: u64) = n"
  by (simp add: unsigned_of_nat take_bit_nat_eq_self)

lemma take_take_append: "take n (take n xs @ ys) = take n (xs @ ys)"
  by (cases "length xs \<le> n") simp_all

section \<open>Printing numbers\<close>

text \<open>\<^verbatim>\<open>%x\<close> and \<^verbatim>\<open>%u\<close>: the digits of a number in a base, most significant first.\<close>

definition digit_char :: "nat \<Rightarrow> char" where
  "digit_char d = (if d < 10 then char_of (48 + d) else char_of (87 + d))"

fun base_str :: "nat \<Rightarrow> nat \<Rightarrow> string" where
  "base_str b n = (if b < 2 \<or> n < b then [digit_char (n mod b)]
                   else base_str b (n div b) @ [digit_char (n mod b)])"

declare base_str.simps [simp del]

definition dec_str :: "nat \<Rightarrow> string" where "dec_str n = base_str 10 n"
definition hex_str :: "nat \<Rightarrow> string" where "hex_str n = base_str 16 n"

lemma unat_and_not_mask: "k \<le> 64 \<Longrightarrow> unat ((x :: u64) AND NOT (mask k)) = unat x div 2 ^ k * 2 ^ k"
proof -
  have n: "unat x < 2 ^ 64" using unsigned_less [of x, where 'a = nat] by simp
  have "x AND NOT (mask k) = push_bit k (drop_bit k x)"
    by (rule bit_word_eqI) (auto simp: bit_simps not_le)
  then have "unat (x AND NOT (mask k)) = take_bit 64 (push_bit k (drop_bit k (unat x)))"
    using n by (simp add: unsigned_push_bit_eq unsigned_drop_bit_eq take_bit_nat_eq_self)
  also have "push_bit k (drop_bit k (unat x)) = unat x div 2 ^ k * 2 ^ k" by (simp add: push_bit_eq_mult drop_bit_eq_div)
  also have "take_bit 64 \<dots> = \<dots>" using n by (intro take_bit_nat_eq_self) (simp add: div_times_less_eq_dividend [THEN le_less_trans])
  finally show ?thesis .
qed

end
