(* ===== verification/Guest_Ram.thy ===== *)
theory Guest_Ram
  imports Prelude
begin

text \<open>
  Byte-addressed storage.  Guest RAM is the memfd mapping \<open>ram_\<close> of \<open>ram_bytes_\<close> bytes
  that \<open>Vmm::gpa_ptr\<close> indexes by guest physical address.  The program does raw pointer
  arithmetic on it; an access outside the mapping is undefined behaviour, so every access of
  the model is checked and an access outside the mapping is the value \<open>None\<close>.

  The locale \<open>byte_store\<close> is the interface its clients (the boot loader, the virtio-net
  data path, the snapshot engines) rely on.  It is interpreted twice: on guest RAM
  and on the fixed-size byte buffers of the program (configuration structs, packet buffer).
\<close>

section \<open>The interface\<close>

locale byte_store =
  fixes store_size :: "'s \<Rightarrow> nat"
    and get :: "'s \<Rightarrow> nat \<Rightarrow> nat \<Rightarrow> u8 list option"
    and put :: "'s \<Rightarrow> nat \<Rightarrow> u8 list \<Rightarrow> 's option"
  assumes get_None: "get s a n = None \<longleftrightarrow> store_size s < a + n"
    and get_length: "get s a n = Some bs \<Longrightarrow> length bs = n"
    and put_None: "put s a bs = None \<longleftrightarrow> store_size s < a + length bs"
    and put_size: "put s a bs = Some s' \<Longrightarrow> store_size s' = store_size s"
    and get_put_same: "put s a bs = Some s' \<Longrightarrow> get s' a (length bs) = Some bs"
    and get_put_other:
      "put s a bs = Some s' \<Longrightarrow> b + n \<le> a \<or> a + length bs \<le> b \<Longrightarrow> get s' b n = get s b n"
begin

lemma get_defined: "a + n \<le> store_size s \<Longrightarrow> \<exists>bs. get s a n = Some bs \<and> length bs = n"
  using get_None [of s a n] get_length [of s a n] by (cases "get s a n") auto

lemma put_defined: "a + length bs \<le> store_size s \<Longrightarrow> \<exists>s'. put s a bs = Some s'"
  using put_None [of s a bs] by (cases "put s a bs") auto

lemma put_bound: "put s a bs = Some s' \<Longrightarrow> a + length bs \<le> store_size s"
  using put_None [of s a bs] by (auto simp: not_less)

text \<open>A scalar that was stored is read back whole.\<close>

lemma get_put_scalar:
  assumes "put s a (le_bytes n (w :: 'a::len word)) = Some s'" and "LENGTH('a) \<le> 8 * n"
  shows "map_option le_val (get s' a n) = Some w"
  using get_put_same [OF assms(1)] assms(2) by (simp add: le_val_le_bytes_id)

text \<open>Two stores to disjoint ranges are both read back.\<close>

lemma get_put_put:
  assumes "put s a bs = Some s1" and "put s1 b cs = Some s2"
    and "a + length bs \<le> b \<or> b + length cs \<le> a"
  shows "get s2 a (length bs) = Some bs" and "get s2 b (length cs) = Some cs"
  using get_put_same [OF assms(1)] get_put_same [OF assms(2)]
    get_put_other [OF assms(2), of a "length bs"] assms(3) by auto

lemma put_put_size:
  assumes "put s a bs = Some s1" and "put s1 b cs = Some s2"
  shows "store_size s2 = store_size s"
  using put_size [OF assms(1)] put_size [OF assms(2)] by simp

end

section \<open>Guest RAM\<close>

record guest_ram =
  ram_bytes :: nat
  ram_mem :: "nat \<Rightarrow> u8"

definition ram_ok :: "guest_ram \<Rightarrow> nat \<Rightarrow> nat \<Rightarrow> bool" where
  "ram_ok r a n \<longleftrightarrow> a + n \<le> ram_bytes r"

definition ram_peek :: "guest_ram \<Rightarrow> nat \<Rightarrow> nat \<Rightarrow> u8 list" where
  "ram_peek r a n = map (ram_mem r) [a..<a + n]"

definition ram_get :: "guest_ram \<Rightarrow> nat \<Rightarrow> nat \<Rightarrow> u8 list option" where
  "ram_get r a n = (if ram_ok r a n then Some (ram_peek r a n) else None)"

definition mem_poke :: "(nat \<Rightarrow> u8) \<Rightarrow> nat \<Rightarrow> u8 list \<Rightarrow> nat \<Rightarrow> u8" where
  "mem_poke m a bs = (\<lambda>i. if a \<le> i \<and> i < a + length bs then bs ! (i - a) else m i)"

text \<open>\<^verbatim>\<open>memcpy(gpa_ptr(a), bs, |bs|)\<close>\<close>

definition ram_put :: "guest_ram \<Rightarrow> nat \<Rightarrow> u8 list \<Rightarrow> guest_ram option" where
  "ram_put r a bs =
     (if ram_ok r a (length bs) then Some (r\<lparr>ram_mem := mem_poke (ram_mem r) a bs\<rparr>) else None)"

text \<open>\<^verbatim>\<open>memset(gpa_ptr(a), v, n)\<close>\<close>

definition ram_memset :: "guest_ram \<Rightarrow> nat \<Rightarrow> u8 \<Rightarrow> nat \<Rightarrow> guest_ram option" where
  "ram_memset r a v n =
     (if ram_ok r a n
      then Some (r\<lparr>ram_mem := (\<lambda>i. if a \<le> i \<and> i < a + n then v else ram_mem r i)\<rparr>)
      else None)"

text \<open>The memfd pages are zero until they are written.\<close>

definition fresh_ram :: "nat \<Rightarrow> guest_ram" where
  "fresh_ram n = \<lparr>ram_bytes = n, ram_mem = (\<lambda>_. 0)\<rparr>"

definition ram_u16 :: "guest_ram \<Rightarrow> nat \<Rightarrow> u16 option" where
  "ram_u16 r a = map_option le_val (ram_get r a 2)"

definition ram_u32 :: "guest_ram \<Rightarrow> nat \<Rightarrow> u32 option" where
  "ram_u32 r a = map_option le_val (ram_get r a 4)"

definition ram_u64 :: "guest_ram \<Rightarrow> nat \<Rightarrow> u64 option" where
  "ram_u64 r a = map_option le_val (ram_get r a 8)"

lemma length_ram_peek [simp]: "length (ram_peek r a n) = n"
  by (simp add: ram_peek_def)

lemma nth_ram_peek: "i < n \<Longrightarrow> ram_peek r a n ! i = ram_mem r (a + i)"
  by (simp add: ram_peek_def)

lemma ram_get_Some: "ram_get r a n = Some bs \<longleftrightarrow> ram_ok r a n \<and> bs = ram_peek r a n"
  by (auto simp: ram_get_def)

lemma ram_put_Some:
  "ram_put r a bs = Some r' \<longleftrightarrow>
     ram_ok r a (length bs) \<and> r' = r\<lparr>ram_mem := mem_poke (ram_mem r) a bs\<rparr>"
  by (auto simp: ram_put_def)

lemma ram_put_bytes: "ram_put r a bs = Some r' \<Longrightarrow> ram_bytes r' = ram_bytes r"
  by (auto simp: ram_put_Some)

lemma ram_memset_bytes: "ram_memset r a v n = Some r' \<Longrightarrow> ram_bytes r' = ram_bytes r"
  by (auto simp: ram_memset_def split: if_splits)

lemma mem_poke_replicate:
  "mem_poke m a (replicate n v) = (\<lambda>i. if a \<le> i \<and> i < a + n then v else m i)"
  by (rule ext) (auto simp: mem_poke_def)

lemma ram_memset_as_put: "ram_memset r a v n = ram_put r a (replicate n v)"
  by (simp add: ram_memset_def ram_put_def mem_poke_replicate)

lemma mem_poke_other [simp]: "i < a \<or> a + length bs \<le> i \<Longrightarrow> mem_poke m a bs i = m i"
  by (auto simp: mem_poke_def)

lemma mem_poke_same [simp]: "i < length bs \<Longrightarrow> mem_poke m a bs (a + i) = bs ! i"
  by (simp add: mem_poke_def)

lemma peek_poke_same: "map (mem_poke m a bs) [a..<a + length bs] = bs"
  by (rule nth_equalityI) simp_all

lemma peek_poke_other:
  "b + n \<le> a \<or> a + length bs \<le> b \<Longrightarrow> map (mem_poke m a bs) [b..<b + n] = map m [b..<b + n]"
  by auto

interpretation guest: byte_store ram_bytes ram_get ram_put
proof unfold_locales
  fix r a n b and bs :: "u8 list" and r'
  show "ram_get r a n = None \<longleftrightarrow> ram_bytes r < a + n"
    by (auto simp: ram_get_def ram_ok_def)
  show "ram_get r a n = Some bs \<Longrightarrow> length bs = n"
    by (auto simp: ram_get_Some)
  show "ram_put r a bs = None \<longleftrightarrow> ram_bytes r < a + length bs"
    by (auto simp: ram_put_def ram_ok_def)
  show "ram_put r a bs = Some r' \<Longrightarrow> ram_bytes r' = ram_bytes r"
    by (rule ram_put_bytes)
  show "ram_put r a bs = Some r' \<Longrightarrow> ram_get r' a (length bs) = Some bs"
    by (auto simp: ram_put_Some ram_get_def ram_ok_def ram_peek_def peek_poke_same)
  show "ram_put r a bs = Some r' \<Longrightarrow> b + n \<le> a \<or> a + length bs \<le> b \<Longrightarrow> ram_get r' b n = ram_get r b n"
    by (auto simp: ram_put_Some ram_get_def ram_ok_def ram_peek_def peek_poke_other)
qed

lemmas ram_laws = guest.get_put_same guest.get_put_other guest.put_size

text \<open>Memory that differs at most in a set of addresses.\<close>

definition touches :: "guest_ram \<Rightarrow> guest_ram \<Rightarrow> nat set \<Rightarrow> bool" where
  "touches r r' A \<longleftrightarrow> ram_bytes r' = ram_bytes r \<and> (\<forall>i. i \<notin> A \<longrightarrow> ram_mem r' i = ram_mem r i)"

lemma touches_refl [simp]: "touches r r A"
  by (simp add: touches_def)

lemma touches_mono: "touches r r' A \<Longrightarrow> A \<subseteq> B \<Longrightarrow> touches r r' B"
  by (auto simp: touches_def)

lemma touches_trans: "touches r r1 A \<Longrightarrow> touches r1 r2 A \<Longrightarrow> touches r r2 A"
  by (simp add: touches_def)

lemma touches_put: "ram_put r a bs = Some r' \<Longrightarrow> touches r r' {a..<a + length bs}"
  by (auto simp: ram_put_Some touches_def)

lemma touches_get:
  assumes "touches r r' A" and "{a..<a + n} \<inter> A = {}"
  shows "ram_get r' a n = ram_get r a n"
proof -
  have "ram_mem r' i = ram_mem r i" if "a \<le> i" "i < a + n" for i
    using assms that by (auto simp: touches_def)
  then show ?thesis using assms(1) by (auto simp: ram_get_def ram_ok_def ram_peek_def touches_def)
qed

section \<open>Fixed-size byte buffers\<close>

definition buf_get :: "u8 list \<Rightarrow> nat \<Rightarrow> nat \<Rightarrow> u8 list option" where
  "buf_get xs a n = (if a + n \<le> length xs then Some (take n (drop a xs)) else None)"

definition buf_put :: "u8 list \<Rightarrow> nat \<Rightarrow> u8 list \<Rightarrow> u8 list option" where
  "buf_put xs a bs =
     (if a + length bs \<le> length xs then Some (take a xs @ bs @ drop (a + length bs) xs) else None)"

lemma buf_put_Some:
  "buf_put xs a bs = Some ys \<longleftrightarrow>
     a + length bs \<le> length xs \<and> ys = take a xs @ bs @ drop (a + length bs) xs"
  by (auto simp: buf_put_def)

lemma buf_put_other:
  assumes "buf_put xs a bs = Some ys" and "b + n \<le> a \<or> a + length bs \<le> b"
  shows "buf_get ys b n = buf_get xs b n"
proof -
  from assms(1) have len: "length ys = length xs" and ys: "ys = take a xs @ bs @ drop (a + length bs) xs"
    and le: "a + length bs \<le> length xs"
    by (auto simp: buf_put_Some)
  have "take n (drop b ys) = take n (drop b xs)" if "b + n \<le> length xs"
  proof (rule nth_equalityI)
    show "length (take n (drop b ys)) = length (take n (drop b xs))" by (simp add: len)
  next
    fix i
    assume "i < length (take n (drop b ys))"
    with assms(2) le that show "take n (drop b ys) ! i = take n (drop b xs) ! i"
      by (auto simp: ys nth_append len)
  qed
  then show ?thesis by (simp add: buf_get_def len)
qed

interpretation buffer: byte_store length buf_get buf_put
proof unfold_locales
  fix xs :: "u8 list" and a n b and bs ys :: "u8 list"
  show "buf_get xs a n = None \<longleftrightarrow> length xs < a + n"
    by (auto simp: buf_get_def)
  show "buf_get xs a n = Some bs \<Longrightarrow> length bs = n"
    by (auto simp: buf_get_def split: if_splits)
  show "buf_put xs a bs = None \<longleftrightarrow> length xs < a + length bs"
    by (auto simp: buf_put_def)
  show "buf_put xs a bs = Some ys \<Longrightarrow> length ys = length xs"
    by (auto simp: buf_put_Some)
  show "buf_put xs a bs = Some ys \<Longrightarrow> buf_get ys a (length bs) = Some bs"
    by (auto simp: buf_put_Some buf_get_def)
  show "buf_put xs a bs = Some ys \<Longrightarrow> b + n \<le> a \<or> a + length bs \<le> b \<Longrightarrow> buf_get ys b n = buf_get xs b n"
    by (rule buf_put_other)
qed

text \<open>A buffer of \<open>n\<close> bytes that was cleared before data was copied into it.\<close>

definition fixed :: "nat \<Rightarrow> u8 list \<Rightarrow> u8 list" where
  "fixed n bs = take n (bs @ replicate n 0)"

lemma length_fixed [simp]: "length (fixed n bs) = n"
  by (simp add: fixed_def)

lemma fixed_id [simp]: "length bs = n \<Longrightarrow> fixed n bs = bs"
  by (simp add: fixed_def)

end
