(* ===== verification/Host_Os.thy ===== *)
theory Host_Os
  imports Prelude
begin

text \<open>
  The program's environment.  The VMM talks to the Linux kernel (KVM, eventfd, userfaultfd,
  sockets, TAP, threads) and, through a socket, to the \<^verbatim>\<open>virtiofsd\<close> process.  None of that code is part
  of the program, so it is a parameter of the model: a value of type \<open>os\<close> that answers
  each call from the whole history of calls made before it.  Every definition that
  calls the environment takes an \<open>os\<close> and extends a log of the calls, oldest first.
  A theorem that holds for every \<open>os\<close> holds for every behaviour of the environment.
\<close>

text \<open>The pieces of KVM state a snapshot reads and writes back, one per ioctl pair.\<close>

datatype kvm_item =
    K_regs | K_sregs | K_lapic | K_events | K_xcrs | K_mp_state | K_debugregs
  | K_clock | K_pit | K_pic_master | K_pic_slave | K_ioapic
  | K_tsc_khz | K_xsave2 | K_xsave | K_cpuid | K_msrs

datatype thread = Irq_thread | Net_thread | Uffd_thread

datatype host_call =
    Close int
  | Eventfd
  | Eventfd_write int
  | Eventfd_read int
  | Sigaction_usr1
  | Thread_create thread
  | Thread_join thread
  | Irq_line u32 u32
  | Socket_unix
  | Connect int
  | Usleep int
  | Socketpair
  | Sendmsg int "u8 list" "int list"
  | Recvmsg int
  | Kvm_get kvm_item
  | Kvm_set kvm_item "u8 list"
  | Uffd_open
  | Uffd_api
  | Uffd_register
  | Uffd_copy nat nat
  | Uffd_zeropage nat
  | Open_tun
  | Tunsetiff int string
  | Get_flags int
  | Set_nonblock int int
  | Unlink string
  | Fork
  | Setenv string string
  | Exec string "string list"
  | Exit int
  | Mmap_anon nat
  | Munmap nat
  | Open_write string
  | Open_read string
  | Fstat int
  | Mmap_file int nat
  | File_write int "u8 list"
  | Tap_write int "u8 list"
  | Tap_read int
  | Clock_gettime
  | Print_line "u8 list"
  | Print_stamped "u8 list"
  | Print_timing int int int
  | Poll "int list"
  | Kvm_run
  | Wake_vcpu
  | Open_kvm
  | Kvm_api_version
  | Kvm_msr_index_list
  | Create_vm
  | Create_irqchip
  | Create_pit2
  | Memfd_create bool
  | Ftruncate int nat
  | Mmap_shared int nat
  | Set_memslot u32 u64 nat
  | Create_vcpu
  | Vcpu_mmap_size
  | Supported_cpuid
  | Kill int
  | Waitpid int
  | File_read int nat
  | Getpid
  | Wait_child

type_synonym log = "host_call list"

record os =
  os_ret :: "log \<Rightarrow> host_call \<Rightarrow> int"
  os_data :: "log \<Rightarrow> host_call \<Rightarrow> u8 list"
  os_pair :: "log \<Rightarrow> host_call \<Rightarrow> int \<times> int"

text \<open>The size of an interface name, from the kernel's headers.\<close>

definition IFNAMSIZ :: nat where "IFNAMSIZ = 16"

text \<open>An environment that answers every call with 1, for concrete runs.\<close>

definition one_os :: os where
  "one_os = \<lparr>os_ret = (\<lambda>_ _. 1), os_data = (\<lambda>_ _. []), os_pair = (\<lambda>_ _. (1, 1))\<rparr>"

text \<open>The messages sent on a socket, with the file descriptors that travel with them.\<close>

fun sent :: "int \<Rightarrow> log \<Rightarrow> (u8 list \<times> int list) list" where
  "sent fd [] = []"
| "sent fd (Sendmsg fd' m fds # cs) = (if fd' = fd then [(m, fds)] else []) @ sent fd cs"
| "sent fd (c # cs) = sent fd cs"

lemma sent_append [simp]: "sent fd (xs @ ys) = sent fd xs @ sent fd ys"
  by (induction fd xs rule: sent.induct) auto

text \<open>The level of an interrupt line after a log, low at the start.\<close>

fun irq_level :: "u32 \<Rightarrow> u32 \<Rightarrow> log \<Rightarrow> u32" where
  "irq_level irq l [] = l"
| "irq_level irq l (Irq_line i v # cs) = irq_level irq (if i = irq then v else l) cs"
| "irq_level irq l (c # cs) = irq_level irq l cs"

lemma irq_level_append [simp]: "irq_level irq l (xs @ ys) = irq_level irq (irq_level irq l xs) ys"
  by (induction irq l xs rule: irq_level.induct) auto

end
