(* ===== verification/Virtio_Types.thy ===== *)
theory Virtio_Types
  imports Host_Os
begin

text \<open>
  The parts of \<^verbatim>\<open>src/virtio.hpp\<close> that both virtio devices share: the register map of the
  MMIO transport, the virtqueue, and the byte access rules of a register.  The locale
  \<open>virtio_transport\<close> states what a driver relies on when it programs a device through the
  queue registers; both devices interpret it.
\<close>

section \<open>The MMIO register map\<close>

datatype virtio_mmio_reg =
    MAGIC_VALUE | VERSION | DEVICE_ID | VENDOR_ID
  | DEVICE_FEATURES | DEVICE_FEATURES_SEL | DRIVER_FEATURES | DRIVER_FEATURES_SEL
  | QUEUE_SEL | QUEUE_NUM_MAX | QUEUE_NUM | QUEUE_READY | QUEUE_NOTIFY
  | INTERRUPT_STATUS | INTERRUPT_ACK | STATUS
  | QUEUE_DESC_LOW | QUEUE_DESC_HIGH | QUEUE_DRIVER_LOW | QUEUE_DRIVER_HIGH
  | QUEUE_DEVICE_LOW | QUEUE_DEVICE_HIGH
  | SHM_SEL | SHM_LEN_LOW | SHM_LEN_HIGH | SHM_BASE_LOW | SHM_BASE_HIGH
  | CONFIG_GEN | CONFIG

fun reg_offset :: "virtio_mmio_reg \<Rightarrow> nat" where
  "reg_offset MAGIC_VALUE = 0x000"
| "reg_offset VERSION = 0x004"
| "reg_offset DEVICE_ID = 0x008"
| "reg_offset VENDOR_ID = 0x00c"
| "reg_offset DEVICE_FEATURES = 0x010"
| "reg_offset DEVICE_FEATURES_SEL = 0x014"
| "reg_offset DRIVER_FEATURES = 0x020"
| "reg_offset DRIVER_FEATURES_SEL = 0x024"
| "reg_offset QUEUE_SEL = 0x030"
| "reg_offset QUEUE_NUM_MAX = 0x034"
| "reg_offset QUEUE_NUM = 0x038"
| "reg_offset QUEUE_READY = 0x044"
| "reg_offset QUEUE_NOTIFY = 0x050"
| "reg_offset INTERRUPT_STATUS = 0x060"
| "reg_offset INTERRUPT_ACK = 0x064"
| "reg_offset STATUS = 0x070"
| "reg_offset QUEUE_DESC_LOW = 0x080"
| "reg_offset QUEUE_DESC_HIGH = 0x084"
| "reg_offset QUEUE_DRIVER_LOW = 0x090"
| "reg_offset QUEUE_DRIVER_HIGH = 0x094"
| "reg_offset QUEUE_DEVICE_LOW = 0x0a0"
| "reg_offset QUEUE_DEVICE_HIGH = 0x0a4"
| "reg_offset SHM_SEL = 0x0ac"
| "reg_offset SHM_LEN_LOW = 0x0b0"
| "reg_offset SHM_LEN_HIGH = 0x0b4"
| "reg_offset SHM_BASE_LOW = 0x0b8"
| "reg_offset SHM_BASE_HIGH = 0x0bc"
| "reg_offset CONFIG_GEN = 0x0fc"
| "reg_offset CONFIG = 0x100"

definition all_regs :: "virtio_mmio_reg list" where
  "all_regs =
    [MAGIC_VALUE, VERSION, DEVICE_ID, VENDOR_ID, DEVICE_FEATURES, DEVICE_FEATURES_SEL,
     DRIVER_FEATURES, DRIVER_FEATURES_SEL, QUEUE_SEL, QUEUE_NUM_MAX, QUEUE_NUM, QUEUE_READY,
     QUEUE_NOTIFY, INTERRUPT_STATUS, INTERRUPT_ACK, STATUS, QUEUE_DESC_LOW, QUEUE_DESC_HIGH,
     QUEUE_DRIVER_LOW, QUEUE_DRIVER_HIGH, QUEUE_DEVICE_LOW, QUEUE_DEVICE_HIGH, SHM_SEL,
     SHM_LEN_LOW, SHM_LEN_HIGH, SHM_BASE_LOW, SHM_BASE_HIGH, CONFIG_GEN, CONFIG]"

text \<open>The \<^verbatim>\<open>switch (off)\<close> of the transport: the register at an offset, if there is one.\<close>

definition reg_at :: "nat \<Rightarrow> virtio_mmio_reg option" where
  "reg_at off = find (\<lambda>r. reg_offset r = off) all_regs"

lemma reg_at_offset [simp]: "reg_at (reg_offset r) = Some r"
  by (cases r) (simp_all add: reg_at_def all_regs_def)

lemma reg_at_Some: "reg_at off = Some r \<longleftrightarrow> off = reg_offset r"
proof
  assume "reg_at off = Some r"
  then show "off = reg_offset r" by (auto simp: reg_at_def find_Some_iff)
qed simp

text \<open>Registers are written by name in proofs; their offsets are unfolded only on demand.\<close>

declare reg_offset.simps [simp del]

section \<open>Virtqueues\<close>

record virtqueue =
  vq_num :: u32
  vq_ready :: u32
  vq_desc :: u64
  vq_driver :: u64
  vq_device :: u64
  kick_fd :: int
  call_fd :: int

definition empty_vq :: virtqueue where
  "empty_vq = \<lparr>vq_num = 0, vq_ready = 0, vq_desc = 0, vq_driver = 0, vq_device = 0,
               kick_fd = -1, call_fd = -1\<rparr>"

definition VIRT_F_VERSION_1 :: u64 where "VIRT_F_VERSION_1 = push_bit 32 1"

definition VIRTIO_VENDOR_ID :: u32 where "VIRTIO_VENDOR_ID = 0x554d4551"

text \<open>The part of the queue that the driver programs and a snapshot keeps.\<close>

definition vq_regs :: "virtqueue \<Rightarrow> u32 \<times> u32 \<times> u64 \<times> u64 \<times> u64" where
  "vq_regs q = (vq_num q, vq_ready q, vq_desc q, vq_driver q, vq_device q)"

text \<open>\<^verbatim>\<open>if (sel < NUM_QUEUES) vqs[sel].field = ...\<close>\<close>

definition upd_sel :: "u32 \<Rightarrow> (virtqueue \<Rightarrow> virtqueue) \<Rightarrow> virtqueue list \<Rightarrow> virtqueue list" where
  "upd_sel sel f qs = (if unat sel < length qs then qs[unat sel := f (qs ! unat sel)] else qs)"

lemma length_upd_sel [simp]: "length (upd_sel sel f qs) = length qs"
  by (simp add: upd_sel_def)

lemma upd_sel_ge: "length qs \<le> unat sel \<Longrightarrow> upd_sel sel f qs = qs"
  by (simp add: upd_sel_def)

lemma nth_upd_sel:
  "i < length qs \<Longrightarrow> upd_sel sel f qs ! i = (if i = unat sel then f (qs ! i) else qs ! i)"
  by (auto simp: upd_sel_def)

section \<open>Register accesses\<close>

text \<open>
  An access carries \<^verbatim>\<open>len\<close> bytes in the 8-byte \<^verbatim>\<open>mmio.data\<close> array.  A write reads at most four of
  them into a zeroed \<^verbatim>\<open>uint32_t\<close>; a read stores at most four and leaves the rest alone.
\<close>

definition mmio_val :: "u8 list \<Rightarrow> nat \<Rightarrow> u32" where
  "mmio_val bs len = le_val (take (min len 4) bs)"

definition mmio_reply :: "u8 list \<Rightarrow> nat \<Rightarrow> u32 \<Rightarrow> u8 list" where
  "mmio_reply bs len v = take (min len 4) (le_bytes 4 v) @ drop (min len 4) bs"

lemma mmio_val_reply: "4 \<le> len \<Longrightarrow> mmio_val (mmio_reply bs len v) len = v"
  by (simp add: mmio_val_def mmio_reply_def)

lemma length_mmio_reply: "length bs = 8 \<Longrightarrow> length (mmio_reply bs len v) = 8"
  by (simp add: mmio_reply_def)

lemma mmio_val_le_bytes: "4 \<le> len \<Longrightarrow> mmio_val (le_bytes 4 v @ rest) len = v"
  by (simp add: mmio_val_def)

text \<open>
  Configuration space: \<^verbatim>\<open>memcpy(&val, (uint8_t *)&config + (off - CONFIG), min(len, 4))\<close> under
  the guard that the first byte lies inside the config object.  The copy may still run past
  its end; that access is outside the object and has no defined value.
\<close>

definition config_val :: "u8 list \<Rightarrow> nat \<Rightarrow> nat \<Rightarrow> u32 option" where
  "config_val cfg off len =
     (if reg_offset CONFIG \<le> off \<and> off < reg_offset CONFIG + length cfg
      then (let o1 = off - reg_offset CONFIG; n = min len 4
            in if o1 + n \<le> length cfg then Some (le_val (take n (drop o1 cfg))) else None)
      else Some 0)"

lemma config_val_outside:
  "\<not> (reg_offset CONFIG \<le> off \<and> off < reg_offset CONFIG + length cfg) \<Longrightarrow> config_val cfg off len = Some 0"
  by (simp only: config_val_def if_False)

lemma config_val_defined:
  "off + min len 4 \<le> reg_offset CONFIG + length cfg \<Longrightarrow> config_val cfg off len \<noteq> None"
  by (auto simp: config_val_def Let_def)

definition sel_ready :: "u32 \<Rightarrow> virtqueue list \<Rightarrow> u32" where
  "sel_ready sel qs = (if unat sel < length qs then vq_ready (qs ! unat sel) else 0)"

text \<open>A 64-bit feature word is read through a selector.\<close>

definition half_of :: "u32 \<Rightarrow> u64 \<Rightarrow> u32" where
  "half_of sel f = (if sel = 0 then lo32 f else if sel = 1 then hi32 f else 0)"

lemma virq_and_not: "x = 0 \<or> x = (1 :: u32) \<Longrightarrow> x AND NOT v = 0 \<or> x AND NOT v = x"
proof -
  assume x: "x = 0 \<or> x = 1"
  have "1 AND NOT v = (if bit v 0 then 0 else 1)"
    by (rule bit_word_eqI) (auto simp: bit_simps intro!: gr0I)
  with x show ?thesis by (auto split: if_splits)
qed

section \<open>The kernel command line\<close>

text \<open>
  A device is announced to the guest kernel by a parameter printed with \<^verbatim>\<open>snprintf\<close> into a
  128-byte buffer and appended with \<^verbatim>\<open>strncat\<close> to the 2048-byte \<open>cmdline_\<close>.
\<close>

definition snprintf :: "nat \<Rightarrow> string \<Rightarrow> string" where
  "snprintf sz s = take (sz - 1) s"

definition mmio_device_param :: "nat \<Rightarrow> nat \<Rightarrow> nat \<Rightarrow> string" where
  "mmio_device_param sz gpa irq =
     snprintf 128 ('' virtio_mmio.device=0x'' @ hex_str sz @ ''@0x'' @ hex_str gpa @ '':'' @ dec_str irq)"

definition CMDLINE_SIZE :: nat where "CMDLINE_SIZE = 2048"

definition strncat_cmdline :: "string \<Rightarrow> string \<Rightarrow> string" where
  "strncat_cmdline cmdline s = cmdline @ take (CMDLINE_SIZE - length cmdline - 1) s"

lemma length_strncat_cmdline: "length cmdline < CMDLINE_SIZE \<Longrightarrow> length (strncat_cmdline cmdline s) < CMDLINE_SIZE"
  by (auto simp: strncat_cmdline_def)

section \<open>What a driver relies on\<close>

text \<open>
  The interface between a virtio driver and the queue registers of a device.  \<open>wr d r v\<close> is a
  32-bit write of \<open>v\<close> to register \<open>r\<close>.
\<close>

locale virtio_transport =
  fixes wr :: "'d \<Rightarrow> virtio_mmio_reg \<Rightarrow> u32 \<Rightarrow> 'd"
    and queues :: "'d \<Rightarrow> virtqueue list"
    and queue_sel :: "'d \<Rightarrow> u32"
    and drv_sel :: "'d \<Rightarrow> u32"
    and drv_features :: "'d \<Rightarrow> u64"
  assumes wr_queue_sel: "queues (wr d QUEUE_SEL v) = queues d" "queue_sel (wr d QUEUE_SEL v) = v"
    and wr_num: "queues (wr d QUEUE_NUM v) = upd_sel (queue_sel d) (vq_num_update (\<lambda>_. v)) (queues d)"
    and wr_ready: "queues (wr d QUEUE_READY v) = upd_sel (queue_sel d) (vq_ready_update (\<lambda>_. v)) (queues d)"
    and wr_desc_lo: "queues (wr d QUEUE_DESC_LOW v) = upd_sel (queue_sel d) (vq_desc_update (\<lambda>x. set_lo x v)) (queues d)"
    and wr_desc_hi: "queues (wr d QUEUE_DESC_HIGH v) = upd_sel (queue_sel d) (vq_desc_update (\<lambda>x. set_hi x v)) (queues d)"
    and wr_driver_lo: "queues (wr d QUEUE_DRIVER_LOW v) = upd_sel (queue_sel d) (vq_driver_update (\<lambda>x. set_lo x v)) (queues d)"
    and wr_driver_hi: "queues (wr d QUEUE_DRIVER_HIGH v) = upd_sel (queue_sel d) (vq_driver_update (\<lambda>x. set_hi x v)) (queues d)"
    and wr_device_lo: "queues (wr d QUEUE_DEVICE_LOW v) = upd_sel (queue_sel d) (vq_device_update (\<lambda>x. set_lo x v)) (queues d)"
    and wr_device_hi: "queues (wr d QUEUE_DEVICE_HIGH v) = upd_sel (queue_sel d) (vq_device_update (\<lambda>x. set_hi x v)) (queues d)"
    and wr_keeps_sel: "r \<noteq> QUEUE_SEL \<Longrightarrow> queue_sel (wr d r v) = queue_sel d"
    and wr_drv_sel: "drv_sel (wr d DRIVER_FEATURES_SEL v) = v" "drv_features (wr d DRIVER_FEATURES_SEL v) = drv_features d"
    and wr_drv_features_lo: "drv_sel d = 0 \<Longrightarrow> drv_features (wr d DRIVER_FEATURES v) = set_lo (drv_features d) v"
    and wr_drv_features_hi: "drv_sel d = 1 \<Longrightarrow> drv_features (wr d DRIVER_FEATURES v) = set_hi (drv_features d) v"
    and wr_drv_features_keeps: "drv_sel (wr d DRIVER_FEATURES v) = drv_sel d"
begin

lemmas wr_queue_laws =
  wr_num wr_ready wr_desc_lo wr_desc_hi wr_driver_lo wr_driver_hi wr_device_lo wr_device_hi

end

text \<open>
  The driver's side: the register writes with which a driver sets up queue \<open>i\<close>, in the order
  of the virtio 1.0 MMIO transport (select, size, the three addresses as halves, ready).
\<close>

definition vq_program :: "u32 \<Rightarrow> u32 \<Rightarrow> u64 \<Rightarrow> u64 \<Rightarrow> u64 \<Rightarrow> (virtio_mmio_reg \<times> u32) list" where
  "vq_program i num desc drv dev =
    [(QUEUE_SEL, i), (QUEUE_NUM, num),
     (QUEUE_DESC_LOW, lo32 desc), (QUEUE_DESC_HIGH, hi32 desc),
     (QUEUE_DRIVER_LOW, lo32 drv), (QUEUE_DRIVER_HIGH, hi32 drv),
     (QUEUE_DEVICE_LOW, lo32 dev), (QUEUE_DEVICE_HIGH, hi32 dev),
     (QUEUE_READY, 1)]"

definition feature_program :: "u64 \<Rightarrow> (virtio_mmio_reg \<times> u32) list" where
  "feature_program f =
    [(DRIVER_FEATURES_SEL, 1), (DRIVER_FEATURES, hi32 f),
     (DRIVER_FEATURES_SEL, 0), (DRIVER_FEATURES, lo32 f)]"

fun program :: "('d \<Rightarrow> virtio_mmio_reg \<Rightarrow> u32 \<Rightarrow> 'd) \<Rightarrow> (virtio_mmio_reg \<times> u32) list \<Rightarrow> 'd \<Rightarrow> 'd" where
  "program wr [] d = d"
| "program wr ((r, v) # ps) d = program wr ps (wr d r v)"

lemma upd_sel_upd_sel: "upd_sel s g (upd_sel s f qs) = upd_sel s (g \<circ> f) qs"
  by (simp add: upd_sel_def)

context virtio_transport begin

text \<open>
  Whatever a queue held before, the set-up sequence leaves it with exactly the
  programmed size and addresses, and leaves every other queue alone.
\<close>

lemma vq_programmed:
  "queues (program wr (vq_program i num desc drv dev) d) =
     upd_sel i (\<lambda>q. q\<lparr>vq_num := num, vq_ready := 1, vq_desc := desc, vq_driver := drv, vq_device := dev\<rparr>) (queues d)"
proof -
  have eta: "(\<lambda>q. q\<lparr>vq_num := num, vq_ready := 1, vq_desc := desc, vq_driver := drv, vq_device := dev\<rparr>) =
    vq_ready_update (\<lambda>_. 1) \<circ> (vq_device_update (\<lambda>x. set_hi x (hi32 dev)) \<circ> (vq_device_update (\<lambda>x. set_lo x (lo32 dev)) \<circ>
     (vq_driver_update (\<lambda>x. set_hi x (hi32 drv)) \<circ> (vq_driver_update (\<lambda>x. set_lo x (lo32 drv)) \<circ>
     (vq_desc_update (\<lambda>x. set_hi x (hi32 desc)) \<circ> (vq_desc_update (\<lambda>x. set_lo x (lo32 desc)) \<circ>
      vq_num_update (\<lambda>_. num)))))))"
    by (rule ext) (simp add: o_def half_simps)
  show ?thesis
    unfolding eta
    by (simp add: vq_program_def wr_queue_laws wr_queue_sel wr_keeps_sel upd_sel_upd_sel)
qed

lemma vq_programmed_nth:
  assumes "unat i < length (queues d)"
  shows "vq_regs (queues (program wr (vq_program i num desc drv dev) d) ! unat i) = (num, 1, desc, drv, dev)"
  using assms by (simp add: vq_programmed nth_upd_sel vq_regs_def)

lemma features_negotiated: "drv_features (program wr (feature_program f) d) = f"
  by (simp add: feature_program_def wr_drv_sel wr_drv_features_lo wr_drv_features_hi
      wr_drv_features_keeps half_simps)

end

end
