(* ===== verification/Virtio_Net.thy ===== *)
theory Virtio_Net
  imports Virtio_Types
begin

text \<open>
  The virtio-net device of \<^verbatim>\<open>src/virtio.cpp\<close>: its MMIO register file (\<open>net_mmio_read\<close>,
  \<open>net_mmio_write\<close>), the start of the data-path thread (\<open>vhost_net_setup\<close>), and its
  configuration (\<open>setup_virtio_net\<close>, \<open>open_tap\<close>, \<open>connect_tap\<close>).  The data path itself is in
  \<open>Net_Datapath\<close>.
\<close>

section \<open>State\<close>

record virtio_net_config =
  mac :: "u8 list"
  link_status :: u16
  max_vq_pairs :: u16
  mtu :: u16

record net_dev =
  net_vqs :: "virtqueue list"
  net_features_sel :: u32
  net_drv_features_sel :: u32
  net_drv_features :: u64
  net_status :: u32
  net_queue_sel :: u32
  net_irq_status :: u32
  net_config :: virtio_net_config
  net_active :: bool
  tap_fd :: int
  net_wakeup_fd :: int
  net_thread_running :: bool
  net_thread_stop :: bool

definition NET_NUM_QUEUES :: nat where "NET_NUM_QUEUES = 2"

definition init_net_dev :: net_dev where
  "init_net_dev =
    \<lparr>net_vqs = replicate NET_NUM_QUEUES empty_vq, net_features_sel = 0, net_drv_features_sel = 0,
     net_drv_features = 0, net_status = 0, net_queue_sel = 0, net_irq_status = 0,
     net_config = \<lparr>mac = replicate 6 0, link_status = 0, max_vq_pairs = 0, mtu = 0\<rparr>,
     net_active = False, tap_fd = -1, net_wakeup_fd = -1, net_thread_running = False,
     net_thread_stop = False\<rparr>"

definition VIRTIO_DEV_NET :: u32 where "VIRTIO_DEV_NET = 1"
definition VIRTIO_NET_MMIO_IRQ :: u32 where "VIRTIO_NET_MMIO_IRQ = 6"
definition VIRTIO_NET_MMIO_GPA :: nat where "VIRTIO_NET_MMIO_GPA = 0xd0002000"
definition VIRTIO_NET_MMIO_SIZE :: nat where "VIRTIO_NET_MMIO_SIZE = 0x1000"
definition VIRTIO_NET_F_MAC :: u64 where "VIRTIO_NET_F_MAC = push_bit 5 1"
definition VIRTIO_NET_S_LINK_UP :: u16 where "VIRTIO_NET_S_LINK_UP = 1"

definition net_features :: u64 where
  "net_features = VIRTIO_NET_F_MAC OR VIRT_F_VERSION_1"

section \<open>Configuration\<close>

definition net_config_bytes :: "virtio_net_config \<Rightarrow> u8 list" where
  "net_config_bytes c =
     mac c @ le_bytes 2 (link_status c) @ le_bytes 2 (max_vq_pairs c) @ le_bytes 2 (mtu c)"

definition net_set_config :: "u8 list \<Rightarrow> net_dev \<Rightarrow> net_dev" where
  "net_set_config m d =
     d\<lparr>net_config := \<lparr>mac = take 6 m, link_status = VIRTIO_NET_S_LINK_UP, max_vq_pairs = 1, mtu = 1500\<rparr>\<rparr>"

definition setup_virtio_net :: "u8 list \<Rightarrow> bool \<Rightarrow> string \<times> net_dev \<Rightarrow> string \<times> net_dev" where
  "setup_virtio_net m add_cmdline s =
     (case s of (cmdline, d) \<Rightarrow>
       (if add_cmdline
        then strncat_cmdline cmdline
               (mmio_device_param VIRTIO_NET_MMIO_SIZE VIRTIO_NET_MMIO_GPA (unat VIRTIO_NET_MMIO_IRQ))
        else cmdline, net_set_config m d))"

definition open_tap :: "os \<Rightarrow> string \<Rightarrow> log \<Rightarrow> int \<times> log" where
  "open_tap w name tr =
     (let fd = os_ret w tr Open_tun; tr1 = tr @ [Open_tun]
      in if fd < 0 then (-1, tr1)
         else (let c = Tunsetiff fd (take (IFNAMSIZ - 1) name); r = os_ret w tr1 c; tr2 = tr1 @ [c]
               in if r < 0 then (-1, tr2 @ [Close fd])
                  else (let flags = os_ret w tr2 (Get_flags fd)
                        in (fd, tr2 @ [Get_flags fd, Set_nonblock fd flags]))))"

definition connect_tap :: "os \<Rightarrow> string \<Rightarrow> net_dev \<Rightarrow> log \<Rightarrow> bool \<times> net_dev \<times> log" where
  "connect_tap w name d tr =
     (let (fd, tr1) = open_tap w name tr in (0 \<le> fd, d\<lparr>tap_fd := fd\<rparr>, tr1))"

section \<open>Register reads\<close>

definition net_read_val :: "nat \<Rightarrow> nat \<Rightarrow> net_dev \<Rightarrow> u32 option" where
  "net_read_val off len d =
     (case reg_at off of
        Some MAGIC_VALUE \<Rightarrow> Some 0x74726976
      | Some VERSION \<Rightarrow> Some 2
      | Some DEVICE_ID \<Rightarrow> Some VIRTIO_DEV_NET
      | Some VENDOR_ID \<Rightarrow> Some VIRTIO_VENDOR_ID
      | Some DEVICE_FEATURES \<Rightarrow> Some (half_of (net_features_sel d) net_features)
      | Some QUEUE_NUM_MAX \<Rightarrow> Some 256
      | Some QUEUE_READY \<Rightarrow> Some (sel_ready (net_queue_sel d) (net_vqs d))
      | Some INTERRUPT_STATUS \<Rightarrow> Some (net_irq_status d)
      | Some STATUS \<Rightarrow> Some (net_status d)
      | Some CONFIG_GEN \<Rightarrow> Some 0
      | Some SHM_LEN_LOW \<Rightarrow> Some 0xFFFFFFFF
      | Some SHM_LEN_HIGH \<Rightarrow> Some 0xFFFFFFFF
      | Some SHM_BASE_LOW \<Rightarrow> Some 0xFFFFFFFF
      | Some SHM_BASE_HIGH \<Rightarrow> Some 0xFFFFFFFF
      | _ \<Rightarrow> config_val (net_config_bytes (net_config d)) off len)"

definition net_mmio_read :: "nat \<Rightarrow> u8 list \<Rightarrow> nat \<Rightarrow> net_dev \<Rightarrow> u8 list option" where
  "net_mmio_read off bs len d = map_option (mmio_reply bs len) (net_read_val off len d)"

section \<open>Register writes\<close>

text \<open>\<open>vhost_net_setup\<close>: with no TAP there is nothing to start.\<close>

definition vhost_net_setup :: "os \<Rightarrow> net_dev \<Rightarrow> log \<Rightarrow> net_dev \<times> log" where
  "vhost_net_setup w d tr =
     (if tap_fd d < 0 then (d, tr)
      else (d\<lparr>net_wakeup_fd := os_ret w tr Eventfd, net_thread_running := True\<rparr>,
            tr @ [Eventfd, Thread_create Net_thread]))"

definition net_notify :: "net_dev \<Rightarrow> log \<Rightarrow> log" where
  "net_notify d tr =
     (if net_active d \<and> 0 \<le> net_wakeup_fd d then tr @ [Eventfd_write (net_wakeup_fd d)] else tr)"

definition net_ack :: "u32 \<Rightarrow> net_dev \<Rightarrow> log \<Rightarrow> net_dev \<times> log" where
  "net_ack v d tr =
     (let st = net_irq_status d AND NOT v
      in (d\<lparr>net_irq_status := st\<rparr>, if st = 0 then tr @ [Irq_line VIRTIO_NET_MMIO_IRQ 0] else tr))"

definition net_reset :: "net_dev \<Rightarrow> net_dev" where
  "net_reset d = d\<lparr>net_vqs := map (\<lambda>_. empty_vq) (net_vqs d), net_drv_features := 0, net_irq_status := 0\<rparr>"

definition net_set_status :: "os \<Rightarrow> u32 \<Rightarrow> net_dev \<Rightarrow> log \<Rightarrow> net_dev \<times> log" where
  "net_set_status w v d tr =
     (let old = net_status d; d1 = d\<lparr>net_status := v\<rparr>;
          d2 = (if v = 0 then net_reset d1 else d1)
      in if v AND 4 \<noteq> 0 \<and> old AND 4 = 0 then vhost_net_setup w (d2\<lparr>net_active := True\<rparr>) tr else (d2, tr))"

definition net_upd_queue :: "(virtqueue \<Rightarrow> virtqueue) \<Rightarrow> net_dev \<Rightarrow> net_dev" where
  "net_upd_queue f d = d\<lparr>net_vqs := upd_sel (net_queue_sel d) f (net_vqs d)\<rparr>"

fun net_write_reg :: "os \<Rightarrow> virtio_mmio_reg \<Rightarrow> u32 \<Rightarrow> net_dev \<Rightarrow> log \<Rightarrow> net_dev \<times> log" where
  "net_write_reg w DEVICE_FEATURES_SEL v d tr = (d\<lparr>net_features_sel := v\<rparr>, tr)"
| "net_write_reg w DRIVER_FEATURES_SEL v d tr = (d\<lparr>net_drv_features_sel := v\<rparr>, tr)"
| "net_write_reg w DRIVER_FEATURES v d tr =
     (if net_drv_features_sel d = 0 then (d\<lparr>net_drv_features := set_lo (net_drv_features d) v\<rparr>, tr)
      else if net_drv_features_sel d = 1 then (d\<lparr>net_drv_features := set_hi (net_drv_features d) v\<rparr>, tr)
      else (d, tr))"
| "net_write_reg w QUEUE_SEL v d tr = (d\<lparr>net_queue_sel := v\<rparr>, tr)"
| "net_write_reg w QUEUE_NUM v d tr = (net_upd_queue (vq_num_update (\<lambda>_. v)) d, tr)"
| "net_write_reg w QUEUE_READY v d tr = (net_upd_queue (vq_ready_update (\<lambda>_. v)) d, tr)"
| "net_write_reg w QUEUE_NOTIFY v d tr = (d, net_notify d tr)"
| "net_write_reg w INTERRUPT_ACK v d tr = net_ack v d tr"
| "net_write_reg w STATUS v d tr = net_set_status w v d tr"
| "net_write_reg w QUEUE_DESC_LOW v d tr = (net_upd_queue (vq_desc_update (\<lambda>x. set_lo x v)) d, tr)"
| "net_write_reg w QUEUE_DESC_HIGH v d tr = (net_upd_queue (vq_desc_update (\<lambda>x. set_hi x v)) d, tr)"
| "net_write_reg w QUEUE_DRIVER_LOW v d tr = (net_upd_queue (vq_driver_update (\<lambda>x. set_lo x v)) d, tr)"
| "net_write_reg w QUEUE_DRIVER_HIGH v d tr = (net_upd_queue (vq_driver_update (\<lambda>x. set_hi x v)) d, tr)"
| "net_write_reg w QUEUE_DEVICE_LOW v d tr = (net_upd_queue (vq_device_update (\<lambda>x. set_lo x v)) d, tr)"
| "net_write_reg w QUEUE_DEVICE_HIGH v d tr = (net_upd_queue (vq_device_update (\<lambda>x. set_hi x v)) d, tr)"
| "net_write_reg w _ v d tr = (d, tr)"

definition net_mmio_write :: "os \<Rightarrow> nat \<Rightarrow> u8 list \<Rightarrow> nat \<Rightarrow> net_dev \<Rightarrow> log \<Rightarrow> net_dev \<times> log" where
  "net_mmio_write w off bs len d tr =
     (case reg_at off of
        None \<Rightarrow> (d, tr)
      | Some r \<Rightarrow> net_write_reg w r (mmio_val bs len) d tr)"

section \<open>Runs of the device\<close>

text \<open>
  The data-path thread raises the interrupt in three actions: it sets the used-buffer bit,
  drives the line low, and drives it high.  Guest accesses run on another thread and can
  come between any two of them.  \<open>raise_pc\<close> says how far the thread has come.
\<close>

datatype raise_pc = Quiet | Marked | Lowered

inductive net_step :: "os \<Rightarrow> raise_pc \<times> net_dev \<times> log \<Rightarrow> raise_pc \<times> net_dev \<times> log \<Rightarrow> bool" for w where
  net_guest: "net_mmio_write w off bs len d tr = (d', tr') \<Longrightarrow> net_step w (pc, d, tr) (pc, d', tr')"
| net_mark: "net_step w (Quiet, d, tr) (Marked, d\<lparr>net_irq_status := net_irq_status d OR 1\<rparr>, tr)"
| net_lower: "net_step w (Marked, d, tr) (Lowered, d, tr @ [Irq_line VIRTIO_NET_MMIO_IRQ 0])"
| net_raise: "net_step w (Lowered, d, tr) (Quiet, d, tr @ [Irq_line VIRTIO_NET_MMIO_IRQ 1])"

inductive net_reach :: "os \<Rightarrow> u8 list \<Rightarrow> int \<Rightarrow> raise_pc \<times> net_dev \<times> log \<Rightarrow> bool" for w m tap where
  net_start: "net_reach w m tap (Quiet, net_set_config m (init_net_dev\<lparr>tap_fd := tap\<rparr>), [])"
| net_next: "net_reach w m tap s \<Longrightarrow> net_step w s s' \<Longrightarrow> net_reach w m tap s'"

inductive_cases net_step_cases: "net_step w s s'"

section \<open>Lemmas\<close>

lemma net_mmio_write_reg:
  "net_mmio_write w (reg_offset r) bs len d tr = net_write_reg w r (mmio_val bs len) d tr"
  by (simp add: net_mmio_write_def)

definition net_wr :: "os \<Rightarrow> log \<Rightarrow> net_dev \<Rightarrow> virtio_mmio_reg \<Rightarrow> u32 \<Rightarrow> net_dev" where
  "net_wr w tr d r v = fst (net_mmio_write w (reg_offset r) (le_bytes 4 v) 4 d tr)"

lemma net_wr_eq: "net_wr w tr d r v = fst (net_write_reg w r v d tr)"
  by (simp add: net_wr_def net_mmio_write_reg mmio_val_def)

lemma vhost_net_setup_keeps [simp]:
  "net_queue_sel (fst (vhost_net_setup w d tr)) = net_queue_sel d"
  "net_vqs (fst (vhost_net_setup w d tr)) = net_vqs d"
  "net_irq_status (fst (vhost_net_setup w d tr)) = net_irq_status d"
  "irq_level irq l (snd (vhost_net_setup w d tr)) = irq_level irq l tr"
  by (simp_all add: vhost_net_setup_def)

lemma net_set_status_sel: "net_queue_sel (fst (net_set_status w v d tr)) = net_queue_sel d"
  by (simp add: net_set_status_def Let_def net_reset_def)

interpretation net: virtio_transport "net_wr w tr" net_vqs net_queue_sel net_drv_features_sel net_drv_features
  for w tr
proof unfold_locales
  fix d v r
  show "r \<noteq> QUEUE_SEL \<Longrightarrow> net_queue_sel (net_wr w tr d r v) = net_queue_sel d"
    by (cases r) (simp_all add: net_wr_eq net_upd_queue_def net_ack_def Let_def net_set_status_sel)
qed (simp_all add: net_wr_eq net_upd_queue_def)

text \<open>
  Queue programming of virtio-net.  The register writes that set up queue \<open>i\<close> leave
  it with exactly the programmed size and addresses and the ready flag, whatever it held
  before, and leave the other queue as it was.
\<close>

lemma net_queue_programmed:
  assumes "unat i < length (net_vqs d)"
  shows "vq_regs (net_vqs (program (net_wr w tr) (vq_program i num desc drv dev) d) ! unat i) =
           (num, 1, desc, drv, dev) \<and>
         (\<forall>j < length (net_vqs d). j \<noteq> unat i \<longrightarrow>
            net_vqs (program (net_wr w tr) (vq_program i num desc drv dev) d) ! j = net_vqs d ! j)"
  using net.vq_programmed_nth [OF assms] by (auto simp: net.vq_programmed nth_upd_sel)

subsection \<open>Interrupt line and status\<close>

definition net_inv :: "raise_pc \<times> net_dev \<times> log \<Rightarrow> bool" where
  "net_inv s \<longleftrightarrow> (case s of (pc, d, tr) \<Rightarrow>
     length (net_vqs d) = NET_NUM_QUEUES \<and> (net_irq_status d = 0 \<or> net_irq_status d = 1) \<and>
     (pc = Quiet \<and> net_irq_status d \<noteq> 0 \<longrightarrow> irq_level VIRTIO_NET_MMIO_IRQ 0 tr = 1))"

lemma net_inv_write:
  assumes "net_inv (pc, d, tr)"
  shows "net_inv (pc, net_write_reg w r v d tr)"
proof (cases r)
  case INTERRUPT_ACK
  have "net_irq_status d AND NOT v = 0 \<or> net_irq_status d AND NOT v = net_irq_status d"
    using assms by (intro virq_and_not) (auto simp: net_inv_def)
  with assms INTERRUPT_ACK show ?thesis by (auto simp: net_inv_def net_ack_def Let_def)
next
  case STATUS
  with assms show ?thesis
    by (auto simp: net_inv_def net_set_status_def net_reset_def Let_def vhost_net_setup_def)
qed (use assms in \<open>auto simp: net_inv_def net_upd_queue_def net_notify_def\<close>)

lemma net_inv_step: "net_step w s s' \<Longrightarrow> net_inv s \<Longrightarrow> net_inv s'"
proof (erule net_step_cases)
  fix off bs len d tr d' tr' pc
  assume i: "net_inv s" and s: "s = (pc, d, tr)" "s' = (pc, d', tr')"
    and wr: "net_mmio_write w off bs len d tr = (d', tr')"
  show "net_inv s'"
  proof (cases "reg_at off")
    case None
    with i s wr show ?thesis by (simp add: net_mmio_write_def)
  next
    case (Some r)
    with wr have "net_write_reg w r (mmio_val bs len) d tr = (d', tr')"
      by (simp add: net_mmio_write_def)
    with net_inv_write [of pc d tr w r "mmio_val bs len"] i s show ?thesis by simp
  qed
qed (auto simp: net_inv_def)

lemma net_reach_inv: "net_reach w m tap s \<Longrightarrow> net_inv s"
proof (induction rule: net_reach.induct)
  case net_start
  show ?case by (simp add: net_inv_def net_set_config_def init_net_dev_def)
next
  case (net_next s s')
  then show ?case by (blast intro: net_inv_step)
qed


text \<open>A run in which the guest acknowledges between the marking and the raising of the line.\<close>

definition demo_net :: net_dev where
  "demo_net = net_set_config [2, 0, 0, 0, 0, 1] (init_net_dev\<lparr>tap_fd := 7\<rparr>)"

lemma demo_net_raised:
  "net_reach w [2, 0, 0, 0, 0, 1] 7 (Quiet, demo_net\<lparr>net_irq_status := 1\<rparr>,
     [Irq_line VIRTIO_NET_MMIO_IRQ 0, Irq_line VIRTIO_NET_MMIO_IRQ 1])"
proof -
  have "net_reach w [2, 0, 0, 0, 0, 1] 7 (Quiet, demo_net, [])"
    unfolding demo_net_def by (rule net_start)
  then have "net_reach w [2, 0, 0, 0, 0, 1] 7 (Marked, demo_net\<lparr>net_irq_status := net_irq_status demo_net OR 1\<rparr>, [])"
    by (rule net_next) (rule net_mark)
  then have "net_reach w [2, 0, 0, 0, 0, 1] 7 (Lowered, demo_net\<lparr>net_irq_status := net_irq_status demo_net OR 1\<rparr>,
      [] @ [Irq_line VIRTIO_NET_MMIO_IRQ 0])"
    by (rule net_next) (rule net_lower)
  then have "net_reach w [2, 0, 0, 0, 0, 1] 7 (Quiet, demo_net\<lparr>net_irq_status := net_irq_status demo_net OR 1\<rparr>,
      ([] @ [Irq_line VIRTIO_NET_MMIO_IRQ 0]) @ [Irq_line VIRTIO_NET_MMIO_IRQ 1])"
    by (rule net_next) (rule net_raise)
  moreover have "net_irq_status demo_net = 0"
    by (simp add: demo_net_def net_set_config_def init_net_dev_def)
  ultimately show ?thesis by simp
qed


text \<open>
  Restarting the device starts a second data-path thread.  When a device that has
  a TAP and whose thread already runs is reset and initialised again, the thread that runs is
  neither stopped nor joined: one more eventfd is created (the old descriptor is overwritten,
  not closed) and one more thread is started on the same rings.
\<close>

lemma net_restart_second_thread:
  assumes "0 \<le> tap_fd d"
  shows "\<exists>d1. net_mmio_write w (reg_offset STATUS) (le_bytes 4 (0 :: u32)) 4 d tr = (d1, tr) \<and>
    net_thread_stop d1 = net_thread_stop d \<and> net_wakeup_fd d1 = net_wakeup_fd d \<and>
    snd (net_mmio_write w (reg_offset STATUS) (le_bytes 4 (4 :: u32)) 4 d1 tr) =
      tr @ [Eventfd, Thread_create Net_thread] \<and>
    net_wakeup_fd (fst (net_mmio_write w (reg_offset STATUS) (le_bytes 4 (4 :: u32)) 4 d1 tr)) = os_ret w tr Eventfd"
  using assms
  by (simp add: net_mmio_write_reg mmio_val_def net_set_status_def Let_def net_reset_def vhost_net_setup_def)

lemma net_restart_second_thread_witness:
  "\<exists>d1. net_mmio_write one_os (reg_offset STATUS) (le_bytes 4 (0 :: u32)) 4 demo_net [] = (d1, []) \<and>
    snd (net_mmio_write one_os (reg_offset STATUS) (le_bytes 4 (4 :: u32)) 4 d1 []) = [Eventfd, Thread_create Net_thread]"
proof -
  have "0 \<le> tap_fd demo_net" by (simp add: demo_net_def net_set_config_def init_net_dev_def)
  from net_restart_second_thread [OF this, of one_os "[]"] show ?thesis by auto
qed

end
