(* ===== verification/Net_Datapath.thy ===== *)
theory Net_Datapath
  imports Guest_Ram Virtio_Net "HOL-Library.Monad_Syntax"
begin

text \<open>
  The userspace data path of virtio-net, \<open>net_thread_func\<close> of \<^verbatim>\<open>src/virtio.cpp\<close>.  The thread reads
  and writes the split virtqueues that the guest driver keeps in guest RAM: transmit chains are
  gathered into a packet buffer and written to the TAP device, packets read from the TAP are copied into
  the receive buffers, and both are handed back through the used rings.

  All ring indices are 16-bit words that wrap.  An access outside guest RAM, and the remainder by
  a ring size of zero, are undefined behaviour of the program and the value \<open>None\<close>.  The two drain loops
  read the guest's index in every round, so they are partial functions; that they return is proved.
  During one pass the guest does not change the rings.
\<close>

section \<open>Rings in guest RAM\<close>

record vring_desc =
  d_addr :: u64
  d_len :: u32
  d_flags :: u16
  d_next :: u16

definition VRING_DESC_F_NEXT :: u16 where "VRING_DESC_F_NEXT = 1"
definition VRING_DESC_F_WRITE :: u16 where "VRING_DESC_F_WRITE = 2"
definition NET_HDR_SIZE :: nat where "NET_HDR_SIZE = 12"
definition PKT_BUF_SIZE :: nat where "PKT_BUF_SIZE = 65536"
definition MAX_CHAIN :: nat where "MAX_CHAIN = 64"

text \<open>A queue with its three areas as the thread has looked them up.\<close>

record vring =
  v_num :: u32
  v_desc :: nat
  v_avail :: nat
  v_used :: nat

definition gpa_to_hva :: "guest_ram \<Rightarrow> u64 \<Rightarrow> nat option" where
  "gpa_to_hva r gpa = (if unat gpa < ram_bytes r then Some (unat gpa) else None)"

definition slot :: "u16 \<Rightarrow> vring \<Rightarrow> nat option" where
  "slot x q = (if v_num q = 0 then None else Some (unat x mod unat (v_num q)))"

definition desc_of :: "u8 list \<Rightarrow> vring_desc" where
  "desc_of b = \<lparr>d_addr = le_val (take 8 b), d_len = le_val (take 4 (drop 8 b)),
                d_flags = le_val (take 2 (drop 12 b)), d_next = le_val (take 2 (drop 14 b))\<rparr>"

definition read_desc :: "guest_ram \<Rightarrow> vring \<Rightarrow> nat \<Rightarrow> vring_desc option" where
  "read_desc r q i = map_option desc_of (ram_get r (v_desc q + 16 * i) 16)"

definition avail_idx :: "guest_ram \<Rightarrow> vring \<Rightarrow> u16 option" where
  "avail_idx r q = ram_u16 r (v_avail q + 2)"

definition avail_ring :: "guest_ram \<Rightarrow> vring \<Rightarrow> nat \<Rightarrow> u16 option" where
  "avail_ring r q i = ram_u16 r (v_avail q + 4 + 2 * i)"

definition used_idx :: "guest_ram \<Rightarrow> vring \<Rightarrow> u16 option" where
  "used_idx r q = ram_u16 r (v_used q + 2)"

text \<open>A used element: the head of the chain and the number of bytes written into it.\<close>

definition used_elem :: "u16 \<Rightarrow> nat \<Rightarrow> u8 list" where
  "used_elem head n = le_bytes 4 (ucast head :: u32) @ le_bytes 4 (of_nat n :: u32)"

definition put_used :: "guest_ram \<Rightarrow> vring \<Rightarrow> u16 \<Rightarrow> nat \<Rightarrow> guest_ram option" where
  "put_used r q head n = do {
     ui \<leftarrow> used_idx r q;
     k \<leftarrow> slot ui q;
     r1 \<leftarrow> ram_put r (v_used q + 4 + 8 * k) (used_elem head n);
     ui1 \<leftarrow> used_idx r1 q;
     ram_put r1 (v_used q + 2) (le_bytes 2 (ui1 + 1))
   }"

section \<open>Transmit\<close>

text \<open>
  The descriptor chain is walked for at most 64 descriptors.  The list is the part of \<open>pkt_buf\<close> that has
  been filled; a fragment that would not fit is left out.
\<close>

definition tx_fragment :: "guest_ram \<Rightarrow> vring_desc \<Rightarrow> u8 list \<Rightarrow> u8 list option" where
  "tx_fragment r d pkt =
     (case gpa_to_hva r (d_addr d) of
        None \<Rightarrow> Some pkt
      | Some a \<Rightarrow>
          (if 0 < d_len d \<and> length pkt + unat (d_len d) < PKT_BUF_SIZE
           then map_option (\<lambda>b. pkt @ b) (ram_get r a (unat (d_len d))) else Some pkt))"

fun tx_gather :: "nat \<Rightarrow> guest_ram \<Rightarrow> vring \<Rightarrow> u16 \<Rightarrow> u8 list \<Rightarrow> u8 list option" where
  "tx_gather 0 r q cur pkt = Some pkt"
| "tx_gather (Suc n) r q cur pkt = do {
     i \<leftarrow> slot cur q;
     d \<leftarrow> read_desc r q i;
     pkt1 \<leftarrow> tx_fragment r d pkt;
     (if d_flags d AND VRING_DESC_F_NEXT = 0 then Some pkt1 else tx_gather n r q (d_next d) pkt1)
   }"

text \<open>What is written to the TAP: the packet without its virtio header, if there is more than that.\<close>

definition tap_frame :: "u8 list \<Rightarrow> u8 list list" where
  "tap_frame pkt = (if NET_HDR_SIZE < length pkt then [drop NET_HDR_SIZE pkt] else [])"

definition tx_one :: "int \<Rightarrow> vring \<Rightarrow> u16 \<Rightarrow> guest_ram \<Rightarrow> log \<Rightarrow> (guest_ram \<times> log) option" where
  "tx_one tap q pos r tr = do {
     i \<leftarrow> slot pos q;
     head \<leftarrow> avail_ring r q i;
     pkt \<leftarrow> tx_gather MAX_CHAIN r q head [];
     r1 \<leftarrow> put_used r q head 0;
     Some (r1, tr @ map (Tap_write tap) (tap_frame pkt))
   }"

partial_function (option) tx_drain ::
  "int \<Rightarrow> vring \<Rightarrow> bool \<Rightarrow> u16 \<Rightarrow> guest_ram \<Rightarrow> log \<Rightarrow> (bool \<times> u16 \<times> guest_ram \<times> log) option" where
  "tx_drain tap q did pos r tr =
     (case avail_idx r q of
        None \<Rightarrow> None
      | Some idx \<Rightarrow>
          (if pos = idx then Some (did, pos, r, tr)
           else (case tx_one tap q pos r tr of
                   None \<Rightarrow> None
                 | Some (r1, tr1) \<Rightarrow> tx_drain tap q True (pos + 1) r1 tr1)))"

section \<open>Receive\<close>

text \<open>\<open>read\<close> fills at most the whole packet buffer; an error and an end of file both leave nothing.\<close>

definition tap_read :: "os \<Rightarrow> int \<Rightarrow> log \<Rightarrow> u8 list" where
  "tap_read w tap tr =
     (if os_ret w tr (Tap_read tap) \<le> 0 then [] else take PKT_BUF_SIZE (os_data w tr (Tap_read tap)))"

text \<open>
  One buffer for header and packet, or a buffer for the header followed by one for the packet.  The
  result is the number of bytes handed to the guest, 0 if the packet does not fit.
\<close>

definition rx_fill :: "guest_ram \<Rightarrow> vring \<Rightarrow> nat \<Rightarrow> vring_desc \<Rightarrow> nat \<Rightarrow> u8 list \<Rightarrow> (nat \<times> guest_ram) option" where
  "rx_fill r q di d a pkt =
     (if NET_HDR_SIZE + length pkt \<le> unat (d_len d)
      then do {
        r1 \<leftarrow> ram_memset r a 0 NET_HDR_SIZE;
        r2 \<leftarrow> ram_put r1 (a + NET_HDR_SIZE) pkt;
        Some (NET_HDR_SIZE + length pkt, r2)
      }
      else if d_flags d AND VRING_DESC_F_NEXT \<noteq> 0
      then do {
        r1 \<leftarrow> ram_memset r a 0 (min NET_HDR_SIZE (unat (d_len d)));
        d1 \<leftarrow> read_desc r1 q di;
        i \<leftarrow> slot (d_next d1) q;
        d2 \<leftarrow> read_desc r1 q i;
        (case gpa_to_hva r1 (d_addr d2) of
           None \<Rightarrow> Some (0, r1)
         | Some b \<Rightarrow>
             (if length pkt \<le> unat (d_len d2)
              then map_option (\<lambda>r2. (NET_HDR_SIZE + length pkt, r2)) (ram_put r1 b pkt)
              else Some (0, r1)))
      }
      else Some (0, r))"

text \<open>What becomes of one packet: whether it was delivered, and the memory afterwards.\<close>

definition rx_one :: "vring \<Rightarrow> u16 \<Rightarrow> guest_ram \<Rightarrow> u8 list \<Rightarrow> (bool \<times> guest_ram) option" where
  "rx_one q pos r pkt = do {
     i \<leftarrow> slot pos q;
     head \<leftarrow> avail_ring r q i;
     di \<leftarrow> slot head q;
     d \<leftarrow> read_desc r q di;
     (case gpa_to_hva r (d_addr d) of
        None \<Rightarrow> Some (False, r)
      | Some a \<Rightarrow>
          (if d_flags d AND VRING_DESC_F_WRITE = 0 then Some (False, r)
           else do {
             (n, r1) \<leftarrow> rx_fill r q di d a pkt;
             (if 0 < n then map_option (\<lambda>r2. (True, r2)) (put_used r1 q head n) else Some (False, r1))
           }))
   }"

partial_function (option) rx_drain ::
  "os \<Rightarrow> int \<Rightarrow> vring \<Rightarrow> bool \<Rightarrow> u16 \<Rightarrow> guest_ram \<Rightarrow> log \<Rightarrow> (bool \<times> u16 \<times> guest_ram \<times> log) option" where
  "rx_drain w tap q did pos r tr =
     (case avail_idx r q of
        None \<Rightarrow> None
      | Some idx \<Rightarrow>
          (if pos = idx then Some (did, pos, r, tr)
           else (let pkt = tap_read w tap tr; tr1 = tr @ [Tap_read tap]
                 in if pkt = [] then Some (did, pos, r, tr1)
                    else (case rx_one q pos r pkt of
                            None \<Rightarrow> None
                          | Some (ok, r1) \<Rightarrow>
                              (if ok then rx_drain w tap q True (pos + 1) r1 tr1
                               else Some (did, pos, r1, tr1))))))"

section \<open>The thread\<close>

record net_thread =
  nt_ram :: guest_ram
  nt_irq_status :: u32
  tx_last_avail :: u16
  rx_last_used :: u16

definition look_up_ring :: "guest_ram \<Rightarrow> virtqueue \<Rightarrow> vring option" where
  "look_up_ring r q = do {
     a \<leftarrow> gpa_to_hva r (vq_driver q);
     u \<leftarrow> gpa_to_hva r (vq_device q);
     d \<leftarrow> gpa_to_hva r (vq_desc q);
     Some \<lparr>v_num = vq_num q, v_desc = d, v_avail = a, v_used = u\<rparr>
   }"

definition net_queues_ready :: "net_dev \<Rightarrow> bool" where
  "net_queues_ready d \<longleftrightarrow> net_active d \<and> vq_ready (net_vqs d ! 0) \<noteq> 0 \<and> vq_ready (net_vqs d ! 1) \<noteq> 0"

text \<open>
  Once the queues are ready the thread looks the rings up and starts where the used rings stand;
  with an address outside RAM it gives up (\<open>Some None\<close>).
\<close>

definition net_thread_start :: "net_dev \<Rightarrow> guest_ram \<Rightarrow> (vring \<times> vring \<times> net_thread) option option" where
  "net_thread_start d r =
     (case (look_up_ring r (net_vqs d ! 0), look_up_ring r (net_vqs d ! 1)) of
        (Some rxq, Some txq) \<Rightarrow> do {
          t \<leftarrow> used_idx r txq;
          u \<leftarrow> used_idx r rxq;
          Some (Some (rxq, txq, \<lparr>nt_ram = r, nt_irq_status = net_irq_status d, tx_last_avail = t, rx_last_used = u\<rparr>))
        }
      | _ \<Rightarrow> Some None)"

definition net_pulse :: "bool \<Rightarrow> net_thread \<Rightarrow> log \<Rightarrow> net_thread \<times> log" where
  "net_pulse did s tr =
     (if did then (s\<lparr>nt_irq_status := nt_irq_status s OR 1\<rparr>, tr @ [Irq_line VIRTIO_NET_MMIO_IRQ 0, Irq_line VIRTIO_NET_MMIO_IRQ 1])
      else (s, tr))"

definition net_idle :: "os \<Rightarrow> int \<Rightarrow> int \<Rightarrow> log \<Rightarrow> log" where
  "net_idle w tap wake tr =
     (let c = Poll [tap, wake]; ev = os_data w tr c
      in if 1 < length ev \<and> ev ! 1 AND 1 \<noteq> 0 then tr @ [c, Eventfd_read wake] else tr @ [c])"

text \<open>One round of the thread's loop.\<close>

definition net_pass :: "os \<Rightarrow> int \<Rightarrow> int \<Rightarrow> vring \<Rightarrow> vring \<Rightarrow> net_thread \<Rightarrow> log \<Rightarrow> (net_thread \<times> log) option" where
  "net_pass w tap wake rxq txq s tr =
     (case tx_drain tap txq False (tx_last_avail s) (nt_ram s) tr of
        None \<Rightarrow> None
      | Some (tx, tp, r1, tr1) \<Rightarrow>
          (let (s1, tr2) = net_pulse tx (s\<lparr>nt_ram := r1, tx_last_avail := tp\<rparr>) tr1
           in case rx_drain w tap rxq False (rx_last_used s1) (nt_ram s1) tr2 of
                None \<Rightarrow> None
              | Some (rx, rp, r2, tr3) \<Rightarrow>
                  (let (s2, tr4) = net_pulse rx (s1\<lparr>nt_ram := r2, rx_last_used := rp\<rparr>) tr3
                   in Some (s2, if \<not> tx \<and> \<not> rx then net_idle w tap wake tr4 else tr4))))"

section \<open>Well-formed queues\<close>

definition apart :: "nat \<Rightarrow> nat \<Rightarrow> nat \<Rightarrow> nat \<Rightarrow> bool" where
  "apart a n b m \<longleftrightarrow> a + n \<le> b \<or> b + m \<le> a"

definition q_num :: "vring \<Rightarrow> nat" where "q_num q = unat (v_num q)"

text \<open>A buffer lies in RAM and away from the three areas of its queue.\<close>

definition buffer_ok :: "guest_ram \<Rightarrow> vring \<Rightarrow> vring_desc \<Rightarrow> bool" where
  "buffer_ok r q d \<longleftrightarrow>
     (case gpa_to_hva r (d_addr d) of
        None \<Rightarrow> True
      | Some a \<Rightarrow> a + unat (d_len d) \<le> ram_bytes r \<and> apart a (unat (d_len d)) (v_used q) (4 + 8 * q_num q) \<and>
          apart a (unat (d_len d)) (v_desc q) (16 * q_num q) \<and> apart a (unat (d_len d)) (v_avail q) (4 + 2 * q_num q))"

text \<open>What a correct driver sets up: a non-empty queue whose areas are in RAM and do not overlap.\<close>

definition areas_ok :: "guest_ram \<Rightarrow> vring \<Rightarrow> bool" where
  "areas_ok r q \<longleftrightarrow> 0 < q_num q \<and> v_desc q + 16 * q_num q \<le> ram_bytes r \<and>
     v_avail q + (4 + 2 * q_num q) \<le> ram_bytes r \<and> v_used q + (4 + 8 * q_num q) \<le> ram_bytes r \<and>
     apart (v_used q) (4 + 8 * q_num q) (v_desc q) (16 * q_num q) \<and>
     apart (v_used q) (4 + 8 * q_num q) (v_avail q) (4 + 2 * q_num q)"

definition queue_ok :: "guest_ram \<Rightarrow> vring \<Rightarrow> bool" where
  "queue_ok r q \<longleftrightarrow> areas_ok r q \<and> (\<forall>i < q_num q. \<forall>d \<in> set_option (read_desc r q i). buffer_ok r q d)"

definition used_area :: "vring \<Rightarrow> nat set" where
  "used_area q = {v_used q..<v_used q + (4 + 8 * q_num q)}"

definition desc_area :: "vring \<Rightarrow> nat set" where
  "desc_area q = {v_desc q..<v_desc q + 16 * q_num q}"

definition avail_area :: "vring \<Rightarrow> nat set" where
  "avail_area q = {v_avail q..<v_avail q + (4 + 2 * q_num q)}"

lemma slot_Some: "areas_ok r q \<Longrightarrow> slot x q = Some (unat x mod q_num q)"
  by (auto simp: slot_def areas_ok_def q_num_def)

lemma slot_less: "areas_ok r q \<Longrightarrow> unat x mod q_num q < q_num q"
  by (simp add: areas_ok_def)

lemma areas_ok_touches: "areas_ok r q \<Longrightarrow> touches r r' A \<Longrightarrow> areas_ok r' q"
  by (simp add: areas_ok_def touches_def)

lemma read_desc_touches:
  assumes "touches r r' A" and "desc_area q \<inter> A = {}" and "i < q_num q"
  shows "read_desc r' q i = read_desc r q i"
proof -
  have "{v_desc q + 16 * i..<v_desc q + 16 * i + 16} \<subseteq> desc_area q"
    using assms(3) by (auto simp: desc_area_def)
  with assms(2) have "{v_desc q + 16 * i..<v_desc q + 16 * i + 16} \<inter> A = {}" by blast
  from touches_get [OF assms(1) this] show ?thesis by (simp add: read_desc_def)
qed

lemma avail_touches:
  assumes "touches r r' A" and "avail_area q \<inter> A = {}"
  shows "avail_idx r' q = avail_idx r q"
    and "i < q_num q \<Longrightarrow> avail_ring r' q i = avail_ring r q i"
proof -
  have "{v_avail q + 2..<v_avail q + 2 + 2} \<subseteq> avail_area q" by (auto simp: avail_area_def)
  with assms(2) have "{v_avail q + 2..<v_avail q + 2 + 2} \<inter> A = {}" by blast
  from touches_get [OF assms(1) this] show "avail_idx r' q = avail_idx r q" by (simp add: avail_idx_def ram_u16_def)
next
  assume "i < q_num q"
  then have "{v_avail q + 4 + 2 * i..<v_avail q + 4 + 2 * i + 2} \<subseteq> avail_area q" by (auto simp: avail_area_def)
  with assms(2) have "{v_avail q + 4 + 2 * i..<v_avail q + 4 + 2 * i + 2} \<inter> A = {}" by blast
  from touches_get [OF assms(1) this] show "avail_ring r' q i = avail_ring r q i" by (simp add: avail_ring_def ram_u16_def)
qed

lemma gpa_to_hva_touches: "touches r r' A \<Longrightarrow> gpa_to_hva r' = gpa_to_hva r"
  by (simp add: gpa_to_hva_def touches_def fun_eq_iff)

text \<open>The addresses the data path may write: the used ring and the buffers.\<close>

definition buffers :: "guest_ram \<Rightarrow> vring \<Rightarrow> nat set" where
  "buffers r q = (\<Union>i < q_num q. \<Union>d \<in> set_option (read_desc r q i). \<Union>a \<in> set_option (gpa_to_hva r (d_addr d)).
     {a..<a + unat (d_len d)})"

lemma area_disjoint:
  assumes "queue_ok r q"
  shows "desc_area q \<inter> (used_area q \<union> buffers r q) = {}" "avail_area q \<inter> (used_area q \<union> buffers r q) = {}"
    "used_area q \<inter> buffers r q = {}"
  using assms
  by (fastforce simp: queue_ok_def areas_ok_def buffer_ok_def apart_def desc_area_def avail_area_def used_area_def buffers_def)+

lemma queue_ok_desc:
  assumes "queue_ok r q" and t: "touches r r' A" and dis: "desc_area q \<inter> A = {}"
  shows "queue_ok r' q" and "buffers r' q = buffers r q"
proof -
  note rd = read_desc_touches [OF t dis]
  have g: "gpa_to_hva r' = gpa_to_hva r" "ram_bytes r' = ram_bytes r"
    using gpa_to_hva_touches [OF t] t by (simp_all add: touches_def)
  have "buffer_ok r' q d = buffer_ok r q d" for d unfolding buffer_ok_def g ..
  then show "queue_ok r' q" using assms(1) areas_ok_touches [OF _ t] by (simp add: queue_ok_def rd)
  show "buffers r' q = buffers r q" by (simp add: buffers_def rd g)
qed

lemma queue_ok_touches:
  assumes "queue_ok r q" and t: "touches r r' (used_area q \<union> buffers r q)"
  shows "queue_ok r' q" and "buffers r' q = buffers r q"
  using queue_ok_desc [OF assms area_disjoint(1) [OF assms(1)]] .

lemma read_desc_ok:
  assumes "queue_ok r q" and "i < q_num q"
  shows "\<exists>d. read_desc r q i = Some d \<and> buffer_ok r q d"
proof -
  have "v_desc q + 16 * i + 16 \<le> ram_bytes r" using assms by (simp add: queue_ok_def areas_ok_def)
  then have "ram_get r (v_desc q + 16 * i) 16 \<noteq> None" by (simp add: ram_get_def ram_ok_def)
  then obtain d where "read_desc r q i = Some d" by (auto simp: read_desc_def)
  with assms show ?thesis by (auto simp: queue_ok_def)
qed

lemma avail_ok:
  assumes "areas_ok r q"
  shows "\<exists>idx. avail_idx r q = Some idx" and "i < q_num q \<Longrightarrow> \<exists>h. avail_ring r q i = Some h"
    and "\<exists>u. used_idx r q = Some u"
  using assms by (auto simp: avail_idx_def avail_ring_def used_idx_def ram_u16_def ram_get_def ram_ok_def areas_ok_def)

section \<open>Publishing a used buffer\<close>

lemma used_slot_area: "i < q_num q \<Longrightarrow> {v_used q + 4 + 8 * i..<v_used q + 4 + 8 * i + 8} \<subseteq> used_area q"
  by (auto simp: used_area_def)

lemma length_used_elem [simp]: "length (used_elem h n) = 8"
  by (simp add: used_elem_def)

lemma put_used_ok:
  assumes "areas_ok r q" and ui: "used_idx r q = Some ui"
  shows "\<exists>r'. put_used r q h n = Some r' \<and> touches r r' (used_area q) \<and> used_idx r' q = Some (ui + 1) \<and>
    ram_get r' (v_used q + 4 + 8 * (unat ui mod q_num q)) 8 = Some (used_elem h n) \<and>
    (\<forall>k < q_num q. k \<noteq> unat ui mod q_num q \<longrightarrow> ram_get r' (v_used q + 4 + 8 * k) 8 = ram_get r (v_used q + 4 + 8 * k) 8)"
proof -
  let ?k = "unat ui mod q_num q"
  let ?a = "v_used q + 4 + 8 * ?k" and ?b = "v_used q + 2"
  note k = slot_less [OF assms(1), of ui]
  have in_ram: "v_used q + 4 + 8 * q_num q \<le> ram_bytes r" using assms(1) by (simp add: areas_ok_def)
  obtain r1 where r1: "ram_put r ?a (used_elem h n) = Some r1"
    using guest.put_defined [of ?a "used_elem h n" r] in_ram k by auto
  have b1: "ram_bytes r1 = ram_bytes r" by (rule guest.put_size [OF r1])
  have u1: "used_idx r1 q = Some ui"
    using ui guest.get_put_other [OF r1, of ?b 2] by (simp add: used_idx_def ram_u16_def)
  obtain r2 where r2: "ram_put r1 ?b (le_bytes 2 (ui + 1)) = Some r2"
    using guest.put_defined [of ?b "le_bytes 2 (ui + 1)" r1] in_ram k b1 by auto
  have put: "put_used r q h n = Some r2"
    by (simp add: put_used_def ui slot_Some [OF assms(1)] r1 u1 r2 del: add_2_eq_Suc')
  have "touches r r1 (used_area q)"
    using touches_mono [OF touches_put [OF r1]] used_slot_area [OF k] by simp
  moreover have "touches r1 r2 (used_area q)"
    by (rule touches_mono [OF touches_put [OF r2]]) (auto simp: used_area_def)
  ultimately have t: "touches r r2 (used_area q)" by (rule touches_trans)
  have u2: "used_idx r2 q = Some (ui + 1)"
    using guest.get_put_scalar [OF r2] by (simp add: used_idx_def ram_u16_def)
  have e: "ram_get r2 ?a 8 = Some (used_elem h n)"
    using guest.get_put_same [OF r1] guest.get_put_other [OF r2, of ?a 8] by simp
  have o: "ram_get r2 (v_used q + 4 + 8 * j) 8 = ram_get r (v_used q + 4 + 8 * j) 8" if "j \<noteq> ?k" for j
  proof -
    have "v_used q + 4 + 8 * j + 8 \<le> ?a \<or> ?a + 8 \<le> v_used q + 4 + 8 * j" using that by linarith
    then show ?thesis using guest.get_put_other [OF r1, of "v_used q + 4 + 8 * j" 8] guest.get_put_other [OF r2, of "v_used q + 4 + 8 * j" 8] by simp
  qed
  show ?thesis using put t u2 e o by blast
qed

section \<open>The service loop\<close>

text \<open>
  Both directions have the same loop: while the guest has made buffers available, serve the next one,
  and stop early if that fails.  The locale states what a service must guarantee for the loop to
  return; the loop then amounts to a number of services.
\<close>

type_synonym service = "u16 \<Rightarrow> guest_ram \<Rightarrow> log \<Rightarrow> (bool \<times> guest_ram \<times> log) option"

fun serve_n :: "service \<Rightarrow> nat \<Rightarrow> u16 \<Rightarrow> guest_ram \<Rightarrow> log \<Rightarrow> (guest_ram \<times> log) option" where
  "serve_n f 0 pos r tr = Some (r, tr)"
| "serve_n f (Suc n) pos r tr =
     (case f pos r tr of Some (True, r1, tr1) \<Rightarrow> serve_n f n (pos + 1) r1 tr1 | _ \<Rightarrow> None)"

lemma unat_diff_Suc:
  fixes idx pos :: u16
  assumes "pos \<noteq> idx"
  shows "unat (idx - pos) = Suc (unat (idx - (pos + 1)))"
proof -
  have "idx - pos \<noteq> 0" using assms by simp
  then have "unat (idx - pos - 1) = unat (idx - pos) - 1" "0 < unat (idx - pos)"
    by (rule unat_minus_one) (use assms in \<open>simp add: unat_gt_0\<close>)
  then show ?thesis unfolding diff_diff_eq by linarith
qed

locale ring_service =
  fixes drain :: "bool \<Rightarrow> u16 \<Rightarrow> guest_ram \<Rightarrow> log \<Rightarrow> (bool \<times> u16 \<times> guest_ram \<times> log) option"
    and serve :: service
    and inv :: "guest_ram \<Rightarrow> bool"
    and idx :: u16
  assumes drain_end: "inv r \<Longrightarrow> drain did idx r tr = Some (did, idx, r, tr)"
    and drain_go: "inv r \<Longrightarrow> pos \<noteq> idx \<Longrightarrow> serve pos r tr = Some (True, r1, tr1) \<Longrightarrow>
      drain did pos r tr = drain True (pos + 1) r1 tr1"
    and drain_stop: "inv r \<Longrightarrow> pos \<noteq> idx \<Longrightarrow> serve pos r tr = Some (False, r1, tr1) \<Longrightarrow>
      drain did pos r tr = Some (did, pos, r1, tr1)"
    and serve_ok: "inv r \<Longrightarrow> \<exists>go r1 tr1. serve pos r tr = Some (go, r1, tr1) \<and> inv r1"
begin

theorem drain_serves:
  assumes "inv r"
  shows "\<exists>k r1 tr1 r2 tr2. k \<le> unat (idx - pos) \<and> serve_n serve k pos r tr = Some (r1, tr1) \<and>
    drain did pos r tr = Some (did \<or> 0 < k, pos + of_nat k, r2, tr2) \<and> inv r2 \<and>
    (if k = unat (idx - pos) then r2 = r1 \<and> tr2 = tr1 else serve (pos + of_nat k) r1 tr1 = Some (False, r2, tr2))"
  using assms
proof (induction "unat (idx - pos)" arbitrary: pos r tr did)
  case 0
  then have "pos = idx" by (metis eq_iff_diff_eq_0 unat_eq_zero)
  with 0 show ?case by (auto simp: drain_end intro!: exI [of _ 0])
next
  case (Suc n)
  then have ne: "pos \<noteq> idx" by auto
  from serve_ok [OF Suc.prems] obtain go r1 tr1 where s: "serve pos r tr = Some (go, r1, tr1)" and i: "inv r1" by blast
  show ?case
  proof (cases go)
    case False
    then have "drain did pos r tr = Some (did, pos, r1, tr1)" using drain_stop [OF Suc.prems ne] s by simp
    with False s i Suc.hyps(2) show ?thesis by (intro exI [of _ 0]) auto
  next
    case True
    have n: "n = unat (idx - (pos + 1))" using unat_diff_Suc [OF ne] Suc.hyps(2) by simp
    from Suc.hyps(1) [OF n i, of tr1 True] obtain k r1' tr1' r2 tr2 where
      k: "k \<le> unat (idx - (pos + 1))" "serve_n serve k (pos + 1) r1 tr1 = Some (r1', tr1')"
        "drain True (pos + 1) r1 tr1 = Some (True, pos + 1 + of_nat k, r2, tr2)" "inv r2"
        "if k = unat (idx - (pos + 1)) then r2 = r1' \<and> tr2 = tr1' else serve (pos + 1 + of_nat k) r1' tr1' = Some (False, r2, tr2)"
      by auto
    have "drain did pos r tr = drain True (pos + 1) r1 tr1" using drain_go [OF Suc.prems ne] s True by simp
    with k s True n Suc.hyps(2) show ?thesis
      by (intro exI [of _ "Suc k"] exI [of _ r1'] exI [of _ tr1'] exI [of _ r2] exI [of _ tr2])
        (simp add: add.assoc split: if_splits)
  qed
qed

end

section \<open>What the two rings hold\<close>

text \<open>The heads that the guest has put into the available ring from position \<open>pos\<close> on.\<close>

definition available :: "guest_ram \<Rightarrow> vring \<Rightarrow> u16 \<Rightarrow> u16 list \<Rightarrow> bool" where
  "available r q pos hs \<longleftrightarrow> (\<forall>k < length hs. avail_ring r q (unat (pos + of_nat k) mod q_num q) = Some (hs ! k))"

text \<open>The elements that the used ring holds from position \<open>ui\<close> on.\<close>

definition used_slot :: "vring \<Rightarrow> u16 \<Rightarrow> nat" where
  "used_slot q ui = unat ui mod q_num q"

definition published :: "guest_ram \<Rightarrow> vring \<Rightarrow> u16 \<Rightarrow> u8 list list \<Rightarrow> bool" where
  "published r q ui es \<longleftrightarrow> (\<forall>k < length es. ram_get r (v_used q + 4 + 8 * used_slot q (ui + of_nat k)) 8 = Some (es ! k))"

text \<open>The slots that \<open>n\<close> elements from \<open>ui\<close> on do not take.\<close>

definition others_kept :: "guest_ram \<Rightarrow> guest_ram \<Rightarrow> vring \<Rightarrow> u16 \<Rightarrow> nat \<Rightarrow> bool" where
  "others_kept r r' q ui n \<longleftrightarrow> (\<forall>j < q_num q. (\<forall>k < n. j \<noteq> used_slot q (ui + of_nat k)) \<longrightarrow>
     ram_get r' (v_used q + 4 + 8 * j) 8 = ram_get r (v_used q + 4 + 8 * j) 8)"

lemma available_Nil [simp]: "available r q pos []"
  by (simp add: available_def)

lemma all_less_Suc_shift: "(\<forall>k < Suc n. P k) \<longleftrightarrow> P 0 \<and> (\<forall>k < n. P (Suc k))"
  by (simp add: All_less_Suc2)

lemma available_Cons:
  "available r q pos (h # hs) \<longleftrightarrow> avail_ring r q (unat pos mod q_num q) = Some h \<and> available r q (pos + 1) hs"
  by (simp add: available_def all_less_Suc_shift add.assoc)

lemma published_Cons:
  "published r q ui (e # es) \<longleftrightarrow> ram_get r (v_used q + 4 + 8 * used_slot q ui) 8 = Some e \<and> published r q (ui + 1) es"
  by (simp add: published_def all_less_Suc_shift add.assoc)

lemma others_kept_Suc:
  assumes "others_kept r r1 q ui 1" and "others_kept r1 r' q (ui + 1) n"
  shows "others_kept r r' q ui (Suc n)"
  using assms by (auto simp: others_kept_def all_less_Suc_shift add.assoc)

text \<open>With a power of two as ring size, \<open>n\<close> consecutive positions take \<open>n\<close> different slots, also across the wrap.\<close>

lemma used_slot_distinct:
  assumes "q_num q dvd 65536" and "0 < j" and "j < q_num q"
  shows "used_slot q (ui + of_nat j) \<noteq> used_slot q ui"
proof
  assume eq: "used_slot q (ui + of_nat j) = used_slot q ui"
  have "q_num q \<le> 65536" using assms(1) by (rule dvd_imp_le) simp
  with assms(3) have j: "unat (of_nat j :: u16) = j" by (simp add: unsigned_of_nat take_bit_nat_eq_self)
  have "unat (ui + of_nat j) = (unat ui + j) mod 65536" by (simp add: unat_word_ariths j)
  then have "used_slot q (ui + of_nat j) = (unat ui + j) mod q_num q" by (simp add: used_slot_def mod_mod_cancel [OF assms(1)])
  with eq have "(unat ui + j) mod q_num q = unat ui mod q_num q" by (simp add: used_slot_def)
  then have "q_num q dvd j" by (metis add_diff_cancel_left' le_add1 mod_eq_dvd_iff_nat)
  with assms(2,3) show False by (simp add: nat_dvd_not_less)
qed

lemma published_first:
  assumes "ram_get r1 (v_used q + 4 + 8 * used_slot q ui) 8 = Some e" and "others_kept r1 r' q (ui + 1) n"
    and "published r' q (ui + 1) es" and "q_num q dvd 65536" and "Suc n \<le> q_num q"
  shows "published r' q ui (e # es)"
proof -
  have "used_slot q ui \<noteq> used_slot q (ui + 1 + of_nat k)" if "k < n" for k
    using used_slot_distinct [OF assms(4), of "Suc k" ui] that assms(5) by (simp add: add.assoc)
  moreover have "used_slot q ui < q_num q" using assms(5) by (simp add: used_slot_def)
  ultimately have "ram_get r' (v_used q + 4 + 8 * used_slot q ui) 8 = Some e"
    using assms(1,2) by (simp add: others_kept_def)
  with assms(3) show ?thesis by (simp add: published_Cons)
qed

lemma put_used_publishes:
  assumes "areas_ok r q" and "used_idx r q = Some ui"
  shows "\<exists>r'. put_used r q h n = Some r' \<and> touches r r' (used_area q) \<and> used_idx r' q = Some (ui + 1) \<and>
    ram_get r' (v_used q + 4 + 8 * used_slot q ui) 8 = Some (used_elem h n) \<and> others_kept r r' q ui 1"
  using put_used_ok [OF assms, of h n] unfolding others_kept_def used_slot_def by fastforce

section \<open>Transmit is exact\<close>

lemma tx_fragment_ok: "buffer_ok r q d \<Longrightarrow> \<exists>p. tx_fragment r d pkt = Some p"
  by (auto simp: buffer_ok_def tx_fragment_def ram_get_def ram_ok_def split: option.splits)

lemma tx_gather_ok:
  assumes "queue_ok r q"
  shows "\<exists>p. tx_gather n r q cur pkt = Some p"
proof (induction n arbitrary: cur pkt)
  case (Suc n)
  have a: "areas_ok r q" using assms by (simp add: queue_ok_def)
  from read_desc_ok [OF assms slot_less [OF a, of cur]] obtain d where
    d: "read_desc r q (unat cur mod q_num q) = Some d" "buffer_ok r q d" by blast
  from tx_fragment_ok [OF d(2)] obtain p where "tx_fragment r d pkt = Some p" by blast
  then show ?case using Suc.IH by (auto simp: slot_Some [OF a] d(1))
qed simp

lemma tx_fragment_touches:
  assumes "buffer_ok r q d" and t: "touches r r' (used_area q)"
  shows "tx_fragment r' d pkt = tx_fragment r d pkt"
proof (cases "gpa_to_hva r (d_addr d)")
  case (Some a)
  then have "{a..<a + unat (d_len d)} \<inter> used_area q = {}"
    using assms(1) by (auto simp: buffer_ok_def apart_def used_area_def)
  from touches_get [OF t this] show ?thesis by (simp add: tx_fragment_def gpa_to_hva_touches [OF t] Some)
qed (simp add: tx_fragment_def gpa_to_hva_touches [OF t])

lemma tx_gather_touches:
  assumes "queue_ok r q" and t: "touches r r' (used_area q)"
  shows "tx_gather n r' q cur pkt = tx_gather n r q cur pkt"
proof (induction n arbitrary: cur pkt)
  case (Suc n)
  have a: "areas_ok r q" using assms by (simp add: queue_ok_def)
  have dis: "desc_area q \<inter> used_area q = {}" using area_disjoint(1) [OF assms(1)] by blast
  note i = slot_less [OF a, of cur]
  from read_desc_ok [OF assms(1) i] obtain d where
    d: "read_desc r q (unat cur mod q_num q) = Some d" "buffer_ok r q d" by blast
  then show ?case
    by (simp add: slot_Some [OF a] read_desc_touches [OF t dis i] tx_fragment_touches [OF d(2) t] Suc.IH cong: if_cong)
qed simp

definition tx_serve :: "int \<Rightarrow> vring \<Rightarrow> service" where
  "tx_serve tap q = (\<lambda>pos r tr. map_option (\<lambda>(r1, tr1). (True, r1, tr1)) (tx_one tap q pos r tr))"

lemma tx_one_ok:
  assumes "queue_ok r q" and "used_idx r q = Some ui"
  shows "\<exists>r1 h p. tx_one tap q pos r tr = Some (r1, tr @ map (Tap_write tap) (tap_frame p)) \<and>
    avail_ring r q (unat pos mod q_num q) = Some h \<and> tx_gather MAX_CHAIN r q h [] = Some p \<and>
    touches r r1 (used_area q) \<and> used_idx r1 q = Some (ui + 1) \<and>
    ram_get r1 (v_used q + 4 + 8 * used_slot q ui) 8 = Some (used_elem h 0) \<and> others_kept r r1 q ui 1"
proof -
  have a: "areas_ok r q" using assms by (simp add: queue_ok_def)
  from avail_ok(2) [OF a slot_less [OF a, of pos]] obtain h where h: "avail_ring r q (unat pos mod q_num q) = Some h" by blast
  from tx_gather_ok [OF assms(1)] obtain p where p: "tx_gather MAX_CHAIN r q h [] = Some p" by blast
  from put_used_publishes [OF a assms(2), of h 0] obtain r1 where
    "put_used r q h 0 = Some r1 \<and> touches r r1 (used_area q) \<and> used_idx r1 q = Some (ui + 1) \<and>
     ram_get r1 (v_used q + 4 + 8 * used_slot q ui) 8 = Some (used_elem h 0) \<and> others_kept r r1 q ui 1" by blast
  then show ?thesis using h p by (simp add: tx_one_def slot_Some [OF a])
qed

lemma queue_ok_used:
  assumes "queue_ok r q" and "touches r r' (used_area q)"
  shows "queue_ok r' q" and "avail_idx r' q = avail_idx r q" and "available r' q pos hs = available r q pos hs"
proof -
  have t: "touches r r' (used_area q \<union> buffers r q)" using assms(2) by (rule touches_mono) simp
  note av = avail_touches [OF t area_disjoint(2) [OF assms(1)]]
  have "0 < q_num q" using assms(1) by (simp add: queue_ok_def areas_ok_def)
  then show "queue_ok r' q" "avail_idx r' q = avail_idx r q" "available r' q pos hs = available r q pos hs"
    using queue_ok_touches(1) [OF assms(1) t] av by (simp_all add: available_def)
qed

interpretation tx: ring_service "tx_drain tap q" "tx_serve tap q" "\<lambda>r. queue_ok r q \<and> avail_idx r q = Some idx" idx for tap q idx
proof
  fix r tr did pos r1 tr1
  assume inv: "queue_ok r q \<and> avail_idx r q = Some idx"
  show "tx_drain tap q did idx r tr = Some (did, idx, r, tr)" using inv by (subst tx_drain.simps) simp
  show "tx_drain tap q did pos r tr = tx_drain tap q True (pos + 1) r1 tr1"
    if "pos \<noteq> idx" "tx_serve tap q pos r tr = Some (True, r1, tr1)"
    using inv that by (subst tx_drain.simps) (auto simp: tx_serve_def)
  show "tx_drain tap q did pos r tr = Some (did, pos, r1, tr1)"
    if "pos \<noteq> idx" "tx_serve tap q pos r tr = Some (False, r1, tr1)"
    using that by (auto simp: tx_serve_def)
  have "areas_ok r q" using inv by (simp add: queue_ok_def)
  with avail_ok(3) obtain ui where "used_idx r q = Some ui" by blast
  from tx_one_ok [OF conjunct1 [OF inv] this] obtain r1 tr1 where
    one: "tx_one tap q pos r tr = Some (r1, tr1)" and t: "touches r r1 (used_area q)" by blast
  note ok = queue_ok_used(1,2) [OF conjunct1 [OF inv] t]
  from one ok inv show "\<exists>go r1 tr1. tx_serve tap q pos r tr = Some (go, r1, tr1) \<and> queue_ok r1 q \<and> avail_idx r1 q = Some idx"
    by (auto simp: tx_serve_def)
qed

lemma tx_serve_n_ok:
  assumes "queue_ok r q" and "used_idx r q = Some ui"
  shows "\<exists>r' hs ps. length hs = n \<and> available r q pos hs \<and>
    list_all2 (\<lambda>h p. tx_gather MAX_CHAIN r q h [] = Some p) hs ps \<and>
    serve_n (tx_serve tap q) n pos r tr = Some (r', tr @ map (Tap_write tap) (concat (map tap_frame ps))) \<and>
    touches r r' (used_area q) \<and> used_idx r' q = Some (ui + of_nat n) \<and> others_kept r r' q ui n \<and>
    (q_num q dvd 65536 \<and> n \<le> q_num q \<longrightarrow> published r' q ui (map (\<lambda>h. used_elem h 0) hs))"
  using assms
proof (induction n arbitrary: pos r ui tr)
  case 0
  then show ?case by (auto simp: published_def others_kept_def)
next
  case (Suc n)
  from tx_one_ok [OF Suc.prems] obtain r1 h p where
    one: "tx_one tap q pos r tr = Some (r1, tr @ map (Tap_write tap) (tap_frame p))"
    and h: "avail_ring r q (unat pos mod q_num q) = Some h" and p: "tx_gather MAX_CHAIN r q h [] = Some p"
    and t: "touches r r1 (used_area q)" and u: "used_idx r1 q = Some (ui + 1)"
    and e: "ram_get r1 (v_used q + 4 + 8 * used_slot q ui) 8 = Some (used_elem h 0)" and o: "others_kept r r1 q ui 1"
    by blast
  note ok = queue_ok_used [OF Suc.prems(1) t]
  from Suc.IH [OF ok(1) u, where pos = "pos + 1" and tr = "tr @ map (Tap_write tap) (tap_frame p)"]
  obtain r' hs ps where hs: "length hs = n" "available r1 q (pos + 1) hs"
    and ps: "list_all2 (\<lambda>h p. tx_gather MAX_CHAIN r1 q h [] = Some p) hs ps"
    and s: "serve_n (tx_serve tap q) n (pos + 1) r1 (tr @ map (Tap_write tap) (tap_frame p)) =
      Some (r', (tr @ map (Tap_write tap) (tap_frame p)) @ map (Tap_write tap) (concat (map tap_frame ps)))"
    and t': "touches r1 r' (used_area q)" and u': "used_idx r' q = Some (ui + 1 + of_nat n)"
    and o': "others_kept r1 r' q (ui + 1) n"
    and pub: "q_num q dvd 65536 \<and> n \<le> q_num q \<longrightarrow> published r' q (ui + 1) (map (\<lambda>h. used_elem h 0) hs)"
    by blast
  have "available r q pos (h # hs)" using h hs ok(3) by (simp add: available_Cons)
  moreover have "list_all2 (\<lambda>h p. tx_gather MAX_CHAIN r q h [] = Some p) (h # hs) (p # ps)"
    using p ps tx_gather_touches [OF Suc.prems(1) t] by simp
  moreover have "serve_n (tx_serve tap q) (Suc n) pos r tr = Some (r', tr @ map (Tap_write tap) (concat (map tap_frame (p # ps))))"
    using s one by (simp add: tx_serve_def)
  moreover have "used_idx r' q = Some (ui + of_nat (Suc n))" using u' by (simp add: add.assoc)
  moreover have "published r' q ui (map (\<lambda>h. used_elem h 0) (h # hs))" if "q_num q dvd 65536 \<and> Suc n \<le> q_num q"
    using published_first [OF e o'] pub that by simp
  ultimately show ?case
    using hs(1) touches_trans [OF t t'] others_kept_Suc [OF o o'] by (intro exI [of _ r'] exI [of _ "h # hs"] exI [of _ "p # ps"]) simp
qed

lemma tx_drain_exact:
  assumes "queue_ok r q" and "avail_idx r q = Some idx" and "used_idx r q = Some ui"
  shows "\<exists>r' hs ps. length hs = unat (idx - pos) \<and> available r q pos hs \<and>
    list_all2 (\<lambda>h p. tx_gather MAX_CHAIN r q h [] = Some p) hs ps \<and>
    tx_drain tap q False pos r tr = Some (pos \<noteq> idx, idx, r', tr @ map (Tap_write tap) (concat (map tap_frame ps))) \<and>
    touches r r' (used_area q) \<and> used_idx r' q = Some (ui + (idx - pos)) \<and>
    (q_num q dvd 65536 \<and> length hs \<le> q_num q \<longrightarrow> published r' q ui (map (\<lambda>h. used_elem h 0) hs))"
proof -
  let ?n = "unat (idx - pos)"
  from tx.drain_serves [where tap = tap and q = q and idx = idx and pos = pos and r = r and tr = tr and did = False] assms
  obtain k r1 tr1 r2 tr2 where k: "k \<le> ?n" "serve_n (tx_serve tap q) k pos r tr = Some (r1, tr1)"
    "tx_drain tap q False pos r tr = Some (0 < k, pos + of_nat k, r2, tr2)"
    "if k = ?n then r2 = r1 \<and> tr2 = tr1 else tx_serve tap q (pos + of_nat k) r1 tr1 = Some (False, r2, tr2)" by auto
  have "tx_serve tap q x y z \<noteq> Some (False, r2, tr2)" for x y z by (auto simp: tx_serve_def)
  with k have k: "k = ?n" "serve_n (tx_serve tap q) ?n pos r tr = Some (r1, tr1)"
    "tx_drain tap q False pos r tr = Some (0 < ?n, pos + of_nat ?n, r1, tr1)"
    by (auto split: if_splits)
  have n: "pos + of_nat ?n = idx" "(0 < ?n) = (pos \<noteq> idx)" by (auto simp: unat_gt_0)
  from tx_serve_n_ok [OF assms(1,3), of ?n pos tap tr] k n show ?thesis by (auto simp: algebra_simps)
qed


section \<open>Receive\<close>

lemma buffer_in: "i < q_num q \<Longrightarrow> read_desc r q i = Some d \<Longrightarrow> gpa_to_hva r (d_addr d) = Some a \<Longrightarrow>
    {a..<a + unat (d_len d)} \<subseteq> buffers r q"
  by (fastforce simp: buffers_def)

lemma put_in_buffer:
  assumes "touches r r1 A" and "gpa_to_hva r (d_addr d) = Some a" and "buffer_ok r q d"
    and "b + length bs \<le> a + unat (d_len d)" and "a \<le> b"
  shows "\<exists>r2. ram_put r1 b bs = Some r2 \<and> touches r1 r2 {b..<b + length bs}"
proof -
  have "b + length bs \<le> ram_bytes r1" using assms by (simp add: touches_def buffer_ok_def)
  from guest.put_defined [OF this] touches_put show ?thesis by blast
qed

lemma rx_fill_single:
  assumes "buffer_ok r q d" and "gpa_to_hva r (d_addr d) = Some a" and "NET_HDR_SIZE + length pkt \<le> unat (d_len d)"
  shows "\<exists>r2. rx_fill r q di d a pkt = Some (NET_HDR_SIZE + length pkt, r2) \<and>
    touches r r2 {a..<a + (NET_HDR_SIZE + length pkt)} \<and>
    ram_get r2 a (NET_HDR_SIZE + length pkt) = Some (replicate NET_HDR_SIZE 0 @ pkt)"
proof -
  from put_in_buffer [OF touches_refl [of r "{}"] assms(2,1), of a "replicate NET_HDR_SIZE 0"] assms(3)
  obtain r1 where r1: "ram_put r a (replicate NET_HDR_SIZE 0) = Some r1" "touches r r1 {a..<a + NET_HDR_SIZE}" by auto
  from put_in_buffer [OF r1(2) assms(2,1), of "a + NET_HDR_SIZE" pkt] assms(3)
  obtain r2 where r2: "ram_put r1 (a + NET_HDR_SIZE) pkt = Some r2" "touches r1 r2 {a + NET_HDR_SIZE..<a + NET_HDR_SIZE + length pkt}" by auto
  have "touches r r2 {a..<a + (NET_HDR_SIZE + length pkt)}"
    by (rule touches_trans [OF touches_mono [OF r1(2)] touches_mono [OF r2(2)]]) auto
  moreover have "rx_fill r q di d a pkt = Some (NET_HDR_SIZE + length pkt, r2)"
    using assms(3) r1 r2 by (simp add: rx_fill_def ram_memset_as_put)
  moreover have "ram_get r2 a (NET_HDR_SIZE + length pkt) = Some (replicate NET_HDR_SIZE 0 @ pkt)"
  proof -
    have g: "ram_get r2 a NET_HDR_SIZE = Some (replicate NET_HDR_SIZE 0)" "ram_get r2 (a + NET_HDR_SIZE) (length pkt) = Some pkt"
      using guest.get_put_put [OF r1(1) r2(1)] by simp_all
    then show ?thesis by (simp add: ram_get_Some ram_ok_def ram_peek_def map_upt_append add.assoc)
  qed
  ultimately show ?thesis by blast
qed

lemma rx_fill_ok:
  assumes q: "queue_ok r q" and di: "di < q_num q" "read_desc r q di = Some d" and a: "gpa_to_hva r (d_addr d) = Some a"
  shows "\<exists>n r1. rx_fill r q di d a pkt = Some (n, r1) \<and> touches r r1 (buffers r q)"
proof -
  from read_desc_ok [OF q di(1)] di(2) have b: "buffer_ok r q d" by auto
  note in_buf = buffer_in [OF di a]
  show ?thesis
  proof (cases "NET_HDR_SIZE + length pkt \<le> unat (d_len d)")
    case True
    from rx_fill_single [OF b a True, of di] in_buf True show ?thesis
      by (fastforce intro: touches_mono)
  next
    case False
    let ?m = "min NET_HDR_SIZE (unat (d_len d))"
    from put_in_buffer [OF touches_refl [of r "{}"] a b, of a "replicate ?m 0"]
    obtain r1 where r1: "ram_put r a (replicate ?m 0) = Some r1" "touches r r1 {a..<a + ?m}" by auto
    have "{a..<a + ?m} \<subseteq> {a..<a + unat (d_len d)}" by auto
    then have t1: "touches r r1 (buffers r q)" using r1(2) in_buf touches_mono by blast
    have areas: "areas_ok r q" using q by (simp add: queue_ok_def)
    have dis: "desc_area q \<inter> buffers r q = {}" using area_disjoint(1) [OF q] by blast
    note rd = read_desc_touches [OF t1 dis]
    let ?i = "unat (d_next d) mod q_num q"
    note i = slot_less [OF areas, of "d_next d"]
    from read_desc_ok [OF q i] obtain d2 where d2: "read_desc r q ?i = Some d2" "buffer_ok r q d2" by blast
    show ?thesis
    proof (cases "gpa_to_hva r (d_addr d2)")
      case None
      with False r1 t1 di d2 show ?thesis
        by (auto simp: rx_fill_def ram_memset_as_put rd di slot_Some [OF areas] i gpa_to_hva_touches [OF t1])
    next
      case (Some c)
      show ?thesis
      proof (cases "length pkt \<le> unat (d_len d2)")
        case True
        from put_in_buffer [OF t1 Some d2(2), of c pkt] True obtain r2 where
          r2: "ram_put r1 c pkt = Some r2" "touches r1 r2 {c..<c + length pkt}" by auto
        have "{c..<c + length pkt} \<subseteq> {c..<c + unat (d_len d2)}" using True by auto
        then have "touches r1 r2 (buffers r q)" using r2(2) buffer_in [OF i d2(1) Some] touches_mono by blast
        with t1 have "touches r r2 (buffers r q)" by (rule touches_trans)
        with False True Some r1 r2 t1 di d2 show ?thesis
          by (auto simp: rx_fill_def ram_memset_as_put rd di slot_Some [OF areas] i gpa_to_hva_touches [OF t1])
      next
        case False
        with \<open>\<not> NET_HDR_SIZE + length pkt \<le> unat (d_len d)\<close> Some r1 t1 di d2 show ?thesis
          by (auto simp: rx_fill_def ram_memset_as_put rd di slot_Some [OF areas] i gpa_to_hva_touches [OF t1])
      qed
    qed
  qed
qed

lemma used_idx_touches:
  assumes "touches r r' A" and "used_area q \<inter> A = {}"
  shows "used_idx r' q = used_idx r q"
proof -
  have "{v_used q + 2..<v_used q + 2 + 2} \<subseteq> used_area q" by (auto simp: used_area_def)
  with assms(2) have "{v_used q + 2..<v_used q + 2 + 2} \<inter> A = {}" by blast
  from touches_get [OF assms(1) this] show ?thesis by (simp add: used_idx_def ram_u16_def)
qed

lemma rx_one_ok:
  assumes q: "queue_ok r q" and u: "used_idx r q = Some ui"
  shows "\<exists>ok r'. rx_one q pos r pkt = Some (ok, r') \<and> touches r r' (used_area q \<union> buffers r q) \<and>
    used_idx r' q = Some (if ok then ui + 1 else ui)"
proof -
  have a: "areas_ok r q" using q by (simp add: queue_ok_def)
  from avail_ok(2) [OF a slot_less [OF a, of pos]] obtain h where h: "avail_ring r q (unat pos mod q_num q) = Some h" by blast
  let ?di = "unat h mod q_num q"
  note di = slot_less [OF a, of h]
  from read_desc_ok [OF q di] obtain d where d: "read_desc r q ?di = Some d" by blast
  show ?thesis
  proof (cases "gpa_to_hva r (d_addr d) = None \<or> d_flags d AND VRING_DESC_F_WRITE = 0")
    case True
    then show ?thesis using u by (auto simp: rx_one_def slot_Some [OF a] h d split: option.splits)
  next
    case False
    then obtain b where b: "gpa_to_hva r (d_addr d) = Some b" and w: "d_flags d AND VRING_DESC_F_WRITE \<noteq> 0" by auto
    from rx_fill_ok [OF q di d b] obtain n r1 where f: "rx_fill r q ?di d b pkt = Some (n, r1)" and t: "touches r r1 (buffers r q)" by blast
    have u1: "used_idx r1 q = Some ui" using used_idx_touches [OF t area_disjoint(3) [OF q]] u by simp
    from put_used_ok [OF areas_ok_touches [OF a t] u1, of h n] obtain r2 where
      p: "put_used r1 q h n = Some r2" "touches r1 r2 (used_area q)" "used_idx r2 q = Some (ui + 1)" by blast
    have "touches r r2 (used_area q \<union> buffers r q)"
      by (rule touches_trans [OF touches_mono [OF t] touches_mono [OF p(2)]]) auto
    then show ?thesis using w u1 p touches_mono [OF t, of "used_area q \<union> buffers r q"]
      by (auto simp: rx_one_def slot_Some [OF a] h d b f)
  qed
qed

definition rx_serve :: "os \<Rightarrow> int \<Rightarrow> vring \<Rightarrow> service" where
  "rx_serve w tap q = (\<lambda>pos r tr.
     if tap_read w tap tr = [] then Some (False, r, tr @ [Tap_read tap])
     else map_option (\<lambda>(ok, r1). (ok, r1, tr @ [Tap_read tap])) (rx_one q pos r (tap_read w tap tr)))"

lemma queue_ok_written:
  assumes "queue_ok r q" and t: "touches r r' (used_area q \<union> buffers r q)"
  shows "queue_ok r' q" "avail_idx r' q = avail_idx r q" "buffers r' q = buffers r q"
  using queue_ok_touches [OF assms] avail_touches(1) [OF t area_disjoint(2) [OF assms(1)]] by simp_all

lemma rx_serve_ok:
  assumes q: "queue_ok r q" and u: "used_idx r q = Some ui"
  shows "\<exists>ok r'. rx_serve w tap q pos r tr = Some (ok, r', tr @ [Tap_read tap]) \<and>
    touches r r' (used_area q \<union> buffers r q) \<and> used_idx r' q = Some (if ok then ui + 1 else ui)"
  using rx_one_ok [OF assms, of pos "tap_read w tap tr"] u by (cases "tap_read w tap tr = []") (auto simp: rx_serve_def)

interpretation rx: ring_service "rx_drain w tap q" "rx_serve w tap q" "\<lambda>r. queue_ok r q \<and> avail_idx r q = Some idx" idx for w tap q idx
proof
  fix r tr did pos r1 tr1
  assume inv: "queue_ok r q \<and> avail_idx r q = Some idx"
  show "rx_drain w tap q did idx r tr = Some (did, idx, r, tr)" using inv by (subst rx_drain.simps) simp
  show "rx_drain w tap q did pos r tr = rx_drain w tap q True (pos + 1) r1 tr1"
    if "pos \<noteq> idx" "rx_serve w tap q pos r tr = Some (True, r1, tr1)"
    using inv that by (subst rx_drain.simps) (auto simp: rx_serve_def Let_def split: if_splits)
  show "rx_drain w tap q did pos r tr = Some (did, pos, r1, tr1)"
    if "pos \<noteq> idx" "rx_serve w tap q pos r tr = Some (False, r1, tr1)"
    using inv that by (subst rx_drain.simps) (auto simp: rx_serve_def Let_def split: if_splits)
  have "areas_ok r q" using inv by (simp add: queue_ok_def)
  with avail_ok(3) obtain ui where "used_idx r q = Some ui" by blast
  from rx_serve_ok [OF conjunct1 [OF inv] this] obtain ok r1 where
    one: "rx_serve w tap q pos r tr = Some (ok, r1, tr @ [Tap_read tap])" and t: "touches r r1 (used_area q \<union> buffers r q)" by blast
  note keeps = queue_ok_written(1,2) [OF conjunct1 [OF inv] t]
  from one keeps inv show "\<exists>go r1 tr1. rx_serve w tap q pos r tr = Some (go, r1, tr1) \<and> queue_ok r1 q \<and> avail_idx r1 q = Some idx"
    by auto
qed

text \<open>
  Claim C14.  A packet from the TAP arrives whole.  When the next available receive buffer is writable and
  has room for the 12-byte header and the packet, the guest finds in it a zero header followed
  by the packet, and in the used ring the head of the chain with the total length; the used index
  has advanced by one, and nothing else in guest RAM has changed.
\<close>

theorem net_rx_delivers:
  assumes "queue_ok r q" and "used_idx r q = Some ui" and "avail_ring r q (unat pos mod q_num q) = Some h"
    and "read_desc r q (unat h mod q_num q) = Some d" and "gpa_to_hva r (d_addr d) = Some a"
    and "d_flags d AND VRING_DESC_F_WRITE \<noteq> 0" and "NET_HDR_SIZE + length pkt \<le> unat (d_len d)"
  shows "\<exists>r'. rx_one q pos r pkt = Some (True, r') \<and>
    ram_get r' a (NET_HDR_SIZE + length pkt) = Some (replicate NET_HDR_SIZE 0 @ pkt) \<and>
    published r' q ui [used_elem h (NET_HDR_SIZE + length pkt)] \<and> used_idx r' q = Some (ui + 1) \<and>
    touches r r' (used_area q \<union> {a..<a + (NET_HDR_SIZE + length pkt)})"
proof -
  let ?n = "NET_HDR_SIZE + length pkt" and ?di = "unat h mod q_num q"
  have areas: "areas_ok r q" using assms(1) by (simp add: queue_ok_def)
  note di = slot_less [OF areas, of h]
  from read_desc_ok [OF assms(1) di] assms(4) have b: "buffer_ok r q d" by auto
  from rx_fill_single [OF b assms(5,7)] obtain r1 where
    f: "rx_fill r q ?di d a pkt = Some (?n, r1)" and t: "touches r r1 {a..<a + ?n}"
    and g: "ram_get r1 a ?n = Some (replicate NET_HDR_SIZE 0 @ pkt)" by blast
  have "{a..<a + ?n} \<subseteq> {a..<a + unat (d_len d)}" using assms(7) by auto
  then have "{a..<a + ?n} \<subseteq> buffers r q" using buffer_in [OF di assms(4,5)] by blast
  then have dis: "used_area q \<inter> {a..<a + ?n} = {}" using area_disjoint(3) [OF assms(1)] by blast
  have u1: "used_idx r1 q = Some ui" using used_idx_touches [OF t dis] assms(2) by simp
  from put_used_publishes [OF areas_ok_touches [OF areas t] u1, of h ?n] obtain r2 where
    p: "put_used r1 q h ?n = Some r2" "touches r1 r2 (used_area q)" "used_idx r2 q = Some (ui + 1)"
      "ram_get r2 (v_used q + 4 + 8 * used_slot q ui) 8 = Some (used_elem h ?n)" by blast
  have "ram_get r2 a ?n = ram_get r1 a ?n" using touches_get [OF p(2)] dis by blast
  moreover have "touches r r2 (used_area q \<union> {a..<a + ?n})"
    by (rule touches_trans [OF touches_mono [OF t] touches_mono [OF p(2)]]) auto
  moreover have "rx_one q pos r pkt = Some (True, r2)"
    using assms f p by (simp add: rx_one_def slot_Some [OF areas] NET_HDR_SIZE_def)
  ultimately show ?thesis using g p by (auto simp: published_def)
qed

section \<open>A pass of the thread\<close>

lemma irq_level_tap [simp]: "irq_level irq l (map (Tap_write tap) ps) = l"
  by (induction ps) simp_all

lemma rx_serve_n_ok:
  assumes "queue_ok r q" and "used_idx r q = Some ui" and "serve_n (rx_serve w tap q) n pos r tr = Some (r', tr')"
  shows "touches r r' (used_area q \<union> buffers r q) \<and> used_idx r' q = Some (ui + of_nat n) \<and> irq_level irq l tr' = irq_level irq l tr"
  using assms
proof (induction n arbitrary: pos r ui tr)
  case (Suc n)
  from rx_serve_ok [OF Suc.prems(1,2)] obtain ok r1 where
    one: "rx_serve w tap q pos r tr = Some (ok, r1, tr @ [Tap_read tap])"
    and t: "touches r r1 (used_area q \<union> buffers r q)" and u: "used_idx r1 q = Some (if ok then ui + 1 else ui)" by blast
  from Suc.prems(3) one have ok: "ok" and s: "serve_n (rx_serve w tap q) n (pos + 1) r1 (tr @ [Tap_read tap]) = Some (r', tr')"
    by (auto split: bool.splits)
  note keeps = queue_ok_written [OF Suc.prems(1) t]
  from Suc.IH [OF keeps(1) _ s, of "ui + 1"] ok u keeps(3)
  have "touches r1 r' (used_area q \<union> buffers r q)" "used_idx r' q = Some (ui + 1 + of_nat n)" "irq_level irq l tr' = irq_level irq l tr"
    by simp_all
  with touches_trans [OF t] show ?case by (simp add: add.assoc)
qed simp

lemma rx_drain_ok:
  assumes q: "queue_ok r q" and u: "used_idx r q = Some ui"
  shows "\<exists>did pos' r' tr'. rx_drain w tap q False pos r tr = Some (did, pos', r', tr') \<and>
    touches r r' (used_area q \<union> buffers r q) \<and> used_idx r' q = Some (ui + (pos' - pos)) \<and>
    irq_level irq l tr' = irq_level irq l tr \<and> (pos' \<noteq> pos \<longrightarrow> did)"
proof -
  have "areas_ok r q" using q by (simp add: queue_ok_def)
  then obtain idx where idx: "avail_idx r q = Some idx" using avail_ok(1) by blast
  from rx.drain_serves [where w = w and tap = tap and q = q and idx = idx and pos = pos and r = r and tr = tr and did = False] q idx
  obtain k r1 tr1 r2 tr2 where s: "serve_n (rx_serve w tap q) k pos r tr = Some (r1, tr1)"
    and d: "rx_drain w tap q False pos r tr = Some (0 < k, pos + of_nat k, r2, tr2)"
    and e: "if k = unat (idx - pos) then r2 = r1 \<and> tr2 = tr1 else rx_serve w tap q (pos + of_nat k) r1 tr1 = Some (False, r2, tr2)" by auto
  from rx_serve_n_ok [OF q u s] have t1: "touches r r1 (used_area q \<union> buffers r q)" and u1: "used_idx r1 q = Some (ui + of_nat k)"
    and l1: "irq_level irq l tr1 = irq_level irq l tr" by auto
  note keeps = queue_ok_written [OF q t1]
  have "touches r1 r2 (used_area q \<union> buffers r q) \<and> used_idx r2 q = Some (ui + of_nat k) \<and> irq_level irq l tr2 = irq_level irq l tr1"
    using e u1 rx_serve_ok [OF keeps(1) u1, of w tap "pos + of_nat k" tr1] keeps(3) by (auto split: if_splits)
  moreover have "0 < k" if "of_nat k \<noteq> (0 :: u16)" using that by (cases k) auto
  ultimately show ?thesis using t1 l1 d by (auto intro: touches_trans)
qed

text \<open>Two well-formed queues, neither of which is written through the other.\<close>

definition queues_ok :: "guest_ram \<Rightarrow> vring \<Rightarrow> vring \<Rightarrow> bool" where
  "queues_ok r rxq txq \<longleftrightarrow> queue_ok r rxq \<and> queue_ok r txq \<and>
     used_area txq \<inter> (desc_area rxq \<union> used_area rxq) = {} \<and>
     (used_area rxq \<union> buffers r rxq) \<inter> (desc_area txq \<union> used_area txq \<union> avail_area txq) = {}"

text \<open>The thread's positions are those of the used rings.\<close>

definition net_thread_ok :: "vring \<Rightarrow> vring \<Rightarrow> net_thread \<Rightarrow> bool" where
  "net_thread_ok rxq txq s \<longleftrightarrow> queues_ok (nt_ram s) rxq txq \<and>
     used_idx (nt_ram s) txq = Some (tx_last_avail s) \<and> used_idx (nt_ram s) rxq = Some (rx_last_used s)"

lemma net_thread_start_ok:
  assumes "net_thread_start d r = Some (Some (rxq, txq, s))" and "queues_ok r rxq txq"
  shows "net_thread_ok rxq txq s"
  using assms by (auto simp: net_thread_start_def net_thread_ok_def bind_eq_Some_conv split: option.splits)

lemma net_pulse_level:
  "net_pulse did s tr = (s', tr') \<Longrightarrow> nt_ram s' = nt_ram s \<and> tx_last_avail s' = tx_last_avail s \<and> rx_last_used s' = rx_last_used s \<and>
     (did \<longrightarrow> bit (nt_irq_status s') 0 \<and> irq_level VIRTIO_NET_MMIO_IRQ l tr' = 1) \<and>
     (\<not> did \<longrightarrow> nt_irq_status s' = nt_irq_status s \<and> irq_level VIRTIO_NET_MMIO_IRQ l tr' = irq_level VIRTIO_NET_MMIO_IRQ l tr)"
  by (auto simp: net_pulse_def bit_or_iff split: if_splits)

lemma net_idle_level: "irq_level irq l (net_idle w tap wake tr) = irq_level irq l tr"
  by (simp add: net_idle_def Let_def)

lemma queues_ok_tx:
  assumes q: "queues_ok r rxq txq" and t: "touches r r' (used_area txq)"
  shows "queues_ok r' rxq txq" "used_idx r' rxq = used_idx r rxq" "avail_idx r' txq = avail_idx r txq" "buffers r' rxq = buffers r rxq"
proof -
  have "desc_area rxq \<inter> used_area txq = {}" using q by (auto simp: queues_ok_def)
  note rx = queue_ok_desc [OF _ t this]
  show b: "buffers r' rxq = buffers r rxq" using rx(2) q by (simp add: queues_ok_def)
  show "queues_ok r' rxq txq" using rx(1) b q queue_ok_used(1) [OF _ t] by (simp add: queues_ok_def)
  show "used_idx r' rxq = used_idx r rxq" by (rule used_idx_touches [OF t]) (use q in \<open>auto simp: queues_ok_def\<close>)
  show "avail_idx r' txq = avail_idx r txq" using queue_ok_used(2) [OF _ t] q by (simp add: queues_ok_def)
qed

lemma queues_ok_rx:
  assumes q: "queues_ok r rxq txq" and t: "touches r r' (used_area rxq \<union> buffers r rxq)"
  shows "queues_ok r' rxq txq" "used_idx r' txq = used_idx r txq" "avail_idx r' txq = avail_idx r txq"
proof -
  have "desc_area txq \<inter> (used_area rxq \<union> buffers r rxq) = {}" using q by (auto simp: queues_ok_def)
  note tx = queue_ok_desc [OF _ t this]
  show "queues_ok r' rxq txq" using tx(1) q queue_ok_written [OF _ t] by (simp add: queues_ok_def)
  show "used_idx r' txq = used_idx r txq" by (rule used_idx_touches [OF t]) (use q in \<open>auto simp: queues_ok_def\<close>)
  show "avail_idx r' txq = avail_idx r txq" by (rule avail_touches(1) [OF t]) (use q in \<open>auto simp: queues_ok_def\<close>)
qed

lemma tx_drain_ok:
  assumes "queue_ok r q" and "used_idx r q = Some pos" and "avail_idx r q = Some idx"
  shows "\<exists>r' tr'. tx_drain tap q False pos r tr = Some (pos \<noteq> idx, idx, r', tr') \<and> touches r r' (used_area q) \<and>
    used_idx r' q = Some idx \<and> irq_level irq l tr' = irq_level irq l tr"
  using tx_drain_exact [OF assms(1,3,2), of pos tap tr] by auto

text \<open>
  Claim C15.  A pass of the data path always returns, and tells the guest.  With two well-formed
  queues one round of the thread's loop returns, whatever the TAP delivers.  It has served every transmit chain the guest
  had made available and keeps the positions of both directions equal to the used indices;
  it has written only used rings and receive buffers.  If it has given anything back to the guest, the
  interrupt status is set and the interrupt line is high.
\<close>

theorem net_pass_ok:
  assumes "net_thread_ok rxq txq s"
  shows "\<exists>s' tr'. net_pass w tap wake rxq txq s tr = Some (s', tr') \<and> net_thread_ok rxq txq s' \<and>
    avail_idx (nt_ram s') txq = Some (tx_last_avail s') \<and>
    touches (nt_ram s) (nt_ram s') (used_area txq \<union> used_area rxq \<union> buffers (nt_ram s) rxq) \<and>
    (tx_last_avail s' \<noteq> tx_last_avail s \<or> rx_last_used s' \<noteq> rx_last_used s \<longrightarrow>
      bit (nt_irq_status s') 0 \<and> irq_level VIRTIO_NET_MMIO_IRQ l tr' = 1)"
proof -
  let ?r = "nt_ram s" and ?lv = "irq_level VIRTIO_NET_MMIO_IRQ l"
  from assms have q: "queues_ok ?r rxq txq" and u: "used_idx ?r txq = Some (tx_last_avail s)" "used_idx ?r rxq = Some (rx_last_used s)"
    by (simp_all add: net_thread_ok_def)
  then have qs: "queue_ok ?r txq" "areas_ok ?r txq" by (simp_all add: queues_ok_def queue_ok_def)
  from avail_ok(1) [OF qs(2)] obtain idx where idx: "avail_idx ?r txq = Some idx" by blast
  from tx_drain_ok [OF qs(1) u(1) idx, of tap tr VIRTIO_NET_MMIO_IRQ l] obtain r1 tr1 where
    tx: "tx_drain tap txq False (tx_last_avail s) ?r tr = Some (tx_last_avail s \<noteq> idx, idx, r1, tr1)"
    and t1: "touches ?r r1 (used_area txq)" and u1: "used_idx r1 txq = Some idx" and l1: "?lv tr1 = ?lv tr" by blast
  note q1 = queues_ok_tx [OF q t1]
  obtain s1 tr2 where p1: "net_pulse (tx_last_avail s \<noteq> idx) (s\<lparr>nt_ram := r1, tx_last_avail := idx\<rparr>) tr1 = (s1, tr2)" by fastforce
  note e1 = net_pulse_level [OF p1, of l]
  then have s1: "nt_ram s1 = r1" "rx_last_used s1 = rx_last_used s" "tx_last_avail s1 = idx" by simp_all
  from q1(1) have qr: "queue_ok r1 rxq" by (simp add: queues_ok_def)
  from q1(2) u(2) have ur: "used_idx r1 rxq = Some (rx_last_used s)" by simp
  from rx_drain_ok [OF qr ur, of w tap "rx_last_used s" tr2 VIRTIO_NET_MMIO_IRQ l] obtain rx rp r2 tr3 where
    rx: "rx_drain w tap rxq False (rx_last_used s) r1 tr2 = Some (rx, rp, r2, tr3)"
    and t2: "touches r1 r2 (used_area rxq \<union> buffers r1 rxq)" and u2: "used_idx r2 rxq = Some rp"
    and l2: "?lv tr3 = ?lv tr2" and did: "rp \<noteq> rx_last_used s \<longrightarrow> rx" by auto
  note q2 = queues_ok_rx [OF q1(1) t2]
  obtain s2 tr4 where p2: "net_pulse rx (s1\<lparr>nt_ram := r2, rx_last_used := rp\<rparr>) tr3 = (s2, tr4)" by fastforce
  note e2 = net_pulse_level [OF p2, of l]
  then have s2: "nt_ram s2 = r2" "rx_last_used s2 = rp" "tx_last_avail s2 = idx" using s1(3) by simp_all
  let ?tr = "if tx_last_avail s = idx \<and> \<not> rx then net_idle w tap wake tr4 else tr4"
  have "net_pass w tap wake rxq txq s tr = Some (s2, ?tr)"
    using tx p1 s1 rx p2 by (simp add: net_pass_def)
  moreover have "net_thread_ok rxq txq s2" using q2 u1 u2 s2 by (simp add: net_thread_ok_def)
  moreover have "avail_idx (nt_ram s2) txq = Some (tx_last_avail s2)" using q2(3) q1(3) idx s2 by simp
  moreover have "touches ?r (nt_ram s2) (used_area txq \<union> used_area rxq \<union> buffers ?r rxq)"
    unfolding s2 by (rule touches_trans [OF touches_mono [OF t1] touches_mono [OF t2]]) (auto simp: q1(4))
  moreover have "bit (nt_irq_status s2) 0 \<and> ?lv ?tr = 1" if "idx \<noteq> tx_last_avail s \<or> rp \<noteq> rx_last_used s"
    using e1 e2 l1 l2 did that net_idle_level by (cases rx) auto
  ultimately show ?thesis using s2 by auto
qed

text \<open>
  Claim C36.  Guest addresses are checked at their start only.  \<open>gpa_to_hva\<close> looks at the first byte of a buffer:
  a transmit descriptor that starts inside guest RAM and ends outside makes the thread read past the
  mapping, and a queue that is marked ready with size 0 makes it divide by zero.
\<close>

theorem net_tx_unchecked:
  assumes "v_num q \<noteq> 0" and "avail_ring r q (unat pos mod q_num q) = Some h" and "read_desc r q (unat h mod q_num q) = Some d"
    and "unat (d_addr d) < ram_bytes r" and "ram_bytes r < unat (d_addr d) + unat (d_len d)" and "unat (d_len d) < PKT_BUF_SIZE"
  shows "tx_one tap q pos r tr = None \<and> tx_one tap (q\<lparr>v_num := 0\<rparr>) pos r tr = None"
proof -
  have "0 < d_len d" using assms(4,5) by (cases "d_len d = 0") (simp_all add: word_gt_0)
  then have "tx_fragment r d [] = None"
    using assms(4-6) by (simp add: tx_fragment_def gpa_to_hva_def ram_get_def ram_ok_def)
  then have "tx_gather (Suc n) r q h [] = None" for n
    using assms(1,3) by (simp add: slot_def q_num_def)
  from this [of 63] have "tx_gather MAX_CHAIN r q h [] = None" by (simp add: MAX_CHAIN_def)
  then show ?thesis using assms(1,2) by (simp add: tx_one_def slot_def q_num_def)
qed

section \<open>Concrete queues\<close>

definition demo_ring :: vring where
  "demo_ring = \<lparr>v_num = 4, v_desc = 0x1000, v_avail = 0x2000, v_used = 0x3000\<rparr>"

text \<open>One descriptor, writable, of \<open>n\<close> bytes at 0x4000; the guest has made it available.\<close>

definition demo_ring_ram :: "u8 \<Rightarrow> guest_ram" where
  "demo_ring_ram n = \<lparr>ram_bytes = 0x4020, ram_mem = (\<lambda>i.
     if i = 0x1001 then 0x40 else if i = 0x1008 then n else if i = 0x100c then 2 else if i = 0x2002 then 1
     else if 0x4000 \<le> i then of_nat (i - 0x3fff) else 0)\<rparr>"

lemma demo_num [simp]: "q_num demo_ring = 4"
  by (simp add: q_num_def demo_ring_def)

lemma demo_reads:
  "avail_idx (demo_ring_ram n) demo_ring = Some 1" "used_idx (demo_ring_ram n) demo_ring = Some 0"
  "avail_ring (demo_ring_ram n) demo_ring 0 = Some 0"
  "read_desc (demo_ring_ram n) demo_ring 0 = Some \<lparr>d_addr = 0x4000, d_len = ucast n, d_flags = 2, d_next = 0\<rparr>"
  "i \<in> {1, 2, 3} \<Longrightarrow> read_desc (demo_ring_ram n) demo_ring i = Some \<lparr>d_addr = 0, d_len = 0, d_flags = 0, d_next = 0\<rparr>"
  by (auto simp: avail_idx_def used_idx_def avail_ring_def read_desc_def ram_u16_def ram_get_def ram_ok_def ram_peek_def
      demo_ring_def demo_ring_ram_def desc_of_def upt_rec)

lemma demo_queue_ok:
  assumes "n \<le> 0x20"
  shows "queue_ok (demo_ring_ram n) demo_ring"
proof -
  have "unat n \<le> 32" using assms by (simp add: word_le_nat_alt)
  then have n: "take_bit 32 (unat n) \<le> 32" by (rule order_trans [OF take_bit_nat_less_eq_self])
  have "areas_ok (demo_ring_ram n) demo_ring"
    by (simp add: areas_ok_def demo_ring_ram_def) (simp add: demo_ring_def apart_def)
  moreover have "buffer_ok (demo_ring_ram n) demo_ring d" if "read_desc (demo_ring_ram n) demo_ring i = Some d" "i < 4" for i d
  proof -
    have "i = 0 \<or> i \<in> {1, 2, 3}" using that(2) by auto
    then show ?thesis
    proof
      assume "i = 0"
      then have "d = \<lparr>d_addr = 0x4000, d_len = ucast n, d_flags = 2, d_next = 0\<rparr>" using that(1) by (simp add: demo_reads)
      then show ?thesis using n
        by (simp add: buffer_ok_def gpa_to_hva_def apart_def unsigned_ucast_eq)
          (simp add: demo_ring_def demo_ring_ram_def)
    next
      assume "i \<in> {1, 2, 3}"
      from demo_reads(5) [OF this, of n] that(1) show ?thesis
        by (auto simp: buffer_ok_def gpa_to_hva_def apart_def demo_ring_ram_def)
    qed
  qed
  ultimately show ?thesis by (simp add: queue_ok_def)
qed

lemma demo_gather: "tx_gather MAX_CHAIN (demo_ring_ram 20) demo_ring 0 [] = Some (map of_nat [1..<21])"
proof -
  have "tx_gather (Suc n) (demo_ring_ram 20) demo_ring 0 [] = Some (map of_nat [1..<21])" for n
    by (simp add: slot_def demo_reads)
      (simp add: demo_ring_def tx_fragment_def gpa_to_hva_def ram_get_def ram_ok_def ram_peek_def demo_ring_ram_def
        VRING_DESC_F_NEXT_def PKT_BUF_SIZE_def upt_rec)
  from this [of 63] show ?thesis by (simp add: MAX_CHAIN_def)
qed


theorem net_rx_delivers_witness:
  "\<exists>r'. rx_one demo_ring 0 (demo_ring_ram 20) [1, 2, 3] = Some (True, r') \<and>
     ram_get r' 0x4000 15 = Some (replicate 12 0 @ [1, 2, 3]) \<and> used_idx r' demo_ring = Some 1"
proof -
  have q: "queue_ok (demo_ring_ram 20) demo_ring" by (rule demo_queue_ok) simp
  have d: "read_desc (demo_ring_ram 20) demo_ring (unat (0 :: u16) mod q_num demo_ring) = Some \<lparr>d_addr = 0x4000, d_len = 20, d_flags = 2, d_next = 0\<rparr>"
    "avail_ring (demo_ring_ram 20) demo_ring (unat (0 :: u16) mod q_num demo_ring) = Some 0"
    by (simp_all add: demo_reads)
  have a: "gpa_to_hva (demo_ring_ram 20) (d_addr \<lparr>d_addr = 0x4000, d_len = 20, d_flags = 2, d_next = 0\<rparr>) = Some 0x4000"
    by (simp add: gpa_to_hva_def demo_ring_ram_def)
  from net_rx_delivers [OF q demo_reads(2) d(2,1) a, of "[1, 2, 3]"]
  show ?thesis by (auto simp: VRING_DESC_F_WRITE_def NET_HDR_SIZE_def)
qed

theorem net_tx_unchecked_witness:
  "tx_one 7 demo_ring 0 (demo_ring_ram 0x40) [] = None"
proof -
  have rd: "read_desc (demo_ring_ram 0x40) demo_ring (unat (0 :: u16) mod q_num demo_ring) = Some \<lparr>d_addr = 0x4000, d_len = 0x40, d_flags = 2, d_next = 0\<rparr>"
    "avail_ring (demo_ring_ram 0x40) demo_ring (unat (0 :: u16) mod q_num demo_ring) = Some 0"
    by (simp_all add: demo_reads)
  have "v_num demo_ring \<noteq> 0" by (simp add: demo_ring_def)
  moreover have "ram_bytes (demo_ring_ram 0x40) = 0x4020" by (simp add: demo_ring_ram_def)
  ultimately show ?thesis using net_tx_unchecked [OF _ rd(2,1), of 7 "[]"] by (simp add: PKT_BUF_SIZE_def)
qed

definition demo_rx_ring :: vring where
  "demo_rx_ring = \<lparr>v_num = 4, v_desc = 0x1100, v_avail = 0x2100, v_used = 0x3100\<rparr>"

definition demo_thread :: net_thread where
  "demo_thread = \<lparr>nt_ram = demo_ring_ram 20, nt_irq_status = 0, tx_last_avail = 0, rx_last_used = 0\<rparr>"

lemma demo_thread_ok: "net_thread_ok demo_rx_ring demo_ring demo_thread"
proof -
  have n: "q_num demo_rx_ring = 4" by (simp add: q_num_def demo_rx_ring_def)
  have rd: "read_desc (demo_ring_ram 20) demo_rx_ring i = Some \<lparr>d_addr = 0, d_len = 0, d_flags = 0, d_next = 0\<rparr>" if "i < 4" for i
  proof -
    have "i \<in> {0, 1, 2, 3}" using that by auto
    then show ?thesis
      by (auto simp: read_desc_def ram_get_def ram_ok_def ram_peek_def demo_rx_ring_def demo_ring_ram_def desc_of_def upt_rec)
  qed
  have "areas_ok (demo_ring_ram 20) demo_rx_ring"
    by (simp add: areas_ok_def n demo_ring_ram_def) (simp add: demo_rx_ring_def apart_def)
  then have q: "queue_ok (demo_ring_ram 20) demo_rx_ring"
    by (simp add: queue_ok_def n rd buffer_ok_def gpa_to_hva_def apart_def)
  have b: "buffers (demo_ring_ram 20) demo_rx_ring = {}" by (auto simp: buffers_def n rd)
  have "queue_ok (demo_ring_ram 20) demo_ring" by (rule demo_queue_ok) simp
  with q have "queues_ok (demo_ring_ram 20) demo_rx_ring demo_ring"
    by (auto simp: queues_ok_def b used_area_def desc_area_def avail_area_def n) (simp_all add: demo_ring_def demo_rx_ring_def)
  moreover have "used_idx (demo_ring_ram 20) demo_rx_ring = Some 0"
    by (simp add: used_idx_def ram_u16_def ram_get_def ram_ok_def ram_peek_def demo_rx_ring_def demo_ring_ram_def upt_rec)
  ultimately show ?thesis by (simp add: net_thread_ok_def demo_thread_def demo_reads)
qed

theorem net_pass_ok_witness:
  "\<exists>s' tr'. net_pass one_os 7 8 demo_rx_ring demo_ring demo_thread [] = Some (s', tr') \<and>
     net_thread_ok demo_rx_ring demo_ring s' \<and> avail_idx (nt_ram s') demo_ring = Some (tx_last_avail s')"
  using net_pass_ok [OF demo_thread_ok, of one_os 7 8 "[]" 0] by blast

end
