(* ===== verification/C_Strings.thy ===== *)
theory C_Strings
  imports Host_Os
begin

text \<open>
  Zero-terminated strings and the functions of the C library that the program uses on them.  A pointer
  into a buffer is the rest of the buffer from there, with the terminating zeroes that are in it; the empty
  list is a pointer behind the buffer.  A string that has been read into a variable of its own
  is the list of its characters without the zero.
\<close>

abbreviation NUL :: char where "NUL \<equiv> CHR 0x00"
abbreviation QUOTE :: char where "QUOTE \<equiv> CHR 0x22"
abbreviation BACKSLASH :: char where "BACKSLASH \<equiv> CHR 0x5C"
abbreviation NEWLINE :: char where "NEWLINE \<equiv> CHR 0x0A"

definition chars :: "u8 list \<Rightarrow> string" where
  "chars bs = map (\<lambda>b. char_of (unat b)) bs"

text \<open>\<open>*p == c\<close>, the C string at a pointer, \<open>strchr\<close> as a distance, and \<open>snprintf\<close> with a limit.\<close>

definition sees :: "string \<Rightarrow> char \<Rightarrow> bool" where
  "sees p c \<longleftrightarrow> (case p of [] \<Rightarrow> False | x # _ \<Rightarrow> x = c)"

definition c_text :: "string \<Rightarrow> string" where
  "c_text p = takeWhile (\<lambda>c. c \<noteq> NUL) p"

definition strchr :: "string \<Rightarrow> char \<Rightarrow> nat option" where
  "strchr p c = (let k = length (takeWhile (\<lambda>x. x \<noteq> c \<and> x \<noteq> NUL) p) in if sees (drop k p) c then Some k else None)"

definition cut_to :: "nat \<Rightarrow> string \<Rightarrow> string" where
  "cut_to n s = take (n - 1) s"

text \<open>\<open>strstr\<close>, for a needle that is not empty.\<close>

fun strstr :: "string \<Rightarrow> string \<Rightarrow> string option" where
  "strstr n [] = None"
| "strstr n (c # s) = (if c = NUL then None else if take (length n) (c # s) = n then Some (c # s) else strstr n s)"

text \<open>What \<open>strtok\<close> returns in succession.\<close>

function strtok :: "(char \<Rightarrow> bool) \<Rightarrow> string \<Rightarrow> string list" where
  "strtok d s =
     (let s1 = dropWhile d s
      in if s1 = [] then [] else takeWhile (\<lambda>c. \<not> d c) s1 # strtok d (dropWhile (\<lambda>c. \<not> d c) s1))"
  by pat_completeness auto

termination
proof (relation "measure (\<lambda>(d, s). length s)", goal_cases)
  case (2 d s s1)
  from 2 have "s1 \<noteq> []" "\<not> d (hd s1)" using hd_dropWhile [of d s] by auto
  then obtain c r where s1: "s1 = c # r" "\<not> d c" by (cases s1) auto
  have "length (dropWhile (\<lambda>c. \<not> d c) s1) \<le> length r" using s1 by (simp add: length_dropWhile_le)
  also have "\<dots> < length s1" using s1 by simp
  also have "\<dots> \<le> length s" using 2 by (simp add: length_dropWhile_le)
  finally show ?case by simp
qed simp

declare strtok.simps [simp del]

section \<open>Numbers\<close>

definition is_space :: "char \<Rightarrow> bool" where
  "is_space c \<longleftrightarrow> c \<in> {CHR '' '', CHR 0x09, CHR 0x0A, CHR 0x0B, CHR 0x0C, CHR 0x0D}"

definition digit_val :: "char \<Rightarrow> nat option" where
  "digit_val c =
     (let n = of_char c :: nat
      in if 48 \<le> n \<and> n \<le> 57 then Some (n - 48)
         else if 97 \<le> n \<and> n \<le> 102 then Some (n - 87)
         else if 65 \<le> n \<and> n \<le> 70 then Some (n - 55)
         else None)"

definition digit_of :: "nat \<Rightarrow> char" where
  "digit_of n = (if n < 10 then char_of (48 + n) else char_of (87 + n))"

fun read_digits :: "nat \<Rightarrow> nat \<Rightarrow> string \<Rightarrow> nat \<times> string" where
  "read_digits b v [] = (v, [])"
| "read_digits b v (c # s) =
     (case digit_val c of
        None \<Rightarrow> (v, c # s)
      | Some d \<Rightarrow> if d < b then read_digits b (v * b + d) s else (v, c # s))"

definition read_sign :: "string \<Rightarrow> bool \<times> string" where
  "read_sign s = (if sees s (CHR ''-'') then (True, tl s) else if sees s (CHR ''+'') then (False, tl s) else (False, s))"

definition skip_0x :: "nat \<Rightarrow> string \<Rightarrow> string" where
  "skip_0x b s = (if b = 16 \<and> (take 2 s = ''0x'' \<or> take 2 s = ''0X'') then drop 2 s else s)"

text \<open>
  The conversions \<^verbatim>\<open>%x\<close> and \<^verbatim>\<open>%u\<close> of \<open>sscanf\<close>: \<open>strtoul\<close>, which stops at the largest 64-bit
  number, stored into 32 bits.
\<close>

definition scan_uint :: "nat \<Rightarrow> string \<Rightarrow> (u32 \<times> string) option" where
  "scan_uint b s =
     (let (neg, s1) = read_sign (dropWhile is_space s); s2 = skip_0x b s1; (v, s3) = read_digits b 0 s2;
          u = (if 2 ^ 64 \<le> v then - 1 else if neg then - of_nat v else of_nat v) :: u64
      in if length s3 = length s2 then None else Some (ucast u, s3))"

text \<open>\<open>sscanf\<close> with numbers and separators in turn: the numbers up to the first failure.\<close>

fun scan_fields :: "nat \<Rightarrow> char list \<Rightarrow> string \<Rightarrow> u32 list" where
  "scan_fields b [] s = (case scan_uint b s of None \<Rightarrow> [] | Some (v, _) \<Rightarrow> [v])"
| "scan_fields b (c # cs) s =
     (case scan_uint b s of
        None \<Rightarrow> []
      | Some (v, r) \<Rightarrow> v # (if sees r c then scan_fields b cs (tl r) else []))"

text \<open>\<open>atoi\<close>: \<open>strtol\<close>, which stops at the bounds of 64 bits, stored into 32 bits.\<close>

definition atoi :: "string \<Rightarrow> int" where
  "atoi s =
     (let (neg, s1) = read_sign (dropWhile is_space s); v = int (fst (read_digits 10 0 s1));
          l = (if neg then max (- (2 ^ 63)) (- v) else min (2 ^ 63 - 1) v)
      in signed_take_bit 31 l)"

function show_dec :: "nat \<Rightarrow> string" where
  "show_dec n = (if n < 10 then [digit_of n] else show_dec (n div 10) @ [digit_of (n mod 10)])"
  by pat_completeness auto

termination by (relation "measure id") auto

declare show_dec.simps [simp del]

text \<open>\<^verbatim>\<open>%02x\<close> of a byte.\<close>

definition show_hex2 :: "u8 \<Rightarrow> string" where
  "show_hex2 b = [digit_of (unat b div 16), digit_of (unat b mod 16)]"

section \<open>Laws\<close>

lemma sees_simps [simp]: "\<not> sees [] c" "sees (x # p) c \<longleftrightarrow> x = c"
  by (simp_all add: sees_def)

lemma digit_val_of [simp]: "n < 16 \<Longrightarrow> digit_val (digit_of n) = Some n"
  by (auto simp: digit_val_def digit_of_def Let_def)

lemma read_digits_Cons: "d < b \<Longrightarrow> d < 16 \<Longrightarrow> read_digits b v (digit_of d # s) = read_digits b (v * b + d) s"
  by simp

lemma read_digits_stop: "s = [] \<or> digit_val (hd s) = None \<Longrightarrow> read_digits b v s = (v, s)"
  by (cases s) auto

lemma read_digits_dec: "\<exists>k. \<forall>v s. read_digits 10 v (show_dec n @ s) = read_digits 10 (v * 10 ^ k + n) s"
proof (induction n rule: show_dec.induct)
  case (1 n)
  show ?case
  proof (cases "n < 10")
    case True
    then have "\<forall>v s. read_digits 10 v (show_dec n @ s) = read_digits 10 (v * 10 ^ 1 + n) s"
      by (simp add: show_dec.simps [of n])
    then show ?thesis by blast
  next
    case False
    with 1 obtain k where k: "\<And>v s. read_digits 10 v (show_dec (n div 10) @ s) = read_digits 10 (v * 10 ^ k + n div 10) s" by blast
    have "read_digits 10 v (show_dec n @ s) = read_digits 10 (v * 10 ^ (k + 1) + n) s" for v s
    proof -
      have "read_digits 10 v (show_dec n @ s) = read_digits 10 ((v * 10 ^ k + n div 10) * 10 + n mod 10) s"
        using False by (simp add: show_dec.simps [of n] k)
      also have "(v * 10 ^ k + n div 10) * 10 + n mod 10 = v * 10 ^ (k + 1) + n" by (simp add: algebra_simps)
      finally show ?thesis .
    qed
    then show ?thesis by blast
  qed
qed

lemma show_dec_not_Nil [simp]: "show_dec n \<noteq> []"
  by (simp add: show_dec.simps [of n])

lemma digit_of_plain: "n < 16 \<Longrightarrow> \<not> is_space (digit_of n) \<and> digit_of n \<noteq> CHR ''-'' \<and> digit_of n \<noteq> CHR ''+'' \<and> digit_of n \<noteq> CHR ''x'' \<and> digit_of n \<noteq> CHR ''X''"
  using digit_val_of [of n] by (auto simp: is_space_def digit_val_def)

lemma show_dec_head: "\<exists>d r. d < 10 \<and> show_dec n = digit_of d # r"
proof (induction n rule: show_dec.induct)
  case (1 n)
  show ?case
  proof (cases "n < 10")
    case True then show ?thesis by (auto simp: show_dec.simps [of n])
  next
    case False
    with 1 obtain d r where "d < 10" "show_dec (n div 10) = digit_of d # r" by blast
    then show ?thesis using False by (auto simp: show_dec.simps [of n])
  qed
qed

lemma scan_uint_dec:
  assumes "n < 2 ^ 32" and "s = [] \<or> digit_val (hd s) = None"
  shows "scan_uint 10 (show_dec n @ s) = Some (of_nat n, s)"
proof -
  obtain d r where d: "d < 10" "show_dec n = digit_of d # r" using show_dec_head by blast
  from read_digits_dec [of n] obtain k where k: "\<forall>v s. read_digits 10 v (show_dec n @ s) = read_digits 10 (v * 10 ^ k + n) s" by blast
  have r: "read_digits 10 0 (show_dec n @ s) = (n, s)" using k [rule_format, of 0 s] read_digits_stop [OF assms(2)] by simp
  have p: "read_sign (dropWhile is_space (show_dec n @ s)) = (False, show_dec n @ s)"
    using digit_of_plain [of d] d by (simp add: read_sign_def)
  have "ucast (of_nat n :: u64) = (of_nat n :: u32)" by (intro bit_word_eqI) (auto simp: bit_simps)
  then show ?thesis using assms(1) by (simp add: scan_uint_def p skip_0x_def r)
qed

lemma scan_uint_hex2:
  assumes "s = [] \<or> digit_val (hd s) = None"
  shows "scan_uint 16 (show_hex2 b @ s) = Some (ucast b, s)"
proof -
  let ?h = "unat b div 16" and ?l = "unat b mod 16"
  have h: "?h < 16" "?l < 16" using unsigned_less [of b, where 'a = nat] by simp_all
  have r: "read_digits 16 0 (show_hex2 b @ s) = (unat b, s)"
    using h read_digits_stop [OF assms] by (simp add: show_hex2_def)
  have p: "read_sign (dropWhile is_space (show_hex2 b @ s)) = (False, show_hex2 b @ s)"
    using digit_of_plain [OF h(1)] by (simp add: show_hex2_def read_sign_def)
  have q: "skip_0x 16 (show_hex2 b @ s) = show_hex2 b @ s"
    using digit_of_plain [OF h(2)] by (simp add: show_hex2_def skip_0x_def)
  have "\<not> 2 ^ 64 \<le> unat b" using unsigned_less [of b, where 'a = nat] by simp
  moreover have "ucast (of_nat (unat b) :: u64) = (ucast b :: u32)" by (intro bit_word_eqI) (auto simp: bit_simps)
  moreover have "length (show_hex2 b) = 2" by (simp add: show_hex2_def)
  ultimately show ?thesis by (simp add: scan_uint_def p q r)
qed

lemma of_char_nat_byte: "unat (of_char c :: u8) = of_char c"
proof -
  have "(of_char c :: u8) = of_nat (of_char c)" by (rule of_nat_of_char [symmetric])
  moreover have "(of_char c :: nat) < 256" by simp
  ultimately show ?thesis by (simp add: unat_of_nat take_bit_nat_eq_self)
qed

lemma chars_bytes [simp]: "chars (bytes s) = s"
  by (simp add: chars_def bytes_def of_char_nat_byte o_def)

section \<open>Searching for a quoted word\<close>

text \<open>
  Looking for a word in quotes goes from quote to quote: text without quotes is passed over, and a
  quoted word either is the one looked for or is passed over with its opening quote.
\<close>

definition quoted :: "string \<Rightarrow> string" where
  "quoted k = QUOTE # k @ [QUOTE]"

definition plain :: "string \<Rightarrow> bool" where
  "plain s \<longleftrightarrow> QUOTE \<notin> set s \<and> NUL \<notin> set s"

lemma strstr_skip: "plain x \<Longrightarrow> strstr (quoted k) (x @ s) = strstr (quoted k) s"
  by (induction x) (auto simp: plain_def quoted_def)

lemma take_word:
  "plain k \<Longrightarrow> plain x \<Longrightarrow> take (Suc (length k)) (x @ QUOTE # s) = k @ [QUOTE] \<longleftrightarrow> x = k"
proof (induction k arbitrary: x)
  case Nil
  then show ?case by (cases x) (auto simp: plain_def)
next
  case (Cons c k)
  show ?case
  proof (cases x)
    case Nil
    with Cons.prems show ?thesis by (auto simp: plain_def)
  next
    case (Cons y ys)
    with Cons.prems Cons.IH [of ys] show ?thesis by (auto simp: plain_def)
  qed
qed

lemma strstr_quoted:
  assumes "plain k" and "plain x"
  shows "strstr (quoted k) (QUOTE # x @ QUOTE # s) =
    (if x = k then Some (QUOTE # x @ QUOTE # s) else strstr (quoted k) (QUOTE # s))"
proof -
  have "strstr (quoted k) (x @ QUOTE # s) = strstr (quoted k) (QUOTE # s)" by (rule strstr_skip [OF assms(2)])
  then show ?thesis using take_word [OF assms, of s] by (simp add: quoted_def)
qed

text \<open>Text as its parts between quotes.\<close>

fun join_q :: "string list \<Rightarrow> string" where
  "join_q [] = []"
| "join_q [x] = x"
| "join_q (x # y # xs) = x @ QUOTE # join_q (y # xs)"

lemma strstr_join:
  assumes "plain k" and "\<forall>x \<in> set ys. plain x" and "k \<notin> set ys"
  shows "strstr (quoted k) (QUOTE # join_q (ys @ k # z # zs)) = Some (quoted k @ join_q (z # zs))"
  using assms(2,3)
proof (induction ys)
  case Nil
  then show ?case using strstr_quoted [OF assms(1) assms(1)] by (simp add: quoted_def)
next
  case (Cons y ys)
  obtain u us where u: "ys @ k # z # zs = u # us" by (cases ys) auto
  have "strstr (quoted k) (QUOTE # join_q ((y # ys) @ k # z # zs)) = strstr (quoted k) (QUOTE # y @ QUOTE # join_q (ys @ k # z # zs))"
    by (simp add: u)
  also have "\<dots> = strstr (quoted k) (QUOTE # join_q (ys @ k # z # zs))"
    using Cons.prems strstr_quoted [OF assms(1), of y] by auto
  finally show ?case using Cons by simp
qed

end
