(* ===== verification/Config.thy ===== *)
theory Config
  imports C_Strings
begin

text \<open>
  The configuration of a container: the parser of the JSON file (\<open>parse_config\<close>) and the files that
  carry the result to the guest (\<open>write_config_to_share\<close>), both in \<^verbatim>\<open>vmm.cpp\<close>.
\<close>

record vm_config =
  cfg_rootfs :: string
  cfg_entrypoint :: string
  cfg_hostname :: string
  cfg_tap :: string
  cfg_ip :: string
  cfg_gateway :: string
  cfg_mac :: "u8 list"
  cfg_has_net :: bool
  cfg_env :: "(string \<times> string) list"

definition empty_config :: vm_config where
  "empty_config = \<lparr>cfg_rootfs = '''', cfg_entrypoint = '''', cfg_hostname = '''', cfg_tap = '''', cfg_ip = '''',
     cfg_gateway = '''', cfg_mac = replicate 6 0, cfg_has_net = False, cfg_env = []\<rparr>"

definition PATH_MAX :: nat where "PATH_MAX = 4096"

section \<open>Parser\<close>

definition skip_ws :: "string \<Rightarrow> string" where
  "skip_ws p = dropWhile (\<lambda>c. c \<in> {CHR '' '', CHR 0x09, CHR 0x0A, CHR 0x0D}) p"

text \<open>The characters of a string up to its closing quote or until \<open>n\<close> have been stored.\<close>

fun string_body :: "nat \<Rightarrow> string \<Rightarrow> string \<times> string" where
  "string_body 0 p = ([], p)"
| "string_body (Suc n) [] = ([], [])"
| "string_body (Suc n) (c # p) =
     (if c = NUL \<or> c = QUOTE then ([], c # p)
      else if c = BACKSLASH \<and> p \<noteq> [] \<and> hd p \<noteq> NUL
      then (let (out, r) = string_body n (tl p) in (hd p # out, r))
      else (let (out, r) = string_body n p in (c # out, r)))"

text \<open>The stored string and the rest; \<open>None\<close> if there is no opening quote, and then nothing is stored.\<close>

definition parse_string :: "string \<Rightarrow> nat \<Rightarrow> (string \<times> string) option" where
  "parse_string p maxlen =
     (let p1 = skip_ws p
      in if \<not> sees p1 QUOTE then None
         else (let (out, r) = string_body (maxlen - 1) (tl p1) in Some (out, if sees r QUOTE then tl r else r)))"

definition skip_colon :: "string \<Rightarrow> string" where
  "skip_colon p = (let p1 = skip_ws p in if sees p1 (CHR '':'') then skip_ws (tl p1) else p1)"

definition find_val :: "string \<Rightarrow> string \<Rightarrow> nat \<Rightarrow> string \<Rightarrow> string" where
  "find_val buf key maxlen old =
     (case strstr (quoted key) buf of
        None \<Rightarrow> old
      | Some p \<Rightarrow>
          (let p1 = skip_ws (drop (length (quoted key)) p)
           in if \<not> sees p1 (CHR '':'') then old
              else (case parse_string (skip_ws (tl p1)) maxlen of None \<Rightarrow> old | Some (out, _) \<Rightarrow> out)))"

definition find_net_val :: "string \<Rightarrow> string \<Rightarrow> nat \<Rightarrow> string \<Rightarrow> string" where
  "find_net_val blk key maxlen old =
     (case strstr (quoted key) blk of
        None \<Rightarrow> old
      | Some p \<Rightarrow>
          (case parse_string (skip_colon (drop (length (quoted key)) p)) maxlen of None \<Rightarrow> old | Some (out, _) \<Rightarrow> out))"

definition parse_mac :: "string \<Rightarrow> u8 list \<Rightarrow> bool \<times> u8 list" where
  "parse_mac s mac =
     (let m = scan_fields 16 (replicate 5 (CHR '':'')) s
      in if length m \<noteq> 6 then (False, mac) else (True, map ucast m))"

definition net_fields :: "string \<Rightarrow> vm_config \<Rightarrow> vm_config" where
  "net_fields blk cfg =
     (let mac_str = find_net_val blk ''mac'' 32 ''''
      in cfg\<lparr>cfg_tap := find_net_val blk ''tap'' IFNAMSIZ (cfg_tap cfg),
             cfg_ip := find_net_val blk ''ip'' 32 (cfg_ip cfg),
             cfg_gateway := find_net_val blk ''gateway'' 32 (cfg_gateway cfg),
             cfg_mac := (if mac_str \<noteq> '''' then snd (parse_mac mac_str (cfg_mac cfg)) else cfg_mac cfg)\<rparr>)"

text \<open>
  The buffer is the file followed by a zero.  Without a closing brace the block reaches to that zero.
\<close>

definition parse_net :: "string \<Rightarrow> vm_config \<Rightarrow> vm_config" where
  "parse_net buf cfg =
     (case strstr (quoted ''net'') buf of
        None \<Rightarrow> cfg
      | Some q \<Rightarrow>
          (let p = skip_colon (drop 5 q)
           in if \<not> sees p (CHR ''{'') then cfg
              else (let block_len = (case strchr p (CHR ''}'') of Some k \<Rightarrow> k + 1 | None \<Rightarrow> length p);
                        cfg1 = cfg\<lparr>cfg_has_net := True\<rparr>
                    in if block_len < 2048 then net_fields (take block_len p @ [NUL]) cfg1 else cfg1)))"

lemma skip_ws_length: "length (skip_ws p) \<le> length p"
  by (simp add: skip_ws_def length_dropWhile_le)

lemma skip_colon_length: "length (skip_colon p) \<le> length p"
proof -
  have "length (skip_ws (tl (skip_ws p))) \<le> length p"
    using skip_ws_length [of "tl (skip_ws p)"] skip_ws_length [of p] by simp
  then show ?thesis using skip_ws_length [of p] by (simp add: skip_colon_def Let_def)
qed

lemma string_body_length: "length (snd (string_body n p)) \<le> length p"
  by (induction n p rule: string_body.induct) (auto simp: case_prod_beta Let_def dest: le_trans)

lemma parse_string_length: "parse_string p n = Some (out, r) \<Longrightarrow> length r < length p"
proof -
  assume *: "parse_string p n = Some (out, r)"
  then have s: "sees (skip_ws p) QUOTE" by (auto simp: parse_string_def Let_def split: if_splits)
  then have "length (tl (skip_ws p)) < length p" using skip_ws_length [of p] by (cases "skip_ws p") auto
  moreover have "length r \<le> length (tl (skip_ws p))"
    using * s string_body_length [of "n - 1" "tl (skip_ws p)"]
    by (auto simp: parse_string_def Let_def case_prod_beta split: if_splits)
  ultimately show ?thesis by simp
qed

text \<open>
  The loop over the environment.  The result is \<open>None\<close> if it runs past the end of the buffer, which it does not check
  for after white space.
\<close>

function env_loop :: "string \<Rightarrow> (string \<times> string) list \<Rightarrow> (string \<times> string) list option" where
  "env_loop p es =
     (if p = [] then None
      else if hd p = NUL \<or> hd p = CHR ''}'' \<or> 32 \<le> length es then Some es
      else (let p1 = skip_ws p
            in if \<not> sees p1 QUOTE then env_loop (tl p1) es
               else (case parse_string p1 64 of
                       None \<Rightarrow> Some es
                     | Some (key, p2) \<Rightarrow>
                         (case parse_string (skip_colon p2) 256 of
                            None \<Rightarrow> Some es
                          | Some (val, p3) \<Rightarrow>
                              (let p4 = skip_ws p3
                               in env_loop (if sees p4 (CHR '','') then tl p4 else p4) (es @ [(key, val)]))))))"
  by pat_completeness auto

termination
proof (relation "measure (\<lambda>(p, es). length p)", goal_cases)
  case (2 p es p1)
  then show ?case using skip_ws_length [of p] by (cases p) (auto simp: less_Suc_eq_le)
next
  case (3 p es p1 x key p2 y val p3 p4)
  have "length p4 \<le> length p3" using 3 skip_ws_length by simp
  also have "\<dots> < length (skip_colon p2)" using 3 parse_string_length by auto
  also have "\<dots> \<le> length p2" by (rule skip_colon_length)
  also have "\<dots> < length p1" using 3 parse_string_length by auto
  also have "\<dots> \<le> length p" using 3 skip_ws_length by simp
  finally show ?case by auto
qed simp

declare env_loop.simps [simp del]

definition parse_env :: "string \<Rightarrow> vm_config \<Rightarrow> vm_config option" where
  "parse_env buf cfg =
     (case strstr (quoted ''env'') buf of
        None \<Rightarrow> Some cfg
      | Some q \<Rightarrow>
          (let p = skip_colon (drop 5 q)
           in if \<not> sees p (CHR ''{'') then Some cfg
              else map_option (\<lambda>es. cfg\<lparr>cfg_env := es\<rparr>) (env_loop (tl p) (cfg_env cfg))))"

definition parse_text :: "string \<Rightarrow> vm_config \<Rightarrow> vm_config option" where
  "parse_text txt cfg =
     (let buf = txt @ [NUL];
          cfg1 = cfg\<lparr>cfg_rootfs := find_val buf ''rootfs'' PATH_MAX (cfg_rootfs cfg),
                     cfg_entrypoint := find_val buf ''entrypoint'' 256 (cfg_entrypoint cfg),
                     cfg_hostname := find_val buf ''hostname'' 64 (cfg_hostname cfg)\<rparr>
      in parse_env buf (parse_net buf cfg1))"

definition parse_config :: "os \<Rightarrow> string \<Rightarrow> vm_config \<Rightarrow> log \<Rightarrow> (bool \<times> vm_config \<times> log) option" where
  "parse_config w path cfg tr =
     (let f = os_ret w tr (Open_read path); tr1 = tr @ [Open_read path]
      in if f < 0 then Some (False, cfg, tr1)
         else map_option (\<lambda>c. (True, c, tr1 @ [File_read f 8191, Close f]))
                (parse_text (chars (take 8191 (os_data w tr1 (File_read f 8191)))) cfg))"

section \<open>Files for the guest\<close>

definition config_line :: "string \<Rightarrow> string \<Rightarrow> string" where
  "config_line key val = (if val = '''' then '''' else key @ ''='' @ val @ [NEWLINE])"

definition show_mac :: "u8 list \<Rightarrow> string" where
  "show_mac m = concat (map (\<lambda>b. show_hex2 b @ '':'') (butlast m)) @ show_hex2 (last m)"

definition env_lines :: "string \<times> string \<Rightarrow> string" where
  "env_lines kv =
     (case kv of (k, v) \<Rightarrow>
        ''export '' @ k @ ''='' @ quoted v @ [NEWLINE] @ ''ENV_'' @ k @ ''='' @ quoted v @ [NEWLINE])"

definition vmconfig_text :: "vm_config \<Rightarrow> string" where
  "vmconfig_text cfg =
     config_line ''HOSTNAME'' (cfg_hostname cfg) @ config_line ''NET_IP'' (cfg_ip cfg) @
     config_line ''NET_GW'' (cfg_gateway cfg) @
     (if cfg_has_net cfg then ''NET_MAC='' @ show_mac (cfg_mac cfg) @ [NEWLINE] else '''') @
     concat (map env_lines (cfg_env cfg))"

definition write_entrypoint :: "os \<Rightarrow> string \<Rightarrow> vm_config \<Rightarrow> log \<Rightarrow> log" where
  "write_entrypoint w dir cfg tr =
     (if cfg_entrypoint cfg = '''' then tr
      else (let c = Open_write (cut_to PATH_MAX (dir @ ''/.entrypoint'')); fd = os_ret w tr c
            in if 0 \<le> fd then tr @ [c, File_write fd (bytes (cfg_entrypoint cfg)), File_write fd (bytes [NEWLINE]), Close fd]
               else tr @ [c]))"

definition write_config_to_share :: "os \<Rightarrow> string option \<Rightarrow> vm_config \<Rightarrow> log \<Rightarrow> log" where
  "write_config_to_share w share cfg tr =
     (case share of
        None \<Rightarrow> tr
      | Some dir \<Rightarrow>
          (let tr1 = write_entrypoint w dir cfg tr; c = Open_write (cut_to PATH_MAX (dir @ ''/.vmconfig'')); f = os_ret w tr1 c
           in if f < 0 then tr1 @ [c] else tr1 @ [c, File_write f (bytes (vmconfig_text cfg)), Close f]))"

section \<open>Arguments of the command line\<close>

definition find_arg :: "string list \<Rightarrow> string \<Rightarrow> string option" where
  "find_arg argv flag =
     map_option (\<lambda>i. argv ! (i + 1)) (find (\<lambda>i. argv ! i = flag) [1..<length argv - 1])"

definition has_flag :: "string list \<Rightarrow> string \<Rightarrow> bool" where
  "has_flag argv flag \<longleftrightarrow> list_ex (\<lambda>i. argv ! i = flag) [1..<length argv]"

section \<open>Reading what was written\<close>

text \<open>The file format that \<open>usage\<close> prints, as a printer.\<close>

definition json_field :: "string \<Rightarrow> string \<Rightarrow> string" where
  "json_field k v = quoted k @ '': '' @ quoted v"

fun json_envs :: "(string \<times> string) list \<Rightarrow> string" where
  "json_envs [] = ''''"
| "json_envs [(k, v)] = json_field k v"
| "json_envs ((k, v) # e # es) = json_field k v @ '', '' @ json_envs (e # es)"

definition json_net :: "vm_config \<Rightarrow> string" where
  "json_net cfg = ''{'' @ json_field ''tap'' (cfg_tap cfg) @ '', '' @ json_field ''ip'' (cfg_ip cfg) @ '', '' @
     json_field ''gateway'' (cfg_gateway cfg) @ '', '' @ json_field ''mac'' (show_mac (cfg_mac cfg)) @ ''}''"

definition json_config :: "vm_config \<Rightarrow> string" where
  "json_config cfg = ''{'' @ json_field ''rootfs'' (cfg_rootfs cfg) @ '', '' @
     json_field ''entrypoint'' (cfg_entrypoint cfg) @ '', '' @ json_field ''hostname'' (cfg_hostname cfg) @ '', '' @
     quoted ''net'' @ '': '' @ json_net cfg @ '', '' @ quoted ''env'' @ '': {'' @ json_envs (cfg_env cfg) @ ''}}''"

definition config_keys :: "string list" where
  "config_keys = [''rootfs'', ''entrypoint'', ''hostname'', ''net'', ''env'', ''tap'', ''ip'', ''gateway'', ''mac'']"

text \<open>Text without quotes, backslashes, braces and zeroes that fits its field.\<close>

definition clean :: "nat \<Rightarrow> string \<Rightarrow> bool" where
  "clean n s \<longleftrightarrow> plain s \<and> BACKSLASH \<notin> set s \<and> CHR ''}'' \<notin> set s \<and> length s < n"

definition config_ok :: "vm_config \<Rightarrow> bool" where
  "config_ok cfg \<longleftrightarrow> clean PATH_MAX (cfg_rootfs cfg) \<and> clean 256 (cfg_entrypoint cfg) \<and> clean 64 (cfg_hostname cfg) \<and>
     clean IFNAMSIZ (cfg_tap cfg) \<and> clean 32 (cfg_ip cfg) \<and> clean 32 (cfg_gateway cfg) \<and>
     (\<forall>v \<in> {cfg_rootfs cfg, cfg_entrypoint cfg, cfg_hostname cfg, cfg_tap cfg, cfg_ip cfg, cfg_gateway cfg}. v \<notin> set config_keys) \<and>
     length (cfg_mac cfg) = 6 \<and> cfg_has_net cfg \<and> length (cfg_env cfg) \<le> 32 \<and>
     (\<forall>(k, v) \<in> set (cfg_env cfg). clean 64 k \<and> clean 256 v)"

lemma string_body_clean: "clean m s \<Longrightarrow> length s \<le> n \<Longrightarrow> string_body n (s @ QUOTE # r) = (s, QUOTE # r)"
proof (induction s arbitrary: n m)
  case Nil
  then show ?case by (cases n) auto
next
  case (Cons c s)
  then obtain n' where n: "n = Suc n'" "length s \<le> n'" by (cases n) auto
  have "clean (length s + 1) s" "c \<noteq> NUL" "c \<noteq> QUOTE" "c \<noteq> BACKSLASH" using Cons.prems(1) by (auto simp: clean_def plain_def)
  with Cons.IH [OF _ n(2)] show ?case by (simp add: n(1))
qed

lemma parse_string_clean:
  assumes "clean n s"
  shows "parse_string (quoted s @ r) n = Some (s, r)"
proof -
  have "string_body (n - 1) (s @ QUOTE # r) = (s, QUOTE # r)"
    using assms by (intro string_body_clean [OF assms]) (auto simp: clean_def)
  then show ?thesis by (simp add: parse_string_def skip_ws_def quoted_def)
qed

lemma skip_ws_quoted [simp]: "skip_ws (quoted s @ r) = quoted s @ r" "skip_ws (CHR '' '' # p) = skip_ws p"
  by (simp_all add: skip_ws_def quoted_def)

lemma skip_colon_quoted [simp]: "skip_colon (CHR '':'' # CHR '' '' # quoted s @ r) = quoted s @ r"
  by (simp add: skip_colon_def Let_def) (simp add: skip_ws_def quoted_def)

lemma find_val_at:
  assumes "strstr (quoted k) buf = Some (quoted k @ '': '' @ quoted v @ r)" and "clean n v"
  shows "find_val buf k n old = v"
proof -
  have "skip_ws ('': '' @ quoted v @ r) = '': '' @ quoted v @ r" by (simp add: skip_ws_def)
  then show ?thesis using assms(1) parse_string_clean [OF assms(2)] by (simp add: find_val_def Let_def)
qed

lemma find_net_val_at:
  assumes "strstr (quoted k) buf = Some (quoted k @ '': '' @ quoted v @ r)" and "clean n v"
  shows "find_net_val buf k n old = v"
  using assms(1) parse_string_clean [OF assms(2)] by (simp add: find_net_val_def)

lemma strchr_first: "c \<notin> set x \<Longrightarrow> NUL \<notin> set x \<Longrightarrow> strchr (x @ c # s) c = Some (length x)"
proof -
  assume "c \<notin> set x" "NUL \<notin> set x"
  then have "takeWhile (\<lambda>y. y \<noteq> c \<and> y \<noteq> NUL) (x @ c # s) = x"
    by (subst takeWhile_append2) auto
  then show ?thesis by (simp add: strchr_def Let_def)
qed

lemma digit_of_clean: "n < 16 \<Longrightarrow> digit_of n \<notin> {QUOTE, NUL, BACKSLASH, CHR ''}'', NEWLINE, CHR 0x0D, CHR ''='', CHR 0x27}"
  using digit_val_of [of n] by (auto simp: digit_val_def)

lemma show_hex2_set:
  assumes "x \<in> set (show_hex2 b)"
  shows "\<exists>n < 16. x = digit_of n"
proof -
  have "unat b div 16 < 16" "unat b mod 16 < 16" using unsigned_less [of b, where 'a = nat] by simp_all
  moreover have "x = digit_of (unat b div 16) \<or> x = digit_of (unat b mod 16)" using assms by (auto simp: show_hex2_def)
  ultimately show ?thesis by metis
qed

lemma six_bytes: "length m = 6 \<Longrightarrow> \<exists>a b c d e f. m = [a, b, c, d, e, f]"
  by (auto simp: numeral_eq_Suc length_Suc_conv)

lemma show_mac_set: "x \<in> set (show_mac m) \<Longrightarrow> x = CHR '':'' \<or> (\<exists>n < 16. x = digit_of n)"
  using show_hex2_set by (auto simp: show_mac_def split: if_splits)

lemma length_show_mac: "length m = 6 \<Longrightarrow> length (show_mac m) = 17"
  using six_bytes [of m] by (auto simp: show_mac_def show_hex2_def)

lemma clean_show_mac: "length m = 6 \<Longrightarrow> clean 32 (show_mac m)"
  using show_mac_set [of _ m] digit_of_clean by (fastforce simp: clean_def plain_def length_show_mac)

lemma parse_show_mac: "length m = 6 \<Longrightarrow> parse_mac (show_mac m) old = (True, m)"
proof -
  assume "length m = 6"
  then obtain a b c d e f where m: "m = [a, b, c, d, e, f]" using six_bytes by blast
  have s: "scan_uint 16 (show_hex2 x @ CHR '':'' # r) = Some (ucast x, CHR '':'' # r)" for x r
    by (rule scan_uint_hex2) (simp add: digit_val_def)
  have five: "replicate 5 (CHR '':'') = '':::::''" by (simp add: numeral_eq_Suc)
  have l: "scan_uint 16 (show_hex2 x) = Some (ucast x, [])" for x using scan_uint_hex2 [of "[]" x] by simp
  have "show_mac m = show_hex2 a @ CHR '':'' # show_hex2 b @ CHR '':'' # show_hex2 c @ CHR '':'' # show_hex2 d @ CHR '':'' #
      show_hex2 e @ CHR '':'' # show_hex2 f" by (simp add: m show_mac_def)
  then have "scan_fields 16 (replicate 5 (CHR '':'')) (show_mac m) = map ucast m"
    by (simp add: m s l five)
  moreover have "ucast (ucast x :: u32) = x" for x :: u8 by (intro bit_word_eqI) (auto simp: bit_simps)
  then have "map ucast (map ucast m :: u32 list) = m" by (simp add: m)
  ultimately show ?thesis using \<open>length m = 6\<close> by (simp add: parse_mac_def Let_def)
qed

text \<open>The environment block.\<close>

lemma env_loop_field:
  assumes "clean 64 k" and "clean 256 v" and "length es < 32"
  shows "env_loop (json_field k v @ r) es = env_loop (let p = skip_ws r in if sees p (CHR '','') then tl p else p) (es @ [(k, v)])"
proof -
  have p: "json_field k v @ r = quoted k @ '': '' @ quoted v @ r" by (simp add: json_field_def)
  have q: "quoted k @ x \<noteq> []" "hd (quoted k @ x) = QUOTE" "sees (quoted k @ x) QUOTE" for x by (simp_all add: quoted_def)
  show ?thesis unfolding p
    by (subst env_loop.simps) (use assms in \<open>simp add: q parse_string_clean Let_def\<close>)
qed

lemma env_loop_space: "length es < 32 \<Longrightarrow> env_loop (CHR '' '' # json_field k v @ r) es = env_loop (json_field k v @ r) es"
  by (subst (1 2) env_loop.simps) (simp add: json_field_def, simp add: quoted_def)

lemma env_loop_json:
  "\<forall>(k, v) \<in> set es. clean 64 k \<and> clean 256 v \<Longrightarrow> length acc + length es \<le> 32 \<Longrightarrow>
    env_loop (json_envs es @ CHR ''}'' # r) acc = Some (acc @ es)"
proof (induction es arbitrary: acc rule: json_envs.induct)
  case 1
  show ?case by (subst env_loop.simps) simp
next
  case (2 k v)
  then have "env_loop (json_field k v @ CHR ''}'' # r) acc = env_loop (CHR ''}'' # r) (acc @ [(k, v)])"
    by (subst env_loop_field) (simp_all add: skip_ws_def)
  also have "\<dots> = Some (acc @ [(k, v)])" by (subst env_loop.simps) simp
  finally show ?case by simp
next
  case (3 k v e es)
  obtain k' v' where e: "e = (k', v')" by fastforce
  obtain t where t: "json_envs (e # es) @ CHR ''}'' # r = json_field k' v' @ t" unfolding e by (cases es) auto
  have "env_loop (json_envs ((k, v) # e # es) @ CHR ''}'' # r) acc =
      env_loop (json_field k v @ '', '' @ json_envs (e # es) @ CHR ''}'' # r) acc" by simp
  also have "\<dots> = env_loop (CHR '' '' # json_envs (e # es) @ CHR ''}'' # r) (acc @ [(k, v)])"
    using 3 by (subst env_loop_field) (simp_all add: skip_ws_def)
  also have "\<dots> = env_loop (json_envs (e # es) @ CHR ''}'' # r) (acc @ [(k, v)])"
    using 3 unfolding t by (intro env_loop_space) simp
  also have "\<dots> = Some (acc @ (k, v) # e # es)" using 3 by (subst 3(1)) auto
  finally show ?case .
qed

text \<open>The whole file, cut at its quotes.\<close>

definition json_parts :: "vm_config \<Rightarrow> string \<Rightarrow> string list" where
  "json_parts cfg t =
     [''rootfs'', '': '', cfg_rootfs cfg, '', '', ''entrypoint'', '': '', cfg_entrypoint cfg, '', '', ''hostname'', '': '', cfg_hostname cfg, '', '',
      ''net'', '': {'', ''tap'', '': '', cfg_tap cfg, '', '', ''ip'', '': '', cfg_ip cfg, '', '', ''gateway'', '': '', cfg_gateway cfg, '', '',
      ''mac'', '': '', show_mac (cfg_mac cfg), ''}, '', ''env'', '': {'' @ json_envs (cfg_env cfg) @ ''}}'' @ t]"

definition net_parts :: "vm_config \<Rightarrow> string \<Rightarrow> string list" where
  "net_parts cfg t =
     [''tap'', '': '', cfg_tap cfg, '', '', ''ip'', '': '', cfg_ip cfg, '', '', ''gateway'', '': '', cfg_gateway cfg, '', '',
      ''mac'', '': '', show_mac (cfg_mac cfg), ''}'' @ t]"

lemma json_config_parts: "json_config cfg @ t = ''{'' @ QUOTE # join_q (json_parts cfg t)"
  by (simp add: json_config_def json_parts_def json_net_def json_field_def quoted_def)

lemma json_net_parts: "json_net cfg @ t = ''{'' @ QUOTE # join_q (net_parts cfg t)"
  by (simp add: net_parts_def json_net_def json_field_def quoted_def)

lemma find_part:
  assumes "buf = ''{'' @ QUOTE # join_q ps" and "ps = ys @ k # zs" and "plain k" and "\<forall>x \<in> set ys. plain x" and "k \<notin> set ys" and "zs \<noteq> []"
  shows "strstr (quoted k) buf = Some (quoted k @ join_q zs)"
proof -
  obtain z rest where zs: "zs = z # rest" using assms(6) by (cases zs) auto
  have "strstr (quoted k) (''{'' @ QUOTE # join_q ps) = strstr (quoted k) (QUOTE # join_q ps)"
    by (rule strstr_skip) (simp add: plain_def)
  then show ?thesis using strstr_join [OF assms(3-5), of z rest] assms(1,2) by (simp add: zs)
qed

lemma join_q_value: "join_q ('': '' # v # x # zs) = '': '' @ quoted v @ join_q (x # zs)"
  by (simp add: quoted_def)

lemma field_at:
  assumes "buf = ''{'' @ QUOTE # join_q ps" and "ps = ys @ k # '': '' # v # x # zs" and "plain k" and "\<forall>y \<in> set ys. plain y" and "k \<notin> set ys"
    and "clean n v"
  shows "find_val buf k n old = v" and "find_net_val buf k n old = v"
  using find_val_at [OF _ assms(6)] find_net_val_at [OF _ assms(6)] find_part [OF assms(1-5)] unfolding join_q_value by blast+

lemmas part_simps = json_parts_def net_parts_def plain_def config_keys_def

lemma net_fields_json:
  assumes "config_ok cfg"
  shows "net_fields (json_net cfg @ [NUL]) c =
    c\<lparr>cfg_tap := cfg_tap cfg, cfg_ip := cfg_ip cfg, cfg_gateway := cfg_gateway cfg, cfg_mac := cfg_mac cfg\<rparr>"
proof -
  let ?b = "json_net cfg @ [NUL]" and ?t = "[''tap'', '': '', cfg_tap cfg, '', '']" and ?i = "[''ip'', '': '', cfg_ip cfg, '', '']"
    and ?g = "[''gateway'', '': '', cfg_gateway cfg, '', '']"
  have ok: "clean IFNAMSIZ (cfg_tap cfg)" "clean 32 (cfg_ip cfg)" "clean 32 (cfg_gateway cfg)" "length (cfg_mac cfg) = 6"
    "cfg_tap cfg \<notin> set config_keys" "cfg_ip cfg \<notin> set config_keys" "cfg_gateway cfg \<notin> set config_keys"
    using assms by (simp_all add: config_ok_def)
  note mac = clean_show_mac [OF ok(4)]
  have pl: "plain (cfg_tap cfg)" "plain (cfg_ip cfg)" "plain (cfg_gateway cfg)" using ok by (simp_all add: clean_def)
  note fields = field_at(2) [OF json_net_parts, of cfg "[NUL]"]
  have "find_net_val ?b ''tap'' IFNAMSIZ u = cfg_tap cfg" for u
    by (rule fields [of "[]"]) (use ok in \<open>simp_all add: part_simps\<close>)
  moreover have "find_net_val ?b ''ip'' 32 u = cfg_ip cfg" for u
    by (rule fields [of ?t]) (use ok pl in \<open>auto simp: part_simps\<close>)
  moreover have "find_net_val ?b ''gateway'' 32 u = cfg_gateway cfg" for u
    by (rule fields [of "?t @ ?i"]) (use ok pl in \<open>auto simp: part_simps\<close>)
  moreover have "find_net_val ?b ''mac'' 32 u = show_mac (cfg_mac cfg)" for u
    by (rule fields [of "?t @ ?i @ ?g"]) (use ok pl mac in \<open>auto simp: part_simps\<close>)
  moreover have "show_mac (cfg_mac cfg) \<noteq> ''''" using length_show_mac [OF ok(4)] by auto
  ultimately show ?thesis using parse_show_mac [OF ok(4)] by (simp add: net_fields_def Let_def)
qed

lemma parse_net_json:
  assumes "config_ok cfg"
  shows "parse_net (json_config cfg @ [NUL]) c =
    c\<lparr>cfg_has_net := True, cfg_tap := cfg_tap cfg, cfg_ip := cfg_ip cfg, cfg_gateway := cfg_gateway cfg, cfg_mac := cfg_mac cfg\<rparr>"
proof -
  let ?s = "[''rootfs'', '': '', cfg_rootfs cfg, '', '', ''entrypoint'', '': '', cfg_entrypoint cfg, '', '', ''hostname'', '': '', cfg_hostname cfg, '', '']"
  let ?e = "'', '' @ quoted ''env'' @ '': {'' @ json_envs (cfg_env cfg) @ ''}}'' @ [NUL]"
  have ok: "clean PATH_MAX (cfg_rootfs cfg)" "clean 256 (cfg_entrypoint cfg)" "clean 64 (cfg_hostname cfg)"
    "clean IFNAMSIZ (cfg_tap cfg)" "clean 32 (cfg_ip cfg)" "clean 32 (cfg_gateway cfg)" "length (cfg_mac cfg) = 6"
    "cfg_rootfs cfg \<notin> set config_keys" "cfg_entrypoint cfg \<notin> set config_keys" "cfg_hostname cfg \<notin> set config_keys"
    using assms by (simp_all add: config_ok_def)
  note mac = clean_show_mac [OF ok(7)]
  have "strstr (quoted ''net'') (json_config cfg @ [NUL]) = Some (quoted ''net'' @ join_q (drop 13 (json_parts cfg [NUL])))"
    by (rule find_part [OF json_config_parts, where ys = ?s]) (use ok in \<open>auto simp: part_simps clean_def\<close>)
  moreover have "join_q (drop 13 (json_parts cfg [NUL])) = '': '' @ json_net cfg @ ?e"
    by (simp add: json_parts_def json_net_def json_field_def quoted_def)
  ultimately have s: "strstr (quoted ''net'') (json_config cfg @ [NUL]) = Some (quoted ''net'' @ '': '' @ json_net cfg @ ?e)" by simp
  define body where "body = json_field ''tap'' (cfg_tap cfg) @ '', '' @ json_field ''ip'' (cfg_ip cfg) @ '', '' @
     json_field ''gateway'' (cfg_gateway cfg) @ '', '' @ json_field ''mac'' (show_mac (cfg_mac cfg))"
  have b: "json_net cfg = ''{'' @ body @ ''}''" by (simp add: json_net_def body_def)
  have c: "CHR ''}'' \<notin> set body" "NUL \<notin> set body" "length body < 2000"
    using ok mac by (simp_all add: body_def json_field_def quoted_def clean_def plain_def IFNAMSIZ_def)
  have "skip_colon (drop 5 (quoted ''net'' @ '': '' @ json_net cfg @ ?e)) = json_net cfg @ ?e"
    by (simp add: quoted_def skip_colon_def skip_ws_def b)
  moreover have "strchr (json_net cfg @ ?e) (CHR ''}'') = Some (length body + 1)"
    using strchr_first [of "CHR ''}''" "''{'' @ body" ?e] c by (simp add: b)
  moreover have "take (length body + 2) (json_net cfg @ ?e) = json_net cfg" by (simp add: b)
  ultimately show ?thesis using c(3) net_fields_json [OF assms, of "c\<lparr>cfg_has_net := True\<rparr>"] by (simp add: parse_net_def s Let_def) (simp add: b)
qed

lemma parse_text_json:
  assumes "config_ok cfg"
  shows "parse_text (json_config cfg) empty_config = Some cfg"
proof -
  let ?b = "json_config cfg @ [NUL]"
  let ?r = "[''rootfs'', '': '', cfg_rootfs cfg, '', '']" and ?e = "[''entrypoint'', '': '', cfg_entrypoint cfg, '', '']"
  have ok: "clean PATH_MAX (cfg_rootfs cfg)" "clean 256 (cfg_entrypoint cfg)" "clean 64 (cfg_hostname cfg)"
    "clean IFNAMSIZ (cfg_tap cfg)" "clean 32 (cfg_ip cfg)" "clean 32 (cfg_gateway cfg)" "length (cfg_mac cfg) = 6"
    "cfg_rootfs cfg \<notin> set config_keys" "cfg_entrypoint cfg \<notin> set config_keys" "cfg_hostname cfg \<notin> set config_keys"
    "cfg_tap cfg \<notin> set config_keys" "cfg_ip cfg \<notin> set config_keys" "cfg_gateway cfg \<notin> set config_keys"
    "cfg_has_net cfg" "length (cfg_env cfg) \<le> 32" "\<forall>(k, v) \<in> set (cfg_env cfg). clean 64 k \<and> clean 256 v"
    using assms by (simp_all add: config_ok_def)
  have pl: "plain (cfg_rootfs cfg)" "plain (cfg_entrypoint cfg)" "plain (cfg_hostname cfg)" using ok by (simp_all add: clean_def)
  note mac = clean_show_mac [OF ok(7)]
  note fields = field_at(1) [OF json_config_parts, of cfg "[NUL]"]
  have 1: "find_val ?b ''rootfs'' PATH_MAX u = cfg_rootfs cfg" for u
    by (rule fields [of "[]"]) (use ok in \<open>simp_all add: part_simps\<close>)
  have 2: "find_val ?b ''entrypoint'' 256 u = cfg_entrypoint cfg" for u
    by (rule fields [of ?r]) (use ok pl in \<open>auto simp: part_simps\<close>)
  have 3: "find_val ?b ''hostname'' 64 u = cfg_hostname cfg" for u
    by (rule fields [of "?r @ ?e"]) (use ok pl in \<open>auto simp: part_simps\<close>)
  have "length (show_mac (cfg_mac cfg)) = 17" by (rule length_show_mac [OF ok(7)])
  then have "show_mac (cfg_mac cfg) \<noteq> ''env''" by auto
  then have "strstr (quoted ''env'') ?b = Some (quoted ''env'' @ join_q (drop 31 (json_parts cfg [NUL])))"
    using ok(8-13) ok(1-6) mac
    by (intro find_part [OF json_config_parts, where ys = "take 30 (json_parts cfg [NUL])"])
      (simp_all add: part_simps clean_def eq_commute [of "''env''"])
  moreover have "join_q (drop 31 (json_parts cfg [NUL])) = '': {'' @ json_envs (cfg_env cfg) @ ''}}'' @ [NUL]" by (simp add: json_parts_def)
  ultimately have s: "strstr (quoted ''env'') ?b = Some (quoted ''env'' @ '': {'' @ json_envs (cfg_env cfg) @ ''}}'' @ [NUL])" by simp
  have "skip_colon (drop 5 (quoted ''env'' @ '': {'' @ x)) = CHR ''{'' # x" for x by (simp add: quoted_def skip_colon_def skip_ws_def)
  then have "parse_env ?b c = Some (c\<lparr>cfg_env := cfg_env c @ cfg_env cfg\<rparr>)" if "cfg_env c = []" for c
    using env_loop_json [of "cfg_env cfg" "cfg_env c" "''}'' @ [NUL]"] ok(15,16) that by (simp add: parse_env_def s)
  then show ?thesis using ok(14) by (simp add: parse_text_def Let_def 1 2 3 parse_net_json [OF assms] empty_config_def)
qed

lemma parse_config_json:
  assumes "config_ok cfg" and "length (json_config cfg) < 8192" and "0 \<le> os_ret w tr (Open_read path)"
    and "os_data w (tr @ [Open_read path]) (File_read (os_ret w tr (Open_read path)) 8191) = bytes (json_config cfg)"
  shows "\<exists>tr'. parse_config w path empty_config tr = Some (True, cfg, tr')"
  using assms parse_text_json [OF assms(1)] by (simp add: parse_config_def Let_def)

text \<open>
  White space before the closing brace of the environment is not understood.  When the loop over the
  environment finds white space and then the closing brace, it steps over the brace and goes on in what follows, so
  that later fields of the file become environment variables; when the file ends there, it
  steps over the terminating zero and reads behind the file's text.
\<close>

lemma env_space_before_brace:
  assumes "ws \<noteq> []" and "set ws \<subseteq> {CHR '' '', CHR 0x09, CHR 0x0A, CHR 0x0D}" and "length es < 32"
  shows "env_loop (ws @ CHR ''}'' # r) es = env_loop r es \<and> env_loop (ws @ [NUL]) es = None"
proof -
  have s: "skip_ws (ws @ c # x) = c # x" if "c = CHR ''}'' \<or> c = NUL" for c x
    unfolding skip_ws_def using assms(2) that by (subst dropWhile_append2) auto
  obtain c ws' where ws: "ws = c # ws'" using assms(1) by (cases ws) auto
  have h: "ws @ x \<noteq> []" "hd (ws @ x) \<noteq> NUL" "hd (ws @ x) \<noteq> CHR ''}''" for x using assms(2) by (auto simp: ws)
  have "env_loop (ws @ CHR ''}'' # r) es = env_loop r es"
    by (subst env_loop.simps) (use assms(1,3) h s in simp)
  moreover have "env_loop (ws @ [NUL]) es = env_loop [] es"
    by (subst env_loop.simps) (use assms(1,3) h s in simp)
  moreover have "env_loop [] es = None" by (subst env_loop.simps) simp
  ultimately show ?thesis by simp
qed

lemma env_space_before_brace_witness:
  "env_loop ('' }, '' @ json_field ''hostname'' ''vm1'' @ ''}'') [] = Some [(''hostname'', ''vm1'')] \<and> env_loop ('' '' @ [NUL]) [] = None"
proof -
  let ?r = "'', '' @ json_field ''hostname'' ''vm1'' @ ''}''"
  note this1 = env_space_before_brace [of "'' ''" "[]" ?r]
  have "env_loop (CHR '','' # x) [] = env_loop x []" for x
    by (subst env_loop.simps) (simp add: skip_ws_def)
  then have "env_loop ?r [] = env_loop (CHR '' '' # json_field ''hostname'' ''vm1'' @ ''}'') []" by simp
  also have "\<dots> = env_loop (json_envs [(''hostname'', ''vm1'')] @ ''}'') []" by (subst env_loop_space) simp_all
  also have "\<dots> = Some [(''hostname'', ''vm1'')]"
    using env_loop_json [of "[(''hostname'', ''vm1'')]" "[]" "[]"] by (simp add: clean_def plain_def)
  finally show ?thesis using this1 by simp
qed

end
