(* ===== verification/Guest_Init.thy ===== *)
theory Guest_Init
  imports C_Strings
begin

text \<open>
  The guest's first process, \<^verbatim>\<open>initrd_src/init.c\<close>: it asks for the snapshot, mounts the shared directory,
  reads the files that the host has put there, configures host name and network and runs the
  container's entrypoint.  Its system calls are logged like those of the host; what the guest's kernel
  answers is a parameter.
\<close>

datatype reboot_cmd = RB_HALT_SYSTEM | RB_POWER_OFF

datatype guest_call =
    Mkdir string nat
  | Mount string string "string option"
  | Gopen string
  | Dup2 int int
  | Gclose int
  | Mmap_mem int u64
  | Mmio_write u32
  | Munmap_mem
  | Gwrite int string
  | Gread int nat
  | Timing
  | Sethostname string
  | Inet_socket
  | Get_if_flags
  | Set_if_flags
  | Set_if_addr u32
  | Set_if_netmask u32
  | Add_route u32
  | Chmod string nat
  | Gfork
  | Chroot string
  | Chdir string
  | Execve string "string list" "string \<rightharpoonup> string"
  | Gexit int
  | Gwaitpid int
  | Gsync
  | Reboot reboot_cmd

type_synonym glog = "guest_call list"

record guest_os =
  g_ret :: "glog \<Rightarrow> guest_call \<Rightarrow> int"
  g_data :: "glog \<Rightarrow> guest_call \<Rightarrow> string"

definition VMM_MMIO_GPA :: u64 where "VMM_MMIO_GPA = 0xd0000000"
definition VMM_MMIO_MAGIC :: u32 where "VMM_MMIO_MAGIC = 0x48594C54"

text \<open>
  \<open>snprintf\<close> returns the length the text would have; as many bytes are written, so a text that does not fit into
  the buffer of 1024 bytes makes the call read behind it (\<open>None\<close>).
\<close>

definition log_msg :: "int \<Rightarrow> string \<Rightarrow> glog \<Rightarrow> glog option" where
  "log_msg fd msg tr =
     (if fd < 0 then Some tr
      else if 1024 < length msg + 1 then None
      else Some (tr @ [Gwrite fd (if length msg + 1 < 1024 then msg @ [NEWLINE] else msg @ [NUL])]))"

section \<open>Network\<close>

fun split_on :: "char \<Rightarrow> string \<Rightarrow> string list" where
  "split_on c [] = [[]]"
| "split_on c (x # s) =
     (if x = c then [] # split_on c s
      else (case split_on c s of [] \<Rightarrow> [[x]] | y # ys \<Rightarrow> (x # y) # ys))"

definition join_with :: "char \<Rightarrow> string list \<Rightarrow> string" where
  "join_with c xs = concat (map (\<lambda>x. x @ [c]) (butlast xs)) @ last xs"

text \<open>\<open>inet_pton\<close> and \<open>inet_ntop\<close> for an IPv4 address: four decimal numbers without leading zeroes.\<close>

definition octet_of :: "string \<Rightarrow> nat option" where
  "octet_of s =
     (case read_digits 10 0 s of (v, r) \<Rightarrow>
        if s = [] \<or> r \<noteq> [] \<or> 255 < v \<or> (hd s = CHR ''0'' \<and> 1 < length s) then None else Some v)"

definition inet_pton :: "string \<Rightarrow> u32 option" where
  "inet_pton s =
     (case map octet_of (split_on (CHR ''.'') s) of
        [Some a, Some b, Some c, Some d] \<Rightarrow> Some (of_nat (((a * 256 + b) * 256 + c) * 256 + d))
      | _ \<Rightarrow> None)"

definition inet_ntop :: "u32 \<Rightarrow> string" where
  "inet_ntop x =
     (let n = unat x in join_with (CHR ''.'') (map show_dec [n div 16777216, n div 65536 mod 256, n div 256 mod 256, n mod 256]))"

definition prefix_to_mask :: "int \<Rightarrow> string" where
  "prefix_to_mask prefix =
     (let p = nat (min 32 (max 0 prefix)); mask = (if p = 0 then 0 else push_bit (32 - p) (NOT 0)) :: u32
      in inet_ntop mask)"

definition split_cidr :: "string \<Rightarrow> string \<times> string" where
  "split_cidr ip_cidr =
     (let s = cut_to 64 ip_cidr
      in case strchr s (CHR ''/'') of
           None \<Rightarrow> (s, ''255.255.255.0'')
         | Some k \<Rightarrow> (take k s, prefix_to_mask (atoi (drop (k + 1) s))))"

definition call_if :: "bool \<Rightarrow> guest_call \<Rightarrow> glog \<Rightarrow> glog" where
  "call_if b c tr = (if b then tr @ [c] else tr)"

definition setup_network :: "guest_os \<Rightarrow> string \<Rightarrow> string \<Rightarrow> glog \<Rightarrow> glog" where
  "setup_network w ip_cidr gw_str tr =
     (if ip_cidr = '''' then tr
      else (let (ip_str, mask_str) = split_cidr ip_cidr; sock = g_ret w tr Inet_socket; tr1 = tr @ [Inet_socket]
            in if sock < 0 then tr1
               else (let up = 0 \<le> g_ret w tr1 Get_if_flags;
                         tr2 = call_if up Set_if_flags (tr1 @ [Get_if_flags]);
                         tr3 = (case inet_pton ip_str of None \<Rightarrow> tr2 | Some a \<Rightarrow> tr2 @ [Set_if_addr a]);
                         tr4 = (case inet_pton mask_str of None \<Rightarrow> tr3 | Some a \<Rightarrow> tr3 @ [Set_if_netmask a]);
                         tr5 = (if gw_str = '''' then tr4
                                else case inet_pton gw_str of None \<Rightarrow> tr4 | Some a \<Rightarrow> tr4 @ [Add_route a])
                     in tr5 @ [Gclose sock])))"

section \<open>Configuration\<close>

record guest_settings =
  gs_hostname :: string
  gs_net_ip :: string
  gs_net_gw :: string
  gs_env :: "string \<rightharpoonup> string"

definition setenv :: "string \<Rightarrow> string \<Rightarrow> bool \<Rightarrow> (string \<rightharpoonup> string) \<Rightarrow> (string \<rightharpoonup> string)" where
  "setenv k v overwrite e =
     (if k = '''' \<or> CHR ''='' \<in> set k \<or> (\<not> overwrite \<and> e k \<noteq> None) then e else e(k \<mapsto> v))"

definition unquote :: "string \<Rightarrow> string" where
  "unquote val =
     (if 2 \<le> length val \<and> (hd val = QUOTE \<or> hd val = CHR 0x27) \<and> last val = hd val then butlast (tl val) else val)"

definition config_entry :: "string \<Rightarrow> string \<Rightarrow> guest_settings \<Rightarrow> guest_settings" where
  "config_entry key val s =
     (if key = ''HOSTNAME'' then s\<lparr>gs_hostname := cut_to 256 val\<rparr>
      else if key = ''NET_IP'' then s\<lparr>gs_net_ip := cut_to 64 val\<rparr>
      else if key = ''NET_GW'' then s\<lparr>gs_net_gw := cut_to 64 val\<rparr>
      else (let e = setenv key val True (gs_env s)
            in s\<lparr>gs_env := (if take 4 key = ''ENV_'' then setenv (drop 4 key) val True e else e)\<rparr>))"

definition config_line_in :: "string \<Rightarrow> guest_settings \<Rightarrow> guest_settings" where
  "config_line_in line s =
     (let p = dropWhile (\<lambda>c. c = CHR '' '' \<or> c = CHR 0x09) line
      in if sees p (CHR ''#'') \<or> p = [] then s
         else (let p1 = (if take 7 p = ''export '' then drop 7 p else p)
               in case strchr p1 (CHR ''='') of
                    None \<Rightarrow> s
                  | Some k \<Rightarrow> config_entry (take k p1) (unquote (drop (k + 1) p1)) s))"

definition read_vmconfig :: "string \<Rightarrow> guest_settings \<Rightarrow> guest_settings" where
  "read_vmconfig txt s =
     fold config_line_in (strtok (\<lambda>c. c = CHR 0x0D \<or> c = NEWLINE) (c_text (take 2047 txt))) s"

definition read_entrypoint :: "string \<Rightarrow> string" where
  "read_entrypoint txt =
     takeWhile (\<lambda>c. c \<noteq> CHR 0x0D) (takeWhile (\<lambda>c. c \<noteq> NEWLINE) (c_text (take 1023 txt)))"

text \<open>The text of a file; what a failed \<open>open\<close> or \<open>read\<close> leaves is the empty buffer.\<close>

definition read_share :: "guest_os \<Rightarrow> string \<Rightarrow> nat \<Rightarrow> glog \<Rightarrow> string \<times> glog" where
  "read_share w path n tr =
     (let fd = g_ret w tr (Gopen path); tr1 = tr @ [Gopen path]
      in if fd < 0 then ('''', tr1)
         else (if g_ret w tr1 (Gread fd n) \<le> 0 then '''' else take n (g_data w tr1 (Gread fd n)), tr1 @ [Gread fd n, Gclose fd]))"

section \<open>Main\<close>

definition init_mounts :: glog where
  "init_mounts = [Mkdir ''/proc'' 0x1ED, Mkdir ''/sys'' 0x1ED, Mkdir ''/dev'' 0x1ED, Mkdir ''/tmp'' 0x1FF, Mkdir ''/mnt'' 0x1ED,
     Mkdir ''/share'' 0x1ED, Mount ''devtmpfs'' ''/dev'' (Some ''devtmpfs''), Mount ''proc'' ''/proc'' (Some ''proc''),
     Mount ''sysfs'' ''/sys'' (Some ''sysfs'')]"

definition bind_console :: "guest_os \<Rightarrow> glog \<Rightarrow> glog" where
  "bind_console w tr =
     (let fd = g_ret w tr (Gopen ''/dev/console''); tr1 = tr @ [Gopen ''/dev/console'']
      in if fd < 0 then tr1
         else call_if (2 < fd) (Gclose fd) (call_if (fd \<noteq> 2) (Dup2 fd 2) (call_if (fd \<noteq> 1) (Dup2 fd 1) (call_if (fd \<noteq> 0) (Dup2 fd 0) tr1))))"

definition signal_snapshot :: "guest_os \<Rightarrow> int \<Rightarrow> glog \<Rightarrow> glog option" where
  "signal_snapshot w kmsg tr =
     (let fd = g_ret w tr (Gopen ''/dev/mem''); tr1 = tr @ [Gopen ''/dev/mem'']
      in if fd < 0 then Some tr1
         else (let tr2 = tr1 @ [Mmap_mem fd VMM_MMIO_GPA]
               in if g_ret w tr1 (Mmap_mem fd VMM_MMIO_GPA) < 0 then Some (tr2 @ [Gclose fd])
                  else map_option (\<lambda>tr3. tr3 @ [Mmio_write VMM_MMIO_MAGIC, Munmap_mem, Gclose fd])
                         (log_msg kmsg ''VMTAINER: signalling snapshot'' tr2)))"

definition default_env :: "(string \<rightharpoonup> string) \<Rightarrow> (string \<rightharpoonup> string)" where
  "default_env e =
     setenv ''TERM'' ''xterm'' False (setenv ''HOME'' ''/root'' False
       (setenv ''PATH'' ''/usr/local/sbin:/usr/local/bin:/usr/sbin:/usr/bin:/sbin:/bin'' False e))"

definition set_hostname :: "guest_os \<Rightarrow> string \<Rightarrow> glog \<Rightarrow> glog" where
  "set_hostname w hostname tr =
     (if hostname = '''' then tr
      else (let tr1 = tr @ [Sethostname hostname]; c = Gopen ''/proc/sys/kernel/hostname''; fd = g_ret w tr1 c
            in if fd < 0 then tr1 @ [c] else tr1 @ [c, Gwrite fd hostname, Gclose fd]))"

definition share_mounts :: glog where
  "share_mounts = [Mkdir ''/share/proc'' 0x1ED, Mkdir ''/share/sys'' 0x1ED, Mkdir ''/share/dev'' 0x1ED, Mkdir ''/share/tmp'' 0x1FF,
     Mkdir ''/share/dev/pts'' 0x1ED, Mkdir ''/share/dev/shm'' 0x1FF,
     Mount ''/proc'' ''/share/proc'' None, Mount ''/sys'' ''/share/sys'' None, Mount ''/dev'' ''/share/dev'' None,
     Mount ''devpts'' ''/share/dev/pts'' (Some ''devpts''),
     Chmod ''/share/dev/null'' 0x1B6, Chmod ''/share/dev/zero'' 0x1B6, Chmod ''/share/dev/console'' 0x1B6, Chmod ''/share/dev/tty'' 0x1B6,
     Chmod ''/share/dev/ttyS0'' 0x1B6, Chmod ''/share/dev/urandom'' 0x1B6]"

text \<open>How \<open>main\<close> ends: by returning, by becoming another program, or in the loop of \<open>cli; hlt\<close>.\<close>

datatype init_end = Init_exit int | Init_exec | Init_hlt

definition run_child :: "guest_os \<Rightarrow> string \<Rightarrow> (string \<rightharpoonup> string) \<Rightarrow> glog \<Rightarrow> init_end \<times> glog" where
  "run_child w entrypoint env tr =
     (let tr1 = tr @ [Chroot ''/share'']
      in if g_ret w tr (Chroot ''/share'') \<noteq> 0 then (Init_exit 1, tr1 @ [Gexit 1])
         else (let tr2 = tr1 @ [Chdir ''/'']
               in if g_ret w tr1 (Chdir ''/'') \<noteq> 0 then (Init_exit 1, tr2 @ [Gexit 1])
                  else (let sh = Execve ''/bin/sh'' [''/bin/sh'', ''-c'', cut_to 1200 (''exec '' @ entrypoint)] env; tr3 = tr2 @ [sh]
                        in if 0 \<le> g_ret w tr2 sh then (Init_exec, tr3)
                           else (let argv = take 63 (strtok (\<lambda>c. c \<in> {CHR '' '', CHR 0x09, CHR 0x0D, NEWLINE}) (cut_to 1024 entrypoint))
                                 in if argv = [] then (Init_exit 127, tr3 @ [Gexit 127])
                                    else (let ex = Execve (hd argv) argv env
                                          in if 0 \<le> g_ret w tr3 ex then (Init_exec, tr3 @ [ex])
                                             else (Init_exit 127, tr3 @ [ex, Gexit 127]))))))"

definition exit_status :: "int \<Rightarrow> nat" where
  "exit_status status = (let s = word_of_int status :: u32 in if s AND 0x7f = 0 then unat (drop_bit 8 s AND 0xff) else 1)"

definition run_entrypoint :: "guest_os \<Rightarrow> int \<Rightarrow> string \<Rightarrow> (string \<rightharpoonup> string) \<Rightarrow> glog \<Rightarrow> (init_end \<times> glog) option" where
  "run_entrypoint w kmsg entrypoint env tr =
     (let tr1 = tr @ share_mounts; stamp = g_data w tr1 Timing
      in case log_msg kmsg (cut_to 1100 (''VMTAINER: running entrypoint: '' @ entrypoint @ stamp)) (tr1 @ [Timing]) of
           None \<Rightarrow> None
         | Some tr2 \<Rightarrow>
             (let pid = g_ret w tr2 Gfork; tr3 = tr2 @ [Gfork]
              in if pid < 0 then Some (Init_exit 1, tr3 @ [Reboot RB_HALT_SYSTEM])
                 else if pid = 0 then Some (run_child w entrypoint env tr3)
                 else map_option (\<lambda>tr4. (Init_hlt, tr4 @ [Gsync, Reboot RB_POWER_OFF]))
                        (log_msg kmsg (''VMTAINER: entrypoint exited ('' @ show_dec (exit_status (g_ret w tr3 (Gwaitpid pid))) @ '')'')
                           (tr3 @ [Gwaitpid pid]))))"

text \<open>Everything after the snapshot: what runs in a restored guest.\<close>

definition after_restore :: "guest_os \<Rightarrow> int \<Rightarrow> (string \<rightharpoonup> string) \<Rightarrow> glog \<Rightarrow> (init_end \<times> glog) option" where
  "after_restore w kmsg env0 tr =
     (let m = Mount ''myfs'' ''/share'' (Some ''virtiofs'')
      in if g_ret w tr m \<noteq> 0
         then map_option (\<lambda>tr1. (Init_exit 1, tr1 @ [Reboot RB_HALT_SYSTEM])) (log_msg kmsg ''VMTAINER: mount failed'' (tr @ [m]))
         else (let (ep, tr1) = read_share w ''/share/.entrypoint'' 1023 (tr @ [m]); entrypoint = read_entrypoint ep;
                   (txt, tr2) = read_share w ''/share/.vmconfig'' 2047 tr1;
                   s = read_vmconfig txt \<lparr>gs_hostname = '''', gs_net_ip = '''', gs_net_gw = '''', gs_env = env0\<rparr>;
                   env = default_env (gs_env s);
                   tr3 = setup_network w (gs_net_ip s) (gs_net_gw s) (set_hostname w (gs_hostname s) tr2)
               in if entrypoint = ''''
                  then map_option (\<lambda>tr4. (Init_exit 0, tr4 @ [Reboot RB_HALT_SYSTEM])) (log_msg kmsg ''VMTAINER: no entrypoint, halting'' tr3)
                  else run_entrypoint w kmsg entrypoint env tr3))"

definition init_main :: "guest_os \<Rightarrow> (string \<rightharpoonup> string) \<Rightarrow> (init_end \<times> glog) option" where
  "init_main w env0 =
     (let kmsg = g_ret w init_mounts (Gopen ''/dev/kmsg'')
      in case log_msg kmsg ''VMTAINER: init starting'' (init_mounts @ [Gopen ''/dev/kmsg'']) of
           None \<Rightarrow> None
         | Some tr1 \<Rightarrow>
             (case signal_snapshot w kmsg (bind_console w tr1) of
                None \<Rightarrow> None
              | Some tr2 \<Rightarrow> after_restore w kmsg env0 tr2))"

section \<open>Addresses\<close>

lemma split_on_plain: "c \<notin> set x \<Longrightarrow> split_on c x = [x]"
  by (induction x) auto

lemma split_on_join: "c \<notin> set x \<Longrightarrow> split_on c (x @ c # s) = x # split_on c s"
  by (induction x) auto

lemma show_dec_set: "c \<in> set (show_dec n) \<Longrightarrow> \<exists>d < 10. c = digit_of d"
proof (induction n rule: show_dec.induct)
  case (1 n)
  show ?case
  proof (cases "n < 10")
    case True
    with 1 show ?thesis by (auto simp: show_dec.simps [of n])
  next
    case False
    have "n mod 10 < 10" by simp
    with False 1 show ?thesis by (auto simp: show_dec.simps [of n] simp del: mod_less_divisor)
  qed
qed

lemma digit_of_inj: "d < 16 \<Longrightarrow> d' < 16 \<Longrightarrow> digit_of d = digit_of d' \<Longrightarrow> d = d'"
  using digit_val_of by (metis option.inject)

lemma show_dec_head_pos: "0 < n \<Longrightarrow> \<exists>d r. 0 < d \<and> d < 10 \<and> show_dec n = digit_of d # r"
proof (induction n rule: show_dec.induct)
  case (1 n)
  show ?case
  proof (cases "n < 10")
    case True
    with 1(2) show ?thesis by (auto simp: show_dec.simps [of n])
  next
    case False
    then have "0 < n div 10" by (simp add: div_greater_zero_iff)
    from 1(1) [OF False this] obtain d r where "0 < d" "d < 10" "show_dec (n div 10) = digit_of d # r" by blast
    then show ?thesis using False by (auto simp: show_dec.simps [of n])
  qed
qed

lemma read_show_dec: "read_digits 10 0 (show_dec n) = (n, [])"
proof -
  from read_digits_dec [of n] obtain k where "\<forall>v s. read_digits 10 v (show_dec n @ s) = read_digits 10 (v * 10 ^ k + n) s" by blast
  from this [rule_format, of 0 "[]"] show ?thesis by simp
qed

lemma octet_show_dec: "n < 256 \<Longrightarrow> octet_of (show_dec n) = Some n"
proof -
  assume n: "n < 256"
  have "\<not> (hd (show_dec n) = CHR ''0'' \<and> 1 < length (show_dec n))"
  proof (cases "n = 0")
    case True
    then show ?thesis by (simp add: show_dec.simps)
  next
    case False
    then obtain d r where d: "0 < d" "d < 10" "show_dec n = digit_of d # r" using show_dec_head_pos by blast
    have "CHR ''0'' = digit_of 0" by (simp add: digit_of_def char_of_def bit_0)
    then show ?thesis using d digit_of_inj [of d 0] by auto
  qed
  with n show ?thesis by (simp add: octet_of_def read_show_dec)
qed

lemma show_dec_only_digits: "digit_val c = None \<Longrightarrow> c \<notin> set (show_dec n)"
proof
  assume "digit_val c = None" "c \<in> set (show_dec n)"
  then obtain d where "d < 10" "digit_val (digit_of d) = None" using show_dec_set by blast
  then show False by simp
qed

lemma show_dec_no_dot: "CHR ''.'' \<notin> set (show_dec n)" "CHR ''/'' \<notin> set (show_dec n)" "NUL \<notin> set (show_dec n)"
  by (rule show_dec_only_digits, simp add: digit_val_def)+

lemma inet_pton_ntop: "inet_pton (inet_ntop x) = Some x"
proof -
  define n where "n = unat x"
  have n: "n < 2 ^ 32" using unsigned_less [of x, where 'a = nat] by (simp add: n_def)
  have o: "n div 16777216 < 256" "n div 65536 mod 256 < 256" "n div 256 mod 256 < 256" "n mod 256 < 256" using n by simp_all
  have "split_on (CHR ''.'') (inet_ntop x) = map show_dec [n div 16777216, n div 65536 mod 256, n div 256 mod 256, n mod 256]"
    by (simp add: inet_ntop_def join_with_def n_def [symmetric] Let_def split_on_join [OF show_dec_no_dot(1)] split_on_plain [OF show_dec_no_dot(1)])
  then have "inet_pton (inet_ntop x) = Some (of_nat (((n div 16777216 * 256 + n div 65536 mod 256) * 256 + n div 256 mod 256) * 256 + n mod 256))"
    using o by (simp add: inet_pton_def octet_show_dec)
  also have "((n div 16777216 * 256 + n div 65536 mod 256) * 256 + n div 256 mod 256) * 256 + n mod 256 = n"
    using div_mult2_eq [of n 65536 256] div_mult2_eq [of n 256 256] by (simp add: div_mult_mod_eq)
  finally show ?thesis by (simp add: n_def)
qed

lemma atoi_show_dec: "n < 2 ^ 31 \<Longrightarrow> atoi (show_dec n) = int n"
proof -
  assume n: "n < 2 ^ 31"
  obtain d r where d: "d < 10" "show_dec n = digit_of d # r" using show_dec_head by blast
  have "read_sign (dropWhile is_space (show_dec n)) = (False, show_dec n)" using digit_of_plain [of d] d by (simp add: read_sign_def)
  then have "atoi (show_dec n) = signed_take_bit 31 (int n)" using n by (simp add: atoi_def read_show_dec)
  also have "\<dots> = int n" using n by (simp add: signed_take_bit_int_eq_self)
  finally show ?thesis .
qed

lemma length_show_octet: "n < 256 \<Longrightarrow> length (show_dec n) \<le> 3"
  by (simp add: show_dec.simps [of n] show_dec.simps [of "n div 10"] show_dec.simps [of "n div 10 div 10"])

lemma inet_ntop_short: "length (inet_ntop x) \<le> 15" and inet_ntop_plain: "CHR ''/'' \<notin> set (inet_ntop x)" "NUL \<notin> set (inet_ntop x)"
proof -
  define n where "n = unat x"
  have n: "n < 2 ^ 32" using unsigned_less [of x, where 'a = nat] by (simp add: n_def)
  have o: "n div 16777216 < 256" "n div 65536 mod 256 < 256" "n div 256 mod 256 < 256" "n mod 256 < 256" using n by simp_all
  have i: "inet_ntop x = show_dec (n div 16777216) @ ''.'' @ show_dec (n div 65536 mod 256) @ ''.'' @ show_dec (n div 256 mod 256) @ ''.'' @ show_dec (n mod 256)"
    by (simp add: inet_ntop_def join_with_def n_def [symmetric] Let_def)
  show "length (inet_ntop x) \<le> 15" using o [THEN length_show_octet] by (simp add: i)
  show "CHR ''/'' \<notin> set (inet_ntop x)" "NUL \<notin> set (inet_ntop x)" using show_dec_no_dot by (simp_all add: i)
qed

text \<open>
  Claim C23.  The guest's interface gets the configured address.  For an address with prefix length \<open>p\<close>, written in the usual
  way, and a gateway, the guest's network set-up brings the interface up and sets exactly that address,
  the netmask whose upper \<open>p\<close> bits are ones, and the default route, in this order.
\<close>

theorem guest_network_set:
  assumes "0 \<le> g_ret g tr Inet_socket" and "0 \<le> g_ret g (tr @ [Inet_socket]) Get_if_flags" and "p \<le> 32"
  shows "\<exists>m. setup_network g (inet_ntop ip @ ''/'' @ show_dec p) (inet_ntop gw) tr =
      tr @ [Inet_socket, Get_if_flags, Set_if_flags, Set_if_addr ip, Set_if_netmask m, Add_route gw, Gclose (g_ret g tr Inet_socket)] \<and>
    (\<forall>i < 32. bit m i \<longleftrightarrow> 32 - p \<le> i)"
proof -
  let ?c = "inet_ntop ip @ ''/'' @ show_dec p"
  let ?m = "(if p = 0 then 0 else push_bit (32 - p) (NOT 0)) :: u32"
  have "length ?c < 64" using inet_ntop_short [of ip] length_show_octet [of p] assms(3) by simp
  then have cut: "cut_to 64 ?c = ?c" by (simp add: cut_to_def)
  have "takeWhile (\<lambda>x. x \<noteq> CHR ''/'' \<and> x \<noteq> NUL) ?c = inet_ntop ip" using inet_ntop_plain [of ip] by (subst takeWhile_append2) auto
  then have s: "strchr ?c (CHR ''/'') = Some (length (inet_ntop ip))" by (simp add: strchr_def Let_def)
  have "nat (min 32 (max 0 (int p))) = p" using assms(3) by simp
  then have "prefix_to_mask (int p) = inet_ntop ?m" unfolding prefix_to_mask_def Let_def by (simp only:)
  moreover have "split_cidr ?c = (inet_ntop ip, prefix_to_mask (int p))"
    unfolding split_cidr_def Let_def cut s option.case using assms(3) by (simp add: atoi_show_dec)
  moreover have "?c \<noteq> ''''" "inet_ntop gw \<noteq> ''''" by (simp_all add: inet_ntop_def join_with_def Let_def)
  ultimately have "setup_network g ?c (inet_ntop gw) tr =
      tr @ [Inet_socket, Get_if_flags, Set_if_flags, Set_if_addr ip, Set_if_netmask ?m, Add_route gw, Gclose (g_ret g tr Inet_socket)]"
    using assms(1,2) by (simp add: setup_network_def Let_def inet_pton_ntop call_if_def)
  moreover have "\<forall>i < 32. bit ?m i \<longleftrightarrow> 32 - p \<le> i" using assms(3) by (auto simp: bit_simps)
  ultimately show ?thesis by blast
qed

theorem guest_network_set_witness:
  "\<exists>m. setup_network \<lparr>g_ret = (\<lambda>_ _. 3), g_data = (\<lambda>_ _. '''')\<rparr> (inet_ntop 0x0a000002 @ ''/'' @ show_dec 24) (inet_ntop 0x0a000001) [] =
      [Inet_socket, Get_if_flags, Set_if_flags, Set_if_addr 0x0a000002, Set_if_netmask m, Add_route 0x0a000001, Gclose 3] \<and>
    (\<forall>i < 32. bit m i \<longleftrightarrow> 8 \<le> i)"
  using guest_network_set [of "\<lparr>g_ret = (\<lambda>_ _. 3), g_data = (\<lambda>_ _. '''')\<rparr>" "[]" 24 "0x0a000002" "0x0a000001"] by simp

section \<open>Order of the steps\<close>

fun is_exec :: "guest_call \<Rightarrow> bool" where
  "is_exec (Execve _ _ _) \<longleftrightarrow> True"
| "is_exec _ \<longleftrightarrow> False"

fun is_mmio :: "guest_call \<Rightarrow> bool" where
  "is_mmio (Mmio_write _) \<longleftrightarrow> True"
| "is_mmio _ \<longleftrightarrow> False"

definition quiet :: "glog \<Rightarrow> bool" where
  "quiet cs \<longleftrightarrow> (\<forall>c \<in> set cs. \<not> is_exec c \<and> \<not> is_mmio c)"

lemma quiet_simps [simp]: "quiet []" "quiet (c # cs) \<longleftrightarrow> \<not> is_exec c \<and> \<not> is_mmio c \<and> quiet cs" "quiet (xs @ ys) \<longleftrightarrow> quiet xs \<and> quiet ys"
  by (auto simp: quiet_def)

lemma log_msg_quiet: "log_msg fd msg t = Some t' \<Longrightarrow> \<exists>cs. t' = t @ cs \<and> quiet cs"
  by (auto simp: log_msg_def split: if_splits)

lemma read_share_quiet: "\<exists>cs. snd (read_share g p n t) = t @ cs \<and> quiet cs"
  by (simp add: read_share_def Let_def)

lemma set_hostname_quiet: "\<exists>cs. set_hostname g h t = t @ cs \<and> quiet cs"
  by (simp add: set_hostname_def Let_def)

lemma setup_network_quiet: "\<exists>cs. setup_network g a b t = t @ cs \<and> quiet cs"
  by (auto simp: setup_network_def call_if_def Let_def case_prod_beta split: option.splits)

lemma bind_console_quiet: "\<exists>cs. bind_console g t = t @ cs \<and> quiet cs"
  by (simp add: bind_console_def call_if_def Let_def)

lemma share_mounts_quiet: "quiet share_mounts"
  by (simp add: share_mounts_def)

lemma signal_snapshot_log:
  assumes "signal_snapshot g fd t = Some t'"
  shows "\<exists>cs. t' = t @ cs \<and> filter is_exec cs = [] \<and> length (filter is_mmio cs) \<le> 1"
  using assms log_msg_quiet by (fastforce simp: signal_snapshot_def quiet_def filter_empty_conv Let_def split: if_splits)

lemma run_child_log:
  "\<exists>cs. snd (run_child g e env t) = t @ Chroot ''/share'' # cs \<and> filter is_mmio cs = [] \<and>
    (g_ret g t (Chroot ''/share'') = 0 \<or> filter is_exec cs = [])"
  by (auto simp: run_child_def Let_def)

text \<open>A log in which a program is executed only after a successful \<open>chroot\<close>, and no signal is given.\<close>

definition confined :: "guest_os \<Rightarrow> glog \<Rightarrow> glog \<Rightarrow> bool" where
  "confined g t cs \<longleftrightarrow> filter is_mmio cs = [] \<and>
     (filter is_exec cs = [] \<or>
      (\<exists>c1 c2. cs = c1 @ Chroot ''/share'' # c2 \<and> filter is_exec c1 = [] \<and> g_ret g (t @ c1) (Chroot ''/share'') = 0))"

lemma confined_quiet: "quiet cs \<Longrightarrow> confined g t cs"
  by (simp add: confined_def quiet_def filter_empty_conv)

lemma confined_append:
  assumes "quiet xs" and "confined g (t @ xs) ys"
  shows "confined g t (xs @ ys)"
proof (cases "filter is_exec ys = []")
  case True
  with assms show ?thesis by (simp add: confined_def quiet_def filter_empty_conv)
next
  case False
  with assms(2) obtain c1 c2 where "ys = c1 @ Chroot ''/share'' # c2" "filter is_exec c1 = []" "g_ret g (t @ xs @ c1) (Chroot ''/share'') = 0"
    by (auto simp: confined_def)
  with assms show ?thesis unfolding confined_def
    by (intro conjI disjI2 exI [of _ "xs @ c1"] exI [of _ c2]) (auto simp: quiet_def filter_empty_conv)
qed

lemma run_child_confined: "\<exists>cs. snd (run_child g e env t) = t @ cs \<and> confined g t cs"
proof -
  from run_child_log [of g e env t] obtain cs where
    "snd (run_child g e env t) = t @ Chroot ''/share'' # cs" "filter is_mmio cs = []" "g_ret g t (Chroot ''/share'') = 0 \<or> filter is_exec cs = []" by blast
  then show ?thesis by (intro exI [of _ "Chroot ''/share'' # cs"]) (fastforce simp: confined_def intro: exI [of _ "[]"])
qed

lemma run_entrypoint_confined:
  assumes "run_entrypoint g kmsg e env t = Some (r, t')"
  shows "\<exists>cs. t' = t @ cs \<and> confined g t cs"
proof -
  let ?t1 = "(t @ share_mounts) @ [Timing]"
  from assms obtain t2 where t2: "log_msg kmsg (cut_to 1100 (''VMTAINER: running entrypoint: '' @ e @ g_data g (t @ share_mounts) Timing)) ?t1 = Some t2"
    unfolding run_entrypoint_def Let_def by (auto split: option.splits)
  from log_msg_quiet [OF t2] obtain c2 where c2: "t2 = ?t1 @ c2" "quiet c2" by blast
  let ?q = "share_mounts @ [Timing] @ c2 @ [Gfork]" and ?pid = "g_ret g t2 Gfork"
  have q: "quiet ?q" "t2 @ [Gfork] = t @ ?q" using c2 share_mounts_quiet by simp_all
  note run = assms [unfolded run_entrypoint_def Let_def t2 option.case]
  consider "?pid < 0" | "?pid = 0" | "0 < ?pid" by linarith
  then show ?thesis
  proof cases
    case 1
    with run have "t' = (t2 @ [Gfork]) @ [Reboot RB_HALT_SYSTEM]" by simp
    then show ?thesis using q unfolding q(2) by (intro exI [of _ "?q @ [Reboot RB_HALT_SYSTEM]"]) (simp add: confined_quiet)
  next
    case 2
    with run have "t' = snd (run_child g e env (t2 @ [Gfork]))" by (metis less_irrefl option.inject snd_conv)
    moreover from run_child_confined [of g e env "t2 @ [Gfork]"] obtain cs where
      "snd (run_child g e env (t2 @ [Gfork])) = (t2 @ [Gfork]) @ cs" "confined g (t2 @ [Gfork]) cs" by blast
    ultimately show ?thesis using confined_append [OF q(1)] unfolding q(2) by (intro exI [of _ "?q @ cs"]) simp
  next
    case 3
    with run obtain t4 where t4: "log_msg kmsg (''VMTAINER: entrypoint exited ('' @ show_dec (exit_status (g_ret g (t2 @ [Gfork]) (Gwaitpid ?pid))) @ '')'')
        ((t2 @ [Gfork]) @ [Gwaitpid ?pid]) = Some t4" "t' = t4 @ [Gsync, Reboot RB_POWER_OFF]" by auto
    from log_msg_quiet [OF t4(1)] obtain c4 where "t4 = ((t2 @ [Gfork]) @ [Gwaitpid ?pid]) @ c4" "quiet c4" by blast
    then show ?thesis using q t4(2) unfolding q(2)
      by (intro exI [of _ "?q @ [Gwaitpid ?pid] @ c4 @ [Gsync, Reboot RB_POWER_OFF]"]) (simp add: confined_quiet)
  qed
qed

lemma after_restore_confined:
  assumes "after_restore g kmsg env0 t = Some (r, t')"
  shows "\<exists>cs. t' = t @ Mount ''myfs'' ''/share'' (Some ''virtiofs'') # cs \<and> confined g (t @ [Mount ''myfs'' ''/share'' (Some ''virtiofs'')]) cs \<and>
    (g_ret g t (Mount ''myfs'' ''/share'' (Some ''virtiofs'')) = 0 \<or> filter is_exec cs = [])"
proof -
  define m where "m = Mount ''myfs'' ''/share'' (Some ''virtiofs'')"
  note run = assms [unfolded after_restore_def Let_def m_def [symmetric]]
  show ?thesis unfolding m_def [symmetric]
  proof (cases "g_ret g t m = 0")
    case False
    with run obtain t1 where t1: "log_msg kmsg ''VMTAINER: mount failed'' (t @ [m]) = Some t1" "t' = t1 @ [Reboot RB_HALT_SYSTEM]" by auto
    from log_msg_quiet [OF t1(1)] obtain c where "t1 = (t @ [m]) @ c" "quiet c" by blast
    then show "\<exists>cs. t' = t @ m # cs \<and> confined g (t @ [m]) cs \<and> (g_ret g t m = 0 \<or> filter is_exec cs = [])"
      using t1(2) by (intro exI [of _ "c @ [Reboot RB_HALT_SYSTEM]"]) (simp add: confined_quiet quiet_def filter_empty_conv)
  next
    case True
    obtain ep t1 where 1: "read_share g ''/share/.entrypoint'' 1023 (t @ [m]) = (ep, t1)" by fastforce
    obtain vc t2 where 2: "read_share g ''/share/.vmconfig'' 2047 t1 = (vc, t2)" by fastforce
    define s where "s = read_vmconfig vc \<lparr>gs_hostname = '''', gs_net_ip = '''', gs_net_gw = '''', gs_env = env0\<rparr>"
    define t3 where "t3 = setup_network g (gs_net_ip s) (gs_net_gw s) (set_hostname g (gs_hostname s) t2)"
    obtain c1 where c1: "t1 = (t @ [m]) @ c1" "quiet c1" using read_share_quiet [of g "''/share/.entrypoint''" 1023 "t @ [m]"] 1 by auto
    obtain c2 where c2: "t2 = t1 @ c2" "quiet c2" using read_share_quiet [of g "''/share/.vmconfig''" 2047 t1] 2 by auto
    obtain c3 where c3: "t3 = t2 @ c3" "quiet c3"
      using set_hostname_quiet [of g "gs_hostname s" t2] setup_network_quiet [of g "gs_net_ip s" "gs_net_gw s" "set_hostname g (gs_hostname s) t2"]
      unfolding t3_def by (metis append_assoc quiet_simps(3))
    have r: "(if read_entrypoint ep = '''' then map_option (\<lambda>t4. (Init_exit 0, t4 @ [Reboot RB_HALT_SYSTEM])) (log_msg kmsg ''VMTAINER: no entrypoint, halting'' t3)
        else run_entrypoint g kmsg (read_entrypoint ep) (default_env (gs_env s)) t3) = Some (r, t')"
      using run True unfolding 1 prod.case 2 s_def [symmetric] t3_def [symmetric] by simp
    have "\<exists>cs. t' = t3 @ cs \<and> confined g t3 cs"
    proof (cases "read_entrypoint ep = ''''")
      case True
      with r obtain t4 where t4: "log_msg kmsg ''VMTAINER: no entrypoint, halting'' t3 = Some t4" "t' = t4 @ [Reboot RB_HALT_SYSTEM]" by auto
      from log_msg_quiet [OF t4(1)] obtain c where "t4 = t3 @ c" "quiet c" by blast
      then show ?thesis using t4(2) by (intro exI [of _ "c @ [Reboot RB_HALT_SYSTEM]"]) (simp add: confined_quiet)
    next
      case False
      with r have "run_entrypoint g kmsg (read_entrypoint ep) (default_env (gs_env s)) t3 = Some (r, t')" by simp
      then show ?thesis by (rule run_entrypoint_confined)
    qed
    then obtain cs where cs: "t' = t3 @ cs" "confined g t3 cs" by blast
    have "confined g (t @ [m]) ((c1 @ c2 @ c3) @ cs)"
      by (rule confined_append) (use c1 c2 c3 cs(2) in simp_all)
    then show "\<exists>cs. t' = t @ m # cs \<and> confined g (t @ [m]) cs \<and> (g_ret g t m = 0 \<or> filter is_exec cs = [])"
      using True cs(1) c1 c2 c3 by (intro exI [of _ "(c1 @ c2 @ c3) @ cs"]) simp
  qed
qed

lemma signal_snapshot_signals:
  assumes "signal_snapshot g fd t = Some t'" and "\<forall>t. 0 \<le> g_ret g t (Gopen ''/dev/mem'')" and "\<forall>t fd. 0 \<le> g_ret g t (Mmap_mem fd VMM_MMIO_GPA)"
  shows "filter is_mmio t' = filter is_mmio t @ [Mmio_write VMM_MMIO_MAGIC]"
proof -
  let ?m = "g_ret g t (Gopen ''/dev/mem'')" let ?t = "t @ [Gopen ''/dev/mem'', Mmap_mem ?m VMM_MMIO_GPA]"
  have n: "\<not> ?m < 0" "\<not> g_ret g (t @ [Gopen ''/dev/mem'']) (Mmap_mem ?m VMM_MMIO_GPA) < 0" using assms(2,3) by (simp_all add: not_less)
  have "signal_snapshot g fd t = map_option (\<lambda>t3. t3 @ [Mmio_write VMM_MMIO_MAGIC, Munmap_mem, Gclose ?m]) (log_msg fd ''VMTAINER: signalling snapshot'' ?t)"
    by (simp add: signal_snapshot_def Let_def n)
  with assms(1) obtain t3 where t3: "log_msg fd ''VMTAINER: signalling snapshot'' ?t = Some t3"
    "t' = t3 @ [Mmio_write VMM_MMIO_MAGIC, Munmap_mem, Gclose ?m]" by auto
  from log_msg_quiet [OF t3(1)] obtain c where "t3 = ?t @ c" "filter is_mmio c = []" by (auto simp: quiet_def filter_empty_conv)
  then show ?thesis by (simp add: t3(2))
qed

lemma init_main_signals:
  assumes "init_main g env0 = Some (e, tr)" and "\<forall>t. 0 \<le> g_ret g t (Gopen ''/dev/mem'')" and "\<forall>t fd. 0 \<le> g_ret g t (Mmap_mem fd VMM_MMIO_GPA)"
  shows "filter is_mmio tr = [Mmio_write VMM_MMIO_MAGIC]"
proof -
  let ?k = "g_ret g init_mounts (Gopen ''/dev/kmsg'')"
  from assms obtain a b where a: "log_msg ?k ''VMTAINER: init starting'' (init_mounts @ [Gopen ''/dev/kmsg'']) = Some a"
    and b: "signal_snapshot g ?k (bind_console g a) = Some b" and r: "after_restore g ?k env0 b = Some (e, tr)"
    by (auto simp: init_main_def Let_def split: option.splits)
  from log_msg_quiet [OF a] bind_console_quiet [of g a] obtain c1 c2 where
    "bind_console g a = (init_mounts @ [Gopen ''/dev/kmsg'']) @ c1 @ c2" "quiet c1" "quiet c2" by auto
  then have "filter is_mmio (bind_console g a) = []" by (auto simp: quiet_def filter_empty_conv init_mounts_def)
  with signal_snapshot_signals [OF b assms(2,3)] have "filter is_mmio b = [Mmio_write VMM_MMIO_MAGIC]" by simp
  with after_restore_confined [OF r] show ?thesis by (auto simp: confined_def)
qed



end
