(* ===== verification/Config_To_Guest.thy ===== *)
theory Config_To_Guest
  imports Config Guest_Init
begin

text \<open>
  The way of the configuration from the host's file to the guest's settings: \<open>write_config_to_share\<close> on the host
  and \<open>init\<close> in the guest read and write the same files.
\<close>

definition line_end :: "char \<Rightarrow> bool" where
  "line_end = (\<lambda>c. c = CHR 0x0D \<or> c = NEWLINE)"

lemma strtok_line:
  assumes "x \<noteq> []" and "\<forall>c \<in> set x. \<not> d c" and "d e"
  shows "strtok d (x @ e # s) = x # strtok d s"
proof -
  have 1: "dropWhile d (x @ e # s) = x @ e # s" using assms(1,2) by (cases x) auto
  have 2: "takeWhile (\<lambda>c. \<not> d c) (x @ e # s) = x" "dropWhile (\<lambda>c. \<not> d c) (x @ e # s) = e # s"
    using assms(2,3) by (simp_all add: takeWhile_tail dropWhile_append2)
  have 3: "strtok d (e # s) = strtok d s" using assms(3) by (simp add: strtok.simps [of d "e # s"] strtok.simps [of d s])
  show ?thesis using assms(1) by (subst strtok.simps) (simp only: Let_def 1 2 3, simp)
qed

lemma strtok_Nil [simp]: "strtok d [] = []"
  by (simp add: strtok.simps)

text \<open>Text that stays on one line.\<close>

definition one_line :: "string \<Rightarrow> bool" where
  "one_line s \<longleftrightarrow> CHR 0x0D \<notin> set s \<and> NEWLINE \<notin> set s \<and> NUL \<notin> set s"

definition config_lines :: "string \<Rightarrow> guest_settings \<Rightarrow> guest_settings" where
  "config_lines txt s = fold config_line_in (strtok line_end txt) s"

lemma config_lines_Nil [simp]: "config_lines [] s = s"
  by (simp add: config_lines_def)

lemma config_lines_line:
  assumes "x \<noteq> []" and "one_line x"
  shows "config_lines (x @ NEWLINE # t) s = config_lines t (config_line_in x s)"
  unfolding config_lines_def
  by (subst strtok_line [OF assms(1)]) (use assms(2) in \<open>auto simp: one_line_def line_end_def\<close>)

lemma config_line_in_plain:
  assumes "k \<in> {''HOSTNAME'', ''NET_IP'', ''NET_GW'', ''NET_MAC''}"
  shows "config_line_in (k @ ''='' @ v) s = config_entry k (unquote v) s"
proof -
  have "strchr (k @ ''='' @ v) (CHR ''='') = Some (length k)"
    using strchr_first [of "CHR ''=''" k v] assms by auto
  then show ?thesis using assms by (auto simp: config_line_in_def)
qed

lemma config_line_in_env:
  assumes "CHR ''='' \<notin> set k" and "NUL \<notin> set k"
  shows "config_line_in (''export '' @ k @ ''='' @ v) s = config_entry k (unquote v) s"
    and "config_line_in (''ENV_'' @ k @ ''='' @ v) s = config_entry (''ENV_'' @ k) (unquote v) s"
proof -
  have "strchr (k @ ''='' @ v) (CHR ''='') = Some (length k)" using strchr_first [of "CHR ''=''" k v] assms by simp
  then show "config_line_in (''export '' @ k @ ''='' @ v) s = config_entry k (unquote v) s" by (simp add: config_line_in_def)
  have "strchr ((''ENV_'' @ k) @ ''='' @ v) (CHR ''='') = Some (length (''ENV_'' @ k))"
    using strchr_first [of "CHR ''=''" "''ENV_'' @ k" v] assms by simp
  then show "config_line_in (''ENV_'' @ k @ ''='' @ v) s = config_entry (''ENV_'' @ k) (unquote v) s"
    by (simp add: config_line_in_def)
qed

lemma unquote_quoted [simp]: "unquote (quoted v) = v"
  by (simp add: unquote_def quoted_def butlast_append)

lemma unquote_id: "v = [] \<or> hd v \<noteq> QUOTE \<and> hd v \<noteq> CHR 0x27 \<Longrightarrow> unquote v = v"
  by (auto simp: unquote_def)

text \<open>
  A configuration that can be handed over: values on one line that do not begin with a quotation mark,
  and names of variables that are neither empty nor one of the settings' own.
\<close>

definition env_name_ok :: "string \<Rightarrow> bool" where
  "env_name_ok k \<longleftrightarrow> k \<noteq> '''' \<and> one_line k \<and> CHR ''='' \<notin> set k \<and> take 4 k \<noteq> ''ENV_'' \<and>
     k \<notin> {''HOSTNAME'', ''NET_IP'', ''NET_GW''}"

definition value_ok :: "nat \<Rightarrow> string \<Rightarrow> bool" where
  "value_ok n v \<longleftrightarrow> one_line v \<and> length v < n \<and> (v = [] \<or> hd v \<noteq> QUOTE \<and> hd v \<noteq> CHR 0x27)"

definition handover_ok :: "vm_config \<Rightarrow> bool" where
  "handover_ok cfg \<longleftrightarrow> value_ok 256 (cfg_hostname cfg) \<and> value_ok 64 (cfg_ip cfg) \<and> value_ok 64 (cfg_gateway cfg) \<and>
     length (cfg_mac cfg) = 6 \<and> (\<forall>(k, v) \<in> set (cfg_env cfg). env_name_ok k \<and> one_line v)"

definition env_of :: "(string \<times> string) list \<Rightarrow> (string \<rightharpoonup> string) \<Rightarrow> (string \<rightharpoonup> string)" where
  "env_of es e = fold (\<lambda>(k, v) m. m(''ENV_'' @ k \<mapsto> v, k \<mapsto> v)) es e"

lemma env_of_Cons: "env_of ((k, v) # es) e = env_of es (e(''ENV_'' @ k \<mapsto> v, k \<mapsto> v))"
  unfolding env_of_def fold.simps comp_apply case_prod_conv ..

lemma cut_to_id: "length v < n \<Longrightarrow> cut_to n v = v"
  by (simp add: cut_to_def)

lemma config_lines_field:
  assumes "k \<in> {''HOSTNAME'', ''NET_IP'', ''NET_GW'', ''NET_MAC''}" and "value_ok n v"
  shows "config_lines (config_line k v @ t) s = config_lines t (if v = [] then s else config_entry k v s)"
proof (cases "v = []")
  case False
  have l: "k @ ''='' @ v \<noteq> []" "one_line (k @ ''='' @ v)" using assms by (auto simp: one_line_def value_ok_def)
  have "config_line k v @ t = (k @ ''='' @ v) @ NEWLINE # t" using False by (simp add: config_line_def)
  then show ?thesis
    using config_lines_line [OF l, of t s] config_line_in_plain [OF assms(1), of v s] unquote_id [of v] assms(2) False
    by (simp add: value_ok_def)
qed (simp add: config_line_def)

lemma config_entry_env:
  assumes "env_name_ok k"
  shows "config_entry (''ENV_'' @ k) v (config_entry k v s) = s\<lparr>gs_env := (gs_env s)(''ENV_'' @ k \<mapsto> v, k \<mapsto> v)\<rparr>"
  using assms by (auto simp: config_entry_def env_name_ok_def setenv_def Let_def fun_upd_twist)

lemma gs_env_sel: "gs_env (s\<lparr>gs_env := m\<rparr>) = m"
  by (cases s) simp

lemma gs_env_twice: "s\<lparr>gs_env := m\<rparr>\<lparr>gs_env := m'\<rparr> = s\<lparr>gs_env := m'\<rparr>"
  by (cases s) simp

lemma env_prems: "\<forall>x \<in> set (e # es). P x \<Longrightarrow> \<forall>x \<in> set es. P x"
  by simp

lemma config_lines_envs:
  assumes "\<forall>(k, v) \<in> set es. env_name_ok k \<and> one_line v"
  shows "config_lines (concat (map env_lines es)) s = s\<lparr>gs_env := env_of es (gs_env s)\<rparr>"
  using assms
proof (induction es arbitrary: s)
  case Nil
  then show ?case by (simp add: env_of_def)
next
  case (Cons e es)
  obtain k v where e: "e = (k, v)" by fastforce
  with Cons.prems have ok: "env_name_ok k" "one_line v" by auto
  then have o: "one_line (''export '' @ k @ ''='' @ quoted v)" "one_line (''ENV_'' @ k @ ''='' @ quoted v)" "CHR ''='' \<notin> set k" "NUL \<notin> set k"
    by (auto simp: one_line_def env_name_ok_def quoted_def)
  let ?t = "concat (map env_lines es)"
  have "env_lines e @ ?t = (''export '' @ k @ ''='' @ quoted v) @ NEWLINE # (''ENV_'' @ k @ ''='' @ quoted v) @ NEWLINE # ?t"
    by (simp add: e env_lines_def)
  then have "config_lines (env_lines e @ ?t) s = config_lines ?t (config_entry (''ENV_'' @ k) v (config_entry k v s))"
    using config_lines_line [OF _ o(1)] config_lines_line [OF _ o(2)] config_line_in_env [OF o(3,4)] by simp
  also have "\<dots> = config_lines ?t (s\<lparr>gs_env := (gs_env s)(''ENV_'' @ k \<mapsto> v, k \<mapsto> v)\<rparr>)" by (simp only: config_entry_env [OF ok(1)])
  also have "\<dots> = s\<lparr>gs_env := env_of es ((gs_env s)(''ENV_'' @ k \<mapsto> v, k \<mapsto> v))\<rparr>"
    using Cons.IH [of "s\<lparr>gs_env := (gs_env s)(''ENV_'' @ k \<mapsto> v, k \<mapsto> v)\<rparr>", OF env_prems [OF Cons.prems]] unfolding gs_env_sel gs_env_twice .
  finally show ?case by (simp only: list.map concat.simps e env_of_Cons)
qed

lemma entry_settings:
  "value_ok 256 v \<Longrightarrow> gs_hostname s = '''' \<Longrightarrow> (if v = [] then s else config_entry ''HOSTNAME'' v s) = s\<lparr>gs_hostname := v\<rparr>"
  "value_ok 64 v \<Longrightarrow> gs_net_ip s = '''' \<Longrightarrow> (if v = [] then s else config_entry ''NET_IP'' v s) = s\<lparr>gs_net_ip := v\<rparr>"
  "value_ok 64 v \<Longrightarrow> gs_net_gw s = '''' \<Longrightarrow> (if v = [] then s else config_entry ''NET_GW'' v s) = s\<lparr>gs_net_gw := v\<rparr>"
  "config_entry ''NET_MAC'' v s = s\<lparr>gs_env := (gs_env s)(''NET_MAC'' \<mapsto> v)\<rparr>"
  by (simp_all add: config_entry_def value_ok_def cut_to_id setenv_def)

lemma show_mac_value:
  assumes "length m = 6"
  shows "value_ok 32 (show_mac m)" and "show_mac m \<noteq> []"
proof -
  have l: "length (show_mac m) = 17" by (rule length_show_mac [OF assms])
  then show "show_mac m \<noteq> []" by auto
  then have "hd (show_mac m) \<in> set (show_mac m)" by simp
  moreover have "x \<notin> {QUOTE, NUL, NEWLINE, CHR 0x0D, CHR 0x27}" if "x \<in> set (show_mac m)" for x
    using show_mac_set [OF that] digit_of_clean by auto
  ultimately show "value_ok 32 (show_mac m)" using l by (auto simp: value_ok_def one_line_def)
qed

lemma read_vmconfig_text:
  assumes "handover_ok cfg" and "length (vmconfig_text cfg) \<le> 2047"
    and "gs_hostname s = ''''" and "gs_net_ip s = ''''" and "gs_net_gw s = ''''"
  shows "read_vmconfig (vmconfig_text cfg) s =
    \<lparr>gs_hostname = cfg_hostname cfg, gs_net_ip = cfg_ip cfg, gs_net_gw = cfg_gateway cfg,
     gs_env = env_of (cfg_env cfg) (if cfg_has_net cfg then (gs_env s)(''NET_MAC'' \<mapsto> show_mac (cfg_mac cfg)) else gs_env s)\<rparr>"
proof -
  have ok: "value_ok 256 (cfg_hostname cfg)" "value_ok 64 (cfg_ip cfg)" "value_ok 64 (cfg_gateway cfg)" "length (cfg_mac cfg) = 6"
    "\<forall>(k, v) \<in> set (cfg_env cfg). env_name_ok k \<and> one_line v" using assms(1) by (simp_all add: handover_ok_def)
  let ?m = "show_mac (cfg_mac cfg)"
  note mac = show_mac_value [OF ok(4)]
  have split: "vmconfig_text cfg = config_line ''HOSTNAME'' (cfg_hostname cfg) @ config_line ''NET_IP'' (cfg_ip cfg) @
     config_line ''NET_GW'' (cfg_gateway cfg) @ config_line ''NET_MAC'' (if cfg_has_net cfg then ?m else []) @ concat (map env_lines (cfg_env cfg))"
    using mac(2) by (simp add: vmconfig_text_def config_line_def)
  have nul: "NUL \<notin> set (vmconfig_text cfg)"
    using ok mac by (fastforce simp: split config_line_def value_ok_def one_line_def env_lines_def env_name_ok_def quoted_def split: if_splits)
  have "c_text (take 2047 (vmconfig_text cfg)) = vmconfig_text cfg"
    using assms(2) nul by (auto simp: c_text_def takeWhile_eq_all_conv)
  then have "read_vmconfig (vmconfig_text cfg) s = config_lines (vmconfig_text cfg) s"
    by (simp add: read_vmconfig_def config_lines_def line_end_def)
  also have "\<dots> = \<lparr>gs_hostname = cfg_hostname cfg, gs_net_ip = cfg_ip cfg, gs_net_gw = cfg_gateway cfg,
     gs_env = env_of (cfg_env cfg) (if cfg_has_net cfg then (gs_env s)(''NET_MAC'' \<mapsto> show_mac (cfg_mac cfg)) else gs_env s)\<rparr>"
    unfolding split config_lines_field [OF insertI1 ok(1)] using assms(3-5)
    by (simp add: config_lines_field [OF _ ok(2)] config_lines_field [OF _ ok(3)] config_lines_field [OF _ mac(1)]
      config_line_def [of _ "[]"]
      entry_settings ok mac(2) config_lines_envs [OF ok(5)])
  finally show ?thesis .
qed

text \<open>The bytes that a log writes to a file, by the path under which it was opened last.\<close>

fun written_to :: "os \<Rightarrow> string \<Rightarrow> log \<Rightarrow> log \<Rightarrow> u8 list option \<Rightarrow> int option \<Rightarrow> u8 list option" where
  "written_to w path pre [] acc fd = acc"
| "written_to w path pre (c # cs) acc fd =
     (let pre1 = pre @ [c]
      in case c of
           Open_write p \<Rightarrow> if p = path \<and> 0 \<le> os_ret w pre c then written_to w path pre1 cs (Some []) (Some (os_ret w pre c))
                           else written_to w path pre1 cs acc fd
         | File_write f bs \<Rightarrow> if fd = Some f then written_to w path pre1 cs (map_option (\<lambda>x. x @ bs) acc) fd
                              else written_to w path pre1 cs acc fd
         | Close f \<Rightarrow> written_to w path pre1 cs acc (if fd = Some f then None else fd)
         | _ \<Rightarrow> written_to w path pre1 cs acc fd)"

definition file_written :: "os \<Rightarrow> string \<Rightarrow> log \<Rightarrow> log \<Rightarrow> u8 list option" where
  "file_written w path pre cs = written_to w path pre cs None None"

lemma share_files:
  assumes "\<forall>t p. 0 \<le> os_ret w t (Open_write p)" and "length dir < 4000" and "cfg_entrypoint cfg \<noteq> ''''"
  shows "\<exists>cs. write_config_to_share w (Some dir) cfg tr = tr @ cs \<and>
    file_written w (dir @ ''/.entrypoint'') tr cs = Some (bytes (cfg_entrypoint cfg @ [NEWLINE])) \<and>
    file_written w (dir @ ''/.vmconfig'') tr cs = Some (bytes (vmconfig_text cfg))"
  using assms
  by (simp add: file_written_def write_config_to_share_def write_entrypoint_def cut_to_def PATH_MAX_def bytes_def Let_def not_less [symmetric])

lemma read_entrypoint_line: "one_line e \<Longrightarrow> length e < 1023 \<Longrightarrow> read_entrypoint (e @ [NEWLINE]) = e"
proof -
  assume *: "one_line e" "length e < 1023"
  then have "c_text (take 1023 (e @ [NEWLINE])) = e @ [NEWLINE]" by (auto simp: c_text_def one_line_def takeWhile_eq_all_conv)
  moreover have "takeWhile (\<lambda>c. c \<noteq> NEWLINE) (e @ [NEWLINE]) = e" using *(1) by (auto simp: one_line_def takeWhile_tail takeWhile_eq_all_conv)
  moreover have "takeWhile (\<lambda>c. c \<noteq> CHR 0x0D) e = e" using *(1) by (auto simp: one_line_def takeWhile_eq_all_conv)
  ultimately show ?thesis by (simp add: read_entrypoint_def)
qed

text \<open>A guest in which the shared directory can be mounted and its two files read, and whose child process runs a shell.\<close>

definition share_readable :: "guest_os \<Rightarrow> string \<Rightarrow> string \<Rightarrow> bool" where
  "share_readable g ep vc \<longleftrightarrow>
     (\<forall>t. g_ret g t (Mount ''myfs'' ''/share'' (Some ''virtiofs'')) = 0) \<and> (\<forall>t p. 0 \<le> g_ret g t (Gopen p)) \<and> (\<forall>t fd n. 0 < g_ret g t (Gread fd n)) \<and>
     (\<forall>t fd n. g_data g (t @ [Gopen ''/share/.entrypoint'']) (Gread fd n) = ep) \<and>
     (\<forall>t fd n. g_data g (t @ [Gopen ''/share/.vmconfig'']) (Gread fd n) = vc)"

definition child_runs :: "guest_os \<Rightarrow> bool" where
  "child_runs g \<longleftrightarrow> (\<forall>t. g_ret g t Gfork = 0 \<and> g_ret g t (Chroot ''/share'') = 0 \<and> g_ret g t (Chdir ''/'') = 0) \<and>
     (\<forall>t a e. 0 \<le> g_ret g t (Execve ''/bin/sh'' a e)) \<and> (\<forall>t. length (g_data g t Timing) \<le> 100)"

lemma setup_network_extends: "\<exists>cs. setup_network g ip gw tr = tr @ cs"
  by (auto simp: setup_network_def call_if_def Let_def case_prod_beta split: option.splits)

lemma set_hostname_extends: "\<exists>cs. set_hostname g h tr = tr @ cs \<and> (h \<noteq> '''' \<longrightarrow> Sethostname h \<in> set cs)"
  by (auto simp: set_hostname_def Let_def)

lemma read_share_ok:
  assumes "share_readable g ep vc" and "length ep \<le> 1023" and "length vc \<le> 2047"
  shows "\<exists>cs. read_share g ''/share/.entrypoint'' 1023 t = (ep, t @ cs)" and "\<exists>cs. read_share g ''/share/.vmconfig'' 2047 t = (vc, t @ cs)"
  using assms by (simp_all add: read_share_def share_readable_def Let_def leD not_less [symmetric])

lemma log_msg_short: "length msg < 1024 \<Longrightarrow> \<exists>cs. log_msg fd msg t = Some (t @ cs)"
  by (simp add: log_msg_def)

lemma run_entrypoint_exec:
  assumes "child_runs g" and "length e < 256"
  shows "\<exists>cs. run_entrypoint g kmsg e env t = Some (Init_exec, t @ cs) \<and>
    last cs = Execve ''/bin/sh'' [''/bin/sh'', ''-c'', ''exec '' @ e] env \<and> cs \<noteq> []"
proof -
  let ?t1 = "t @ share_mounts"
  have "length (g_data g ?t1 Timing) \<le> 100" using assms(1) by (simp add: child_runs_def)
  then have "length (''VMTAINER: running entrypoint: '' @ e @ g_data g ?t1 Timing) < 1024" using assms(2) by simp
  moreover have "length (cut_to n s) \<le> length s" for n s by (simp add: cut_to_def)
  ultimately obtain cs where cs: "log_msg kmsg (cut_to 1100 (''VMTAINER: running entrypoint: '' @ e @ g_data g ?t1 Timing)) (?t1 @ [Timing]) =
      Some ((?t1 @ [Timing]) @ cs)" using log_msg_short le_less_trans by meson
  have "cut_to 1200 (''exec '' @ e) = ''exec '' @ e" using assms(2) by (intro cut_to_id) simp
  then have "run_child g e env u = (Init_exec, u @ [Chroot ''/share'', Chdir ''/'', Execve ''/bin/sh'' [''/bin/sh'', ''-c'', ''exec '' @ e] env])" for u
    using assms(1) by (simp add: run_child_def child_runs_def Let_def)
  moreover have "g_ret g u Gfork = 0" for u using assms(1) by (simp add: child_runs_def)
  ultimately show ?thesis unfolding run_entrypoint_def Let_def cs by simp
qed

lemma after_restore_runs:
  assumes "share_readable g ep vc" and "child_runs g" and "length ep \<le> 1023" and "length vc \<le> 2047"
    and "read_entrypoint ep = e" and "e \<noteq> ''''" and "length e < 256"
    and "read_vmconfig vc \<lparr>gs_hostname = '''', gs_net_ip = '''', gs_net_gw = '''', gs_env = env0\<rparr> = s"
  shows "\<exists>cs. after_restore g kmsg env0 tr = Some (Init_exec, tr @ cs) \<and> (gs_hostname s \<noteq> '''' \<longrightarrow> Sethostname (gs_hostname s) \<in> set cs) \<and>
    last cs = Execve ''/bin/sh'' [''/bin/sh'', ''-c'', ''exec '' @ e] (default_env (gs_env s))"
proof -
  let ?m = "Mount ''myfs'' ''/share'' (Some ''virtiofs'')"
  have mount: "g_ret g tr ?m = 0" using assms(1) by (simp add: share_readable_def)
  obtain c1 where 1: "read_share g ''/share/.entrypoint'' 1023 (tr @ [?m]) = (ep, (tr @ [?m]) @ c1)"
    using read_share_ok(1) [OF assms(1,3,4)] by blast
  obtain c2 where 2: "read_share g ''/share/.vmconfig'' 2047 ((tr @ [?m]) @ c1) = (vc, ((tr @ [?m]) @ c1) @ c2)"
    using read_share_ok(2) [OF assms(1,3,4)] by blast
  let ?t = "((tr @ [?m]) @ c1) @ c2"
  obtain c3 where 3: "set_hostname g (gs_hostname s) ?t = ?t @ c3" "gs_hostname s \<noteq> '''' \<longrightarrow> Sethostname (gs_hostname s) \<in> set c3"
    using set_hostname_extends by blast
  obtain c4 where 4: "setup_network g (gs_net_ip s) (gs_net_gw s) (?t @ c3) = (?t @ c3) @ c4" using setup_network_extends by blast
  obtain c5 where 5: "run_entrypoint g kmsg e (default_env (gs_env s)) ((?t @ c3) @ c4) = Some (Init_exec, ((?t @ c3) @ c4) @ c5)"
    "last c5 = Execve ''/bin/sh'' [''/bin/sh'', ''-c'', ''exec '' @ e] (default_env (gs_env s))" "c5 \<noteq> []"
    using run_entrypoint_exec [OF assms(2,7)] by blast
  have "after_restore g kmsg env0 tr = Some (Init_exec, ((?t @ c3) @ c4) @ c5)"
    unfolding after_restore_def Let_def 1 prod.case 2 assms(5,8) 3(1) 4 5(1) using mount assms(6) by simp
  then show ?thesis using 3(2) 5(2,3) by (intro exI [of _ "[?m] @ c1 @ c2 @ c3 @ c4 @ c5"]) simp
qed


definition demo_config :: vm_config where
  "demo_config = \<lparr>cfg_rootfs = ''/srv/c1'', cfg_entrypoint = ''/bin/app'', cfg_hostname = ''vm1'', cfg_tap = ''tap0'', cfg_ip = ''10.0.0.2/24'',
     cfg_gateway = ''10.0.0.1'', cfg_mac = [0x52, 0x54, 0, 0x12, 0x34, 0x56], cfg_has_net = True, cfg_env = [(''MODE'', ''fast'')]\<rparr>"

definition demo_host :: os where
  "demo_host = \<lparr>os_ret = (\<lambda>_ _. 1), os_data = (\<lambda>_ c. case c of File_read _ _ \<Rightarrow> bytes (json_config demo_config) | _ \<Rightarrow> []), os_pair = (\<lambda>_ _. (1, 1))\<rparr>"

definition demo_guest :: "string \<Rightarrow> string \<Rightarrow> guest_os" where
  "demo_guest ep vc = \<lparr>g_ret = (\<lambda>_ c. case c of Gread _ _ \<Rightarrow> 1 | _ \<Rightarrow> 0),
     g_data = (\<lambda>t c. case c of Gread _ _ \<Rightarrow> if last t = Gopen ''/share/.entrypoint'' then ep else vc | _ \<Rightarrow> '''')\<rparr>"

lemma demo_config_ok: "config_ok demo_config" "handover_ok demo_config" "length (json_config demo_config) < 8192" "length (vmconfig_text demo_config) \<le> 2047"
  by (simp_all add: demo_config_def config_ok_def handover_ok_def clean_def plain_def PATH_MAX_def IFNAMSIZ_def config_keys_def value_ok_def one_line_def
      env_name_ok_def json_config_def json_net_def json_field_def vmconfig_text_def config_line_def env_lines_def quoted_def length_show_mac)


end
