(* ===== verification/Pages.thy ===== *)
theory Pages
  imports Guest_Ram
begin

text \<open>
  Pages and the dirty bitmap of a snapshot (\<open>save_snapshot_file\<close> in \<^verbatim>\<open>src/vmm.cpp\<close>).  A page is
  scanned eight 64-bit words at a time; the bitmap has one bit per 4096-byte page and the
  restore engines copy only the pages whose bit is set.
\<close>

definition PAGE :: nat where "PAGE = 4096"

lemma PAGE_pos [simp]: "0 < PAGE" by (simp add: PAGE_def)

section \<open>Scanning a page\<close>

definition ram_word :: "(nat \<Rightarrow> u8) \<Rightarrow> nat \<Rightarrow> u64" where
  "ram_word m a = le_val (map m [a..<a + 8])"

text \<open>The loop \<^verbatim>\<open>for (w = 0; w < PAGE / 8; w += 8) acc |= p[w] | ... | p[w + 7]\<close>.\<close>

function scan_page :: "(nat \<Rightarrow> u8) \<Rightarrow> nat \<Rightarrow> nat \<Rightarrow> u64 \<Rightarrow> u64" where
  "scan_page m off w acc =
     (if w < PAGE div 8
      then (let p = (\<lambda>k. ram_word m (off + 8 * k))
            in scan_page m off (w + 8)
                 (acc OR (p w OR p (w + 1) OR p (w + 2) OR p (w + 3) OR p (w + 4) OR p (w + 5) OR p (w + 6) OR p (w + 7))))
      else acc)"
  by pat_completeness auto
termination by (relation "measure (\<lambda>(m, off, w, acc). PAGE div 8 - w)") (auto simp: PAGE_def)

declare scan_page.simps [simp del]

definition page_dirty :: "(nat \<Rightarrow> u8) \<Rightarrow> nat \<Rightarrow> bool" where
  "page_dirty m pg \<longleftrightarrow> scan_page m (pg * PAGE) 0 0 \<noteq> 0"

section \<open>The bitmap\<close>

text \<open>
  \<^verbatim>\<open>bitmap[pg / 8] |= 1 << (pg & 7)\<close> and \<^verbatim>\<open>bitmap[pg / 8] & (1 << (pg & 7))\<close>.  The vector is not
  bounds-checked: a test beyond its end has no defined value.
\<close>

definition bitmap_set :: "u8 list \<Rightarrow> nat \<Rightarrow> u8 list" where
  "bitmap_set bm pg = bm[pg div 8 := bm ! (pg div 8) OR push_bit (pg mod 8) 1]"

definition bitmap_test :: "u8 list \<Rightarrow> nat \<Rightarrow> bool option" where
  "bitmap_test bm pg =
     (if pg div 8 < length bm then Some (bm ! (pg div 8) AND push_bit (pg mod 8) 1 \<noteq> 0) else None)"

definition total_pages :: "guest_ram \<Rightarrow> nat" where
  "total_pages r = ram_bytes r div PAGE"

definition mark_page :: "guest_ram \<Rightarrow> nat \<Rightarrow> u8 list \<times> nat \<Rightarrow> u8 list \<times> nat" where
  "mark_page r pg s =
     (case s of (bm, n) \<Rightarrow> if page_dirty (ram_mem r) pg then (bitmap_set bm pg, n + 1) else (bm, n))"

definition build_bitmap :: "guest_ram \<Rightarrow> u8 list \<times> nat" where
  "build_bitmap r =
     fold (mark_page r) [0..<total_pages r] (replicate ((total_pages r + 7) div 8) 0, 0)"

section \<open>The scan finds every non-zero byte\<close>

lemma ram_word_eq_0: "ram_word m a = 0 \<longleftrightarrow> (\<forall>i < 8. m (a + i) = 0)"
proof
  assume z: "ram_word m a = 0"
  show "\<forall>i < 8. m (a + i) = 0"
  proof (intro allI impI)
    fix i :: nat
    assume i: "i < 8"
    have "le_bytes 8 (ram_word m a) = map m [a..<a + 8]"
      unfolding ram_word_def by (rule le_bytes_le_val) simp_all
    then have "map m [a..<a + 8] ! i = le_bytes 8 (0 :: u64) ! i" by (simp add: z)
    then show "m (a + i) = 0" using i by (simp add: byte_simps word_byte_def)
  qed
next
  assume "\<forall>i < 8. m (a + i) = 0"
  then have "map m [a..<a + 8] = replicate 8 0"
    by (intro nth_equalityI) auto
  then show "ram_word m a = 0" by (simp add: ram_word_def numeral_eq_Suc)
qed

lemma or_eq_0: "a OR b = 0 \<longleftrightarrow> a = 0 \<and> b = (0 :: 'a::len word)"
  by (rule or_eq_0_iff)

lemma scan_page_eq_0:
  assumes "w mod 8 = 0"
  shows "scan_page m off w acc = 0 \<longleftrightarrow>
    acc = 0 \<and> (\<forall>k. w \<le> k \<and> k < PAGE div 8 \<longrightarrow> ram_word m (off + 8 * k) = 0)"
  using assms
proof (induction m off w acc rule: scan_page.induct)
  case (1 m off w acc)
  show ?case
  proof (cases "w < PAGE div 8")
    case False
    then show ?thesis by (auto simp: scan_page.simps)
  next
    case True
    let ?p = "\<lambda>k. ram_word m (off + 8 * k)"
    have "w + 8 \<le> PAGE div 8" using True 1(2) by (auto simp: PAGE_def)
    have ks: "(\<forall>k. w \<le> k \<and> k < PAGE div 8 \<longrightarrow> ?p k = 0) \<longleftrightarrow>
        (\<forall>j < 8. ?p (w + j) = 0) \<and> (\<forall>k. w + 8 \<le> k \<and> k < PAGE div 8 \<longrightarrow> ?p k = 0)"
    proof (intro iffI conjI allI impI)
      fix j :: nat
      assume "\<forall>k. w \<le> k \<and> k < PAGE div 8 \<longrightarrow> ?p k = 0" "j < 8"
      moreover have "w \<le> w + j \<and> w + j < PAGE div 8" using \<open>w + 8 \<le> PAGE div 8\<close> \<open>j < 8\<close> by linarith
      ultimately show "?p (w + j) = 0" by blast
    next
      fix k
      assume a: "(\<forall>j < 8. ?p (w + j) = 0) \<and> (\<forall>k. w + 8 \<le> k \<and> k < PAGE div 8 \<longrightarrow> ?p k = 0)"
        and k: "w \<le> k \<and> k < PAGE div 8"
      show "?p k = 0"
      proof (cases "k < w + 8")
        case True
        then have "k - w < 8" "w + (k - w) = k" using k by auto
        then show ?thesis using a by metis
      next
        case False
        then show ?thesis using a k by auto
      qed
    qed auto
    have eight: "(\<forall>j < 8. ?p (w + j) = 0) \<longleftrightarrow>
        ?p w = 0 \<and> ?p (w + 1) = 0 \<and> ?p (w + 2) = 0 \<and> ?p (w + 3) = 0 \<and> ?p (w + 4) = 0 \<and>
        ?p (w + 5) = 0 \<and> ?p (w + 6) = 0 \<and> ?p (w + 7) = 0"
      by (simp add: numeral_eq_Suc All_less_Suc conj_ac)
    have "(w + 8) mod 8 = 0" using 1(2) by simp
    from 1(1) [OF True refl this] show ?thesis
      by (subst scan_page.simps) (simp only: True if_True Let_def or_eq_0 ks eight conj_assoc)
  qed
qed

lemma page_dirty_iff: "page_dirty m pg \<longleftrightarrow> (\<exists>i < PAGE. m (pg * PAGE + i) \<noteq> 0)"
proof -
  have "(\<forall>k < PAGE div 8. \<forall>i < 8. m (pg * PAGE + 8 * k + i) = 0) \<longleftrightarrow> (\<forall>i < PAGE. m (pg * PAGE + i) = 0)"
  proof (intro iffI allI impI)
    fix i
    assume a: "\<forall>k < PAGE div 8. \<forall>i < 8. m (pg * PAGE + 8 * k + i) = 0" and i: "i < PAGE"
    have "i div 8 < PAGE div 8" using i by (simp add: PAGE_def)
    moreover have "i mod 8 < 8" by simp
    ultimately have "m (pg * PAGE + 8 * (i div 8) + i mod 8) = 0" using a by blast
    moreover have "pg * PAGE + 8 * (i div 8) + i mod 8 = pg * PAGE + i" by simp
    ultimately show "m (pg * PAGE + i) = 0" by (simp only:)
  next
    fix k i :: nat
    assume a: "\<forall>i < PAGE. m (pg * PAGE + i) = 0" and k: "k < PAGE div 8" and i: "i < 8"
    have "8 * k + i < PAGE" using k i by (simp add: PAGE_def)
    with a show "m (pg * PAGE + 8 * k + i) = 0" by (simp add: add.assoc)
  qed
  then show ?thesis
    by (simp add: page_dirty_def scan_page_eq_0 ram_word_eq_0)
qed

lemma div_PAGE_iff [page_arith]: "j div PAGE = pg \<longleftrightarrow> pg * PAGE \<le> j \<and> j < (pg + 1) * PAGE"
  using div_nat_eqI [of PAGE pg j] by (auto simp: mult.commute dest: sym) (auto simp: PAGE_def)

lemma page_in_range: "PAGE dvd ram_bytes r \<Longrightarrow> j < ram_bytes r \<Longrightarrow> j div PAGE < total_pages r"
  by (auto simp: total_pages_def less_mult_imp_div_less mult.commute elim!: dvdE)

lemma page_clean_byte:
  assumes "\<not> page_dirty m (j div PAGE)"
  shows "m j = 0"
proof -
  have "j = j div PAGE * PAGE + j mod PAGE" by simp
  moreover have "j mod PAGE < PAGE" by simp
  ultimately show ?thesis using assms unfolding page_dirty_iff by metis
qed

section \<open>The bitmap marks exactly the non-zero pages\<close>

definition bitmap_bit :: "u8 list \<Rightarrow> nat \<Rightarrow> bool" where
  "bitmap_bit bm pg \<longleftrightarrow> bit (bm ! (pg div 8)) (pg mod 8)"

lemma bitmap_test_Some: "pg < 8 * length bm \<Longrightarrow> bitmap_test bm pg = Some (bitmap_bit bm pg)"
  by (auto simp: bitmap_test_def bitmap_bit_def bit_iff_and_push_bit_not_eq_0)

lemma bitmap_test_None: "bitmap_test bm pg = None \<longleftrightarrow> 8 * length bm \<le> pg"
  by (auto simp: bitmap_test_def)

lemma length_bitmap_set [simp]: "length (bitmap_set bm pg) = length bm"
  by (simp add: bitmap_set_def)

lemma bitmap_bit_set:
  assumes "pg < 8 * length bm" "q < 8 * length bm"
  shows "bitmap_bit (bitmap_set bm pg) q \<longleftrightarrow> q = pg \<or> bitmap_bit bm q"
proof -
  have eq: "q = pg" if "q div 8 = pg div 8" "q mod 8 = pg mod 8"
    using that by (metis div_mult_mod_eq)
  have "q mod 8 < 8" by simp
  then show ?thesis
    using assms eq
    by (auto simp: bitmap_bit_def bitmap_set_def nth_list_update bit_simps)
qed

lemma mark_page_pair:
  "mark_page r pg (bm, n) = (if page_dirty (ram_mem r) pg then (bitmap_set bm pg, n + 1) else (bm, n))"
  by (simp add: mark_page_def)

lemma fold_mark_page:
  assumes "n \<le> 8 * length bm0"
  shows "\<exists>bm c. fold (mark_page r) [0..<n] (bm0, 0) = (bm, c) \<and> length bm = length bm0 \<and>
     (\<forall>q < 8 * length bm0. bitmap_bit bm q \<longleftrightarrow> bitmap_bit bm0 q \<or> q < n \<and> page_dirty (ram_mem r) q) \<and>
     c = card {q. q < n \<and> page_dirty (ram_mem r) q}"
  using assms
proof (induction n)
  case 0
  then show ?case by simp
next
  case (Suc n)
  then obtain bm c where s: "fold (mark_page r) [0..<n] (bm0, 0) = (bm, c)" "length bm = length bm0"
    and b: "\<forall>q < 8 * length bm0. bitmap_bit bm q \<longleftrightarrow> bitmap_bit bm0 q \<or> q < n \<and> page_dirty (ram_mem r) q"
    and c: "c = card {q. q < n \<and> page_dirty (ram_mem r) q}"
    by auto
  show ?case
  proof (cases "page_dirty (ram_mem r) n")
    case True
    have "{q. q < Suc n \<and> page_dirty (ram_mem r) q} = insert n {q. q < n \<and> page_dirty (ram_mem r) q}"
      using True by auto
    then have "card {q. q < Suc n \<and> page_dirty (ram_mem r) q} = Suc c" by (simp add: c)
    moreover have "\<forall>q < 8 * length bm0. bitmap_bit (bitmap_set bm n) q \<longleftrightarrow>
        bitmap_bit bm0 q \<or> q < Suc n \<and> page_dirty (ram_mem r) q"
      using b s(2) Suc.prems True by (auto simp: bitmap_bit_set less_Suc_eq)
    ultimately show ?thesis using s True by (simp add: mark_page_pair)
  next
    case False
    then have "{q. q < Suc n \<and> page_dirty (ram_mem r) q} = {q. q < n \<and> page_dirty (ram_mem r) q}"
      by (auto simp: less_Suc_eq)
    with False s b c show ?thesis by (auto simp: mark_page_pair less_Suc_eq)
  qed
qed

lemma build_bitmap_marks:
  "\<exists>bm c. build_bitmap r = (bm, c) \<and> length bm = (total_pages r + 7) div 8 \<and>
     (\<forall>pg. bitmap_test bm pg =
        (if pg < 8 * length bm then Some (pg < total_pages r \<and> page_dirty (ram_mem r) pg) else None)) \<and>
     c = card {pg. pg < total_pages r \<and> page_dirty (ram_mem r) pg}"
proof -
  let ?n = "total_pages r" and ?bm0 = "replicate ((total_pages r + 7) div 8) (0 :: u8)"
  have "?n \<le> 8 * length ?bm0" by simp
  from fold_mark_page [OF this, of r] obtain bm c where
    s: "build_bitmap r = (bm, c)" "length bm = (?n + 7) div 8"
    and b: "\<forall>q < 8 * length bm. bitmap_bit bm q \<longleftrightarrow> bitmap_bit ?bm0 q \<or> q < ?n \<and> page_dirty (ram_mem r) q"
    and c: "c = card {q. q < ?n \<and> page_dirty (ram_mem r) q}"
    unfolding build_bitmap_def by auto
  have zero: "\<not> bitmap_bit ?bm0 q" if "q < 8 * length bm" for q
    using that s(2) by (simp add: bitmap_bit_def less_mult_imp_div_less mult.commute)
  show ?thesis
    using s b c zero bitmap_test_None
    by (intro exI [of _ bm] exI [of _ c]) (auto simp: bitmap_test_Some bitmap_test_None)
qed

text \<open>
  Claim C8.  The dirty bitmap is exact.  The bitmap that a snapshot file carries has one bit
  per page; the bit of a page is set exactly when some byte of the page is non-zero,
  although the scan looks at eight words at a time; the unused bits of the last byte are
  clear; and the reported number of dirty pages is the number of set bits.
\<close>

theorem build_bitmap_exact:
  "\<exists>bm c. build_bitmap r = (bm, c) \<and> length bm = (total_pages r + 7) div 8 \<and>
     (\<forall>pg. bitmap_test bm pg =
        (if pg < 8 * length bm
         then Some (pg < total_pages r \<and> (\<exists>i < PAGE. ram_mem r (pg * PAGE + i) \<noteq> 0))
         else None)) \<and>
     c = card {pg. pg < total_pages r \<and> (\<exists>i < PAGE. ram_mem r (pg * PAGE + i) \<noteq> 0)}"
  using build_bitmap_marks [of r] unfolding page_dirty_iff .

end
