(* ===== verification/Snapshot_Format.thy ===== *)
theory Snapshot_Format
  imports Pages Virtio_Types
begin

text \<open>
  The snapshot and its file format (\<open>SnapshotHeader\<close>, \<open>Snapshot\<close> in \<^verbatim>\<open>src/vmm.hpp\<close>; the writer of
  \<open>save_snapshot_file\<close> and the parser of \<open>restore_snapshot_file\<close> in \<^verbatim>\<open>src/vmm.cpp\<close>).  The header is
  written as the raw struct, so its layout is that of the x86-64 ABI: the fields in order with
  four bytes of padding after \<open>mp_state\<close>.  The KVM structs inside are opaque blocks of bytes of
  the sizes of \<^verbatim>\<open>linux/kvm.h\<close>.
\<close>

definition SNAP_MAGIC :: u64 where "SNAP_MAGIC = 0x48594C54534E4150"
definition SNAP_VERSION :: u32 where "SNAP_VERSION = 7"
definition XSAVE_SIZE :: nat where "XSAVE_SIZE = 8192"
definition MAX_MSRS :: nat where "MAX_MSRS = 256"

section \<open>The header\<close>

record vq_state =
  vs_num :: u32
  vs_ready :: u32
  vs_desc :: u64
  vs_driver :: u64
  vs_device :: u64

record snapshot_header =
  h_magic :: u64
  h_version :: u32
  h_ram_mb :: u32
  h_regs :: "u8 list"
  h_sregs :: "u8 list"
  h_lapic :: "u8 list"
  h_events :: "u8 list"
  h_xcrs :: "u8 list"
  h_mp_state :: "u8 list"
  h_debugregs :: "u8 list"
  h_clock :: "u8 list"
  h_pit :: "u8 list"
  h_pic_master :: "u8 list"
  h_pic_slave :: "u8 list"
  h_ioapic :: "u8 list"
  h_tsc_khz :: u32
  h_cpuid_nent :: u32
  h_num_msrs :: u32
  h_xsave_size :: u32
  h_vdev_status :: u32
  h_vdrv_features_lo :: u32
  h_vdrv_features_hi :: u32
  h_num_vqs :: u32
  h_vq_state :: "vq_state list"
  h_net_status :: u32
  h_net_drv_features_lo :: u32
  h_net_drv_features_hi :: u32
  h_net_num_vqs :: u32
  h_net_vq_state :: "vq_state list"
  h_net_mac :: "u8 list"
  h_net_pad :: "u8 list"
  h_bitmap_bytes :: u32
  h_bitmap_pad :: u32

text \<open>The struct as the sequence of its members' bytes.\<close>

definition vq_pieces :: "vq_state \<Rightarrow> u8 list list" where
  "vq_pieces v = [le_bytes 4 (vs_num v), le_bytes 4 (vs_ready v), le_bytes 8 (vs_desc v),
                  le_bytes 8 (vs_driver v), le_bytes 8 (vs_device v)]"

definition hdr_pieces :: "snapshot_header \<Rightarrow> u8 list list" where
  "hdr_pieces h =
     [le_bytes 8 (h_magic h), le_bytes 4 (h_version h), le_bytes 4 (h_ram_mb h),
      h_regs h, h_sregs h, h_lapic h, h_events h, h_xcrs h, h_mp_state h, replicate 4 0, h_debugregs h,
      h_clock h, h_pit h, h_pic_master h, h_pic_slave h, h_ioapic h,
      le_bytes 4 (h_tsc_khz h), le_bytes 4 (h_cpuid_nent h), le_bytes 4 (h_num_msrs h), le_bytes 4 (h_xsave_size h),
      le_bytes 4 (h_vdev_status h), le_bytes 4 (h_vdrv_features_lo h), le_bytes 4 (h_vdrv_features_hi h),
      le_bytes 4 (h_num_vqs h)] @
     vq_pieces (h_vq_state h ! 0) @ vq_pieces (h_vq_state h ! 1) @
     [le_bytes 4 (h_net_status h), le_bytes 4 (h_net_drv_features_lo h), le_bytes 4 (h_net_drv_features_hi h),
      le_bytes 4 (h_net_num_vqs h)] @
     vq_pieces (h_net_vq_state h ! 0) @ vq_pieces (h_net_vq_state h ! 1) @
     [h_net_mac h, h_net_pad h, le_bytes 4 (h_bitmap_bytes h), le_bytes 4 (h_bitmap_pad h)]"

definition hdr_sizes :: "nat list" where
  "hdr_sizes = [8, 4, 4, 144, 312, 1024, 64, 392, 4, 4, 128, 48, 112, 520, 520, 520,
                4, 4, 4, 4, 4, 4, 4, 4, 4, 4, 8, 8, 8, 4, 4, 8, 8, 8,
                4, 4, 4, 4, 4, 4, 8, 8, 8, 4, 4, 8, 8, 8, 6, 2, 4, 4]"

definition hdr_bytes :: "snapshot_header \<Rightarrow> u8 list" where
  "hdr_bytes h = concat (hdr_pieces h)"

text \<open>\<^verbatim>\<open>sizeof(SnapshotHeader)\<close>\<close>

definition HDR_SIZE :: nat where "HDR_SIZE = 4000"

text \<open>Cutting a block of bytes into consecutive members.\<close>

fun cut :: "nat list \<Rightarrow> u8 list \<Rightarrow> u8 list list" where
  "cut [] bs = []"
| "cut (n # ns) bs = take n bs # cut ns (drop n bs)"

definition vq_of_pieces :: "u8 list list \<Rightarrow> nat \<Rightarrow> vq_state" where
  "vq_of_pieces ps i = \<lparr>vs_num = le_val (ps ! i), vs_ready = le_val (ps ! (i + 1)), vs_desc = le_val (ps ! (i + 2)),
     vs_driver = le_val (ps ! (i + 3)), vs_device = le_val (ps ! (i + 4))\<rparr>"

definition hdr_of_pieces :: "u8 list list \<Rightarrow> snapshot_header" where
  "hdr_of_pieces ps =
     \<lparr>h_magic = le_val (ps ! 0), h_version = le_val (ps ! 1), h_ram_mb = le_val (ps ! 2),
      h_regs = ps ! 3, h_sregs = ps ! 4, h_lapic = ps ! 5, h_events = ps ! 6, h_xcrs = ps ! 7, h_mp_state = ps ! 8,
      h_debugregs = ps ! 10, h_clock = ps ! 11, h_pit = ps ! 12,
      h_pic_master = ps ! 13, h_pic_slave = ps ! 14, h_ioapic = ps ! 15,
      h_tsc_khz = le_val (ps ! 16), h_cpuid_nent = le_val (ps ! 17), h_num_msrs = le_val (ps ! 18),
      h_xsave_size = le_val (ps ! 19),
      h_vdev_status = le_val (ps ! 20), h_vdrv_features_lo = le_val (ps ! 21), h_vdrv_features_hi = le_val (ps ! 22),
      h_num_vqs = le_val (ps ! 23), h_vq_state = [vq_of_pieces ps 24, vq_of_pieces ps 29],
      h_net_status = le_val (ps ! 34), h_net_drv_features_lo = le_val (ps ! 35), h_net_drv_features_hi = le_val (ps ! 36),
      h_net_num_vqs = le_val (ps ! 37), h_net_vq_state = [vq_of_pieces ps 38, vq_of_pieces ps 43],
      h_net_mac = ps ! 48, h_net_pad = ps ! 49, h_bitmap_bytes = le_val (ps ! 50), h_bitmap_pad = le_val (ps ! 51)\<rparr>"

definition hdr_of_bytes :: "u8 list \<Rightarrow> snapshot_header" where
  "hdr_of_bytes bs = hdr_of_pieces (cut hdr_sizes bs)"

definition hdr_ok :: "snapshot_header \<Rightarrow> bool" where
  "hdr_ok h \<longleftrightarrow> map length (hdr_pieces h) = hdr_sizes \<and> length (h_vq_state h) = 2 \<and> length (h_net_vq_state h) = 2"

section \<open>The snapshot\<close>

record snapshot =
  hdr :: snapshot_header
  xsave :: "u8 list"
  cpuid :: "u8 list"
  msrs :: "u8 list"
  snap_ram :: "u8 list"
  dirty_bitmap :: "u8 list"

definition CPUID_ENTRY :: nat where "CPUID_ENTRY = 40"
definition MSR_ENTRY :: nat where "MSR_ENTRY = 16"

definition mb_bytes :: "u32 \<Rightarrow> nat" where
  "mb_bytes mb = unat mb * 1024 * 1024"

text \<open>
  What the writer puts into the file when every \<open>write\<close> is complete, and what the parser
  makes of a file.  A file that is too short for a section is rejected; an \<open>xsave_size\<close>
  larger than the buffer \<open>snap.xsave\<close> lets \<open>memcpy\<close> write past its end.
\<close>

definition snapshot_bytes :: "snapshot \<Rightarrow> u8 list" where
  "snapshot_bytes s =
     hdr_bytes (hdr s) @ take (unat (h_xsave_size (hdr s))) (xsave s) @ cpuid s @ msrs s @ dirty_bitmap s @ snap_ram s"

datatype snap_error = Too_short | Xsave_overflow

definition section_of :: "nat \<Rightarrow> u8 list \<Rightarrow> snap_error + (u8 list \<times> u8 list)" where
  "section_of n bs = (if length bs < n then Inl Too_short else Inr (take n bs, drop n bs))"

definition parse_rest :: "snapshot_header \<Rightarrow> u8 list \<Rightarrow> u8 list \<Rightarrow> snap_error + snapshot" where
  "parse_rest h xs bs2 =
     (case section_of (unat (h_cpuid_nent h) * CPUID_ENTRY) bs2 of
        Inl e \<Rightarrow> Inl e
      | Inr (cs, bs3) \<Rightarrow>
         (case section_of (unat (h_num_msrs h) * MSR_ENTRY) bs3 of
            Inl e \<Rightarrow> Inl e
          | Inr (ms, bs4) \<Rightarrow>
             (case (if 0 < unat (h_bitmap_bytes h) then section_of (unat (h_bitmap_bytes h)) bs4 else Inr ([], bs4)) of
                Inl e \<Rightarrow> Inl e
              | Inr (bm, bs5) \<Rightarrow>
                 (case section_of (mb_bytes (h_ram_mb h)) bs5 of
                    Inl e \<Rightarrow> Inl e
                  | Inr (ram, _) \<Rightarrow>
                      Inr \<lparr>hdr = h, xsave = xs, cpuid = cs, msrs = ms, snap_ram = ram, dirty_bitmap = bm\<rparr>))))"

definition parse_snapshot :: "u8 list \<Rightarrow> u8 list \<Rightarrow> snap_error + snapshot" where
  "parse_snapshot xbuf bs =
     (case section_of HDR_SIZE bs of
        Inl e \<Rightarrow> Inl e
      | Inr (hb, bs1) \<Rightarrow>
         (let h = hdr_of_bytes hb; n = unat (h_xsave_size h)
          in case section_of n bs1 of
               Inl e \<Rightarrow> Inl e
             | Inr (xs, bs2) \<Rightarrow>
                 (case buf_put xbuf 0 xs of
                    None \<Rightarrow> Inl Xsave_overflow
                  | Some xs' \<Rightarrow> parse_rest h xs' bs2)))"

section \<open>Round trips\<close>

lemma cut_concat: "map length ps = ns \<Longrightarrow> cut ns (concat ps @ rest) = ps"
  by (induction ps arbitrary: ns) auto

lemma sum_hdr_sizes: "sum_list hdr_sizes = HDR_SIZE"
  by (simp add: hdr_sizes_def HDR_SIZE_def)

lemma length_hdr_bytes: "hdr_ok h \<Longrightarrow> length (hdr_bytes h) = HDR_SIZE"
  by (simp add: hdr_ok_def hdr_bytes_def length_concat sum_hdr_sizes)

lemma list_of_two: "length xs = 2 \<Longrightarrow> [xs ! 0, xs ! 1] = xs"
  by (auto simp: numeral_2_eq_2 length_Suc_conv)

lemma vq_of_pieces_vq: 
  assumes "take 5 (drop i ps) = vq_pieces v" "i + 5 \<le> length ps"
  shows "vq_of_pieces ps i = v"
proof -
  have "ps ! (i + k) = vq_pieces v ! k" if "k < 5" for k
    using that assms by (metis add_leD1 nth_drop nth_take)
  from this [of 0] this [of 1] this [of 2] this [of 3] this [of 4] show ?thesis
    by (simp add: vq_of_pieces_def vq_pieces_def)
qed

lemma hdr_of_pieces_pieces:
  assumes "length (h_vq_state h) = 2" "length (h_net_vq_state h) = 2"
  shows "hdr_of_pieces (hdr_pieces h) = h"
proof -
  have v: "vq_of_pieces (hdr_pieces h) 24 = h_vq_state h ! 0" "vq_of_pieces (hdr_pieces h) 29 = h_vq_state h ! 1"
    "vq_of_pieces (hdr_pieces h) 38 = h_net_vq_state h ! 0" "vq_of_pieces (hdr_pieces h) 43 = h_net_vq_state h ! 1"
    by (rule vq_of_pieces_vq; simp add: hdr_pieces_def vq_pieces_def)+
  show ?thesis
    unfolding hdr_of_pieces_def v list_of_two [OF assms(1)] list_of_two [OF assms(2)]
    by (simp add: hdr_pieces_def vq_pieces_def)
qed

lemma hdr_roundtrip: "hdr_ok h \<Longrightarrow> hdr_of_bytes (hdr_bytes h) = h"
  using cut_concat [of "hdr_pieces h" hdr_sizes "[]"] hdr_of_pieces_pieces [of h]
  by (simp add: hdr_of_bytes_def hdr_bytes_def hdr_ok_def)

text \<open>A snapshot whose counters agree with its sections, as \<open>save_snapshot_file\<close> makes them.\<close>

definition snapshot_ok :: "snapshot \<Rightarrow> bool" where
  "snapshot_ok s \<longleftrightarrow> hdr_ok (hdr s) \<and>
     length (xsave s) = XSAVE_SIZE \<and> unat (h_xsave_size (hdr s)) = XSAVE_SIZE \<and>
     length (cpuid s) = unat (h_cpuid_nent (hdr s)) * CPUID_ENTRY \<and>
     length (msrs s) = unat (h_num_msrs (hdr s)) * MSR_ENTRY \<and>
     length (dirty_bitmap s) = unat (h_bitmap_bytes (hdr s)) \<and>
     length (snap_ram s) = mb_bytes (h_ram_mb (hdr s))"

lemma section_of_append: "length a = n \<Longrightarrow> section_of n (a @ b) = Inr (a, b)"
  by (simp add: section_of_def)

lemma parse_rest_roundtrip:
  assumes "snapshot_ok s"
  shows "parse_rest (hdr s) (xsave s) (cpuid s @ msrs s @ dirty_bitmap s @ snap_ram s) = Inr s"
proof -
  have r: "section_of (mb_bytes (h_ram_mb (hdr s))) (snap_ram s) = Inr (snap_ram s, [])"
    using section_of_append [of "snap_ram s" _ "[]"] assms by (simp add: snapshot_ok_def)
  have b: "unat (h_bitmap_bytes (hdr s)) = length (dirty_bitmap s)"
    using assms by (simp add: snapshot_ok_def)
  show ?thesis
    using assms
    by (cases "dirty_bitmap s = []") (simp_all add: parse_rest_def snapshot_ok_def section_of_append r b)
qed

lemma parse_snapshot_header:
  assumes "hdr_ok h"
  shows "parse_snapshot xbuf (hdr_bytes h @ rest) =
    (case section_of (unat (h_xsave_size h)) rest of
       Inl e \<Rightarrow> Inl e
     | Inr (xs, bs2) \<Rightarrow> (case buf_put xbuf 0 xs of None \<Rightarrow> Inl Xsave_overflow | Some xs' \<Rightarrow> parse_rest h xs' bs2))"
  unfolding parse_snapshot_def section_of_append [OF length_hdr_bytes [OF assms]] sum.case prod.case Let_def
    hdr_roundtrip [OF assms] by (rule refl)

lemma snapshot_parsed:
  assumes "snapshot_ok s" and "length xbuf = XSAVE_SIZE"
  shows "parse_snapshot xbuf (snapshot_bytes s) = Inr s"
proof -
  have x: "take (unat (h_xsave_size (hdr s))) (xsave s) = xsave s" "length (xsave s) = XSAVE_SIZE"
    using assms by (simp_all add: snapshot_ok_def)
  have "buf_put xbuf 0 (xsave s) = Some (xsave s)" using assms(2) x by (simp add: buf_put_def)
  with x assms show ?thesis
    by (simp add: snapshot_bytes_def parse_snapshot_header snapshot_ok_def section_of_append)
      (use parse_rest_roundtrip [OF assms(1)] in simp)
qed

text \<open>
  Claim C9.  Snapshot files round-trip.  Parsing the bytes that a snapshot is written as gives
  back exactly that snapshot: every header field and KVM block, the XSAVE area, the CPUID and
  MSR entries, the dirty bitmap and the RAM, whatever the parser's buffer held before.
\<close>

theorem snapshot_roundtrip:
  assumes "snapshot_ok s" and "length xbuf = XSAVE_SIZE"
  shows "parse_snapshot xbuf (snapshot_bytes s) = Inr s"
  using assms by (rule snapshot_parsed)

text \<open>
  A small snapshot for concrete runs: no RAM, no CPUID entries, no MSRs.
\<close>

definition demo_hdr :: snapshot_header where
  "demo_hdr =
     \<lparr>h_magic = SNAP_MAGIC, h_version = SNAP_VERSION, h_ram_mb = 0,
      h_regs = replicate 144 1, h_sregs = replicate 312 2, h_lapic = replicate 1024 3, h_events = replicate 64 4,
      h_xcrs = replicate 392 5, h_mp_state = replicate 4 6, h_debugregs = replicate 128 7, h_clock = replicate 48 8,
      h_pit = replicate 112 9, h_pic_master = replicate 520 10, h_pic_slave = replicate 520 11, h_ioapic = replicate 520 12,
      h_tsc_khz = 3392000, h_cpuid_nent = 0, h_num_msrs = 0, h_xsave_size = 8192,
      h_vdev_status = 15, h_vdrv_features_lo = 0, h_vdrv_features_hi = 1, h_num_vqs = 2,
      h_vq_state = [\<lparr>vs_num = 1024, vs_ready = 1, vs_desc = 0x1000, vs_driver = 0x5000, vs_device = 0x6000\<rparr>,
                    \<lparr>vs_num = 0, vs_ready = 0, vs_desc = 0, vs_driver = 0, vs_device = 0\<rparr>],
      h_net_status = 0, h_net_drv_features_lo = 0, h_net_drv_features_hi = 0, h_net_num_vqs = 2,
      h_net_vq_state = [\<lparr>vs_num = 0, vs_ready = 0, vs_desc = 0, vs_driver = 0, vs_device = 0\<rparr>,
                        \<lparr>vs_num = 0, vs_ready = 0, vs_desc = 0, vs_driver = 0, vs_device = 0\<rparr>],
      h_net_mac = [0x52, 0x54, 0, 0x12, 0x34, 0x56], h_net_pad = [0, 0], h_bitmap_bytes = 0, h_bitmap_pad = 0\<rparr>"

definition demo_snapshot :: snapshot where
  "demo_snapshot = \<lparr>hdr = demo_hdr, xsave = replicate XSAVE_SIZE 9, cpuid = [], msrs = [], snap_ram = [], dirty_bitmap = []\<rparr>"

lemma demo_hdr_ok: "hdr_ok demo_hdr" "hdr_ok (demo_hdr\<lparr>h_xsave_size := n\<rparr>)"
  by (simp_all add: hdr_ok_def demo_hdr_def hdr_pieces_def vq_pieces_def hdr_sizes_def)

lemma demo_snapshot_ok: "snapshot_ok demo_snapshot"
  using demo_hdr_ok(1)
  by (simp add: snapshot_ok_def demo_snapshot_def XSAVE_SIZE_def mb_bytes_def) (simp add: demo_hdr_def)

theorem snapshot_roundtrip_witness:
  "parse_snapshot (replicate XSAVE_SIZE 255) (snapshot_bytes demo_snapshot) = Inr demo_snapshot"
  by (rule snapshot_roundtrip [OF demo_snapshot_ok]) simp

section \<open>Damaged files\<close>

lemma section_of_short: "length bs < n \<Longrightarrow> section_of n bs = Inl Too_short"
  by (simp add: section_of_def)

lemma section_of_take:
  assumes "length a = n"
  shows "section_of n (take k (a @ b)) = (if k < n then Inl Too_short else Inr (a, take (k - n) b))"
  using assms by (auto simp: section_of_def)

lemma parse_rest_truncated:
  assumes "snapshot_ok s" and "k < length (cpuid s @ msrs s @ dirty_bitmap s @ snap_ram s)"
  shows "parse_rest (hdr s) xs (take k (cpuid s @ msrs s @ dirty_bitmap s @ snap_ram s)) = Inl Too_short"
proof -
  note ok = assms(1) [unfolded snapshot_ok_def]
  have c: "length (cpuid s) = unat (h_cpuid_nent (hdr s)) * CPUID_ENTRY" using ok by simp
  have m: "length (msrs s) = unat (h_num_msrs (hdr s)) * MSR_ENTRY" using ok by simp
  have r: "length (snap_ram s) = mb_bytes (h_ram_mb (hdr s))" using ok by simp
  have d: "length (dirty_bitmap s) = unat (h_bitmap_bytes (hdr s))" using ok by simp
  let ?k1 = "k - unat (h_cpuid_nent (hdr s)) * CPUID_ENTRY"
  let ?k2 = "?k1 - unat (h_num_msrs (hdr s)) * MSR_ENTRY"
  have b: "(if 0 < unat (h_bitmap_bytes (hdr s)) then section_of (unat (h_bitmap_bytes (hdr s))) (take k' (dirty_bitmap s @ snap_ram s))
            else Inr ([], take k' (dirty_bitmap s @ snap_ram s))) =
      (if k' < unat (h_bitmap_bytes (hdr s)) then Inl Too_short
       else Inr (dirty_bitmap s, take (k' - unat (h_bitmap_bytes (hdr s))) (snap_ram s)))" for k'
    using section_of_take [OF d, of k' "snap_ram s"] unfolding d [symmetric] by (cases "dirty_bitmap s = []") auto
  have last: "section_of (mb_bytes (h_ram_mb (hdr s))) (take k' (snap_ram s)) = Inl Too_short"
    if "k' < mb_bytes (h_ram_mb (hdr s))" for k'
    using that r by (simp add: section_of_def)
  note steps = parse_rest_def section_of_take [OF c] section_of_take [OF m] b sum.case prod.case if_True if_False
  consider (c) "k < unat (h_cpuid_nent (hdr s)) * CPUID_ENTRY"
    | (m) "\<not> k < unat (h_cpuid_nent (hdr s)) * CPUID_ENTRY" "?k1 < unat (h_num_msrs (hdr s)) * MSR_ENTRY"
    | (b) "\<not> k < unat (h_cpuid_nent (hdr s)) * CPUID_ENTRY" "\<not> ?k1 < unat (h_num_msrs (hdr s)) * MSR_ENTRY"
        "?k2 < unat (h_bitmap_bytes (hdr s))"
    | (r) "\<not> k < unat (h_cpuid_nent (hdr s)) * CPUID_ENTRY" "\<not> ?k1 < unat (h_num_msrs (hdr s)) * MSR_ENTRY"
        "\<not> ?k2 < unat (h_bitmap_bytes (hdr s))" by blast
  then show ?thesis
  proof cases
    case c
    then show ?thesis by (simp only: steps)
  next
    case m
    then show ?thesis by (simp only: steps)
  next
    case b
    then show ?thesis by (simp only: steps)
  next
    case r
    have "?k2 - unat (h_bitmap_bytes (hdr s)) < mb_bytes (h_ram_mb (hdr s))"
      using assms(2) r c m d \<open>length (snap_ram s) = mb_bytes (h_ram_mb (hdr s))\<close> by simp
    with r show ?thesis by (simp only: steps last)
  qed
qed

lemma snapshot_truncated:
  assumes "snapshot_ok s" and "length xbuf = XSAVE_SIZE" and "k < length (snapshot_bytes s)"
  shows "parse_snapshot xbuf (take k (snapshot_bytes s)) = Inl Too_short"
proof -
  let ?rest = "cpuid s @ msrs s @ dirty_bitmap s @ snap_ram s"
  have h: "hdr_ok (hdr s)" and x: "take (unat (h_xsave_size (hdr s))) (xsave s) = xsave s"
    "length (xsave s) = unat (h_xsave_size (hdr s))" "length (xsave s) = XSAVE_SIZE"
    using assms(1) by (simp_all add: snapshot_ok_def)
  note lh = length_hdr_bytes [OF h]
  have bytes: "snapshot_bytes s = hdr_bytes (hdr s) @ xsave s @ ?rest" by (simp add: snapshot_bytes_def x(1))
  show ?thesis
  proof (cases "k < HDR_SIZE")
    case True
    then show ?thesis by (simp add: parse_snapshot_def section_of_short)
  next
    case False
    then have cutk: "take k (snapshot_bytes s) = hdr_bytes (hdr s) @ take (k - HDR_SIZE) (xsave s @ ?rest)"
      by (simp add: bytes lh)
    have put: "buf_put xbuf 0 (xsave s) = Some (xsave s)" using assms(2) x(3) by (simp add: buf_put_def)
    have "parse_rest (hdr s) (xsave s) (take (k - HDR_SIZE - length (xsave s)) ?rest) = Inl Too_short"
      if "length (xsave s) \<le> k - HDR_SIZE"
      by (rule parse_rest_truncated [OF assms(1)]) (use assms(3) that False lh in \<open>simp add: bytes\<close>)
    then show ?thesis
      unfolding cutk parse_snapshot_header [OF h] section_of_take [OF x(2)] using x(2) by (simp add: put)
  qed
qed

text \<open>
  Claim C10.  A truncated snapshot file is rejected.  If the file that a snapshot was written
  to is cut anywhere, however little is missing, the parser reports it as too short: it never
  reads past the end of the mapping and never yields a snapshot.
\<close>

theorem snapshot_truncated_rejected:
  assumes "snapshot_ok s" and "length xbuf = XSAVE_SIZE" and "k < length (snapshot_bytes s)"
  shows "parse_snapshot xbuf (take k (snapshot_bytes s)) = Inl Too_short"
  by (rule snapshot_truncated [OF assms])

theorem snapshot_truncated_rejected_witness:
  "parse_snapshot (replicate XSAVE_SIZE 0) (take 12191 (snapshot_bytes demo_snapshot)) = Inl Too_short"
proof (rule snapshot_truncated_rejected [OF demo_snapshot_ok])
  have "length (snapshot_bytes demo_snapshot) = 12192"
    using length_hdr_bytes [OF demo_hdr_ok(1)]
    by (simp add: snapshot_bytes_def demo_snapshot_def XSAVE_SIZE_def HDR_SIZE_def) (simp add: demo_hdr_def)
  then show "12191 < length (snapshot_bytes demo_snapshot)" by simp
qed simp

text \<open>
  The XSAVE section is copied without a bound.  The header's \<open>xsave_size\<close> is
  compared with the length of the file but not with the 8192-byte buffer it is copied to: for
  every larger value, in a file that is long enough, the copy runs past the buffer.
\<close>

lemma parse_xsave_overflow:
  assumes "hdr_ok h" and "length xbuf = XSAVE_SIZE"
    and "XSAVE_SIZE < unat (h_xsave_size h)" and "unat (h_xsave_size h) \<le> length rest"
  shows "parse_snapshot xbuf (hdr_bytes h @ rest) = Inl Xsave_overflow"
proof -
  have "section_of (unat (h_xsave_size h)) rest = Inr (take (unat (h_xsave_size h)) rest, drop (unat (h_xsave_size h)) rest)"
    using assms(4) by (simp add: section_of_def)
  moreover have "buf_put xbuf 0 (take (unat (h_xsave_size h)) rest) = None"
    using assms by (simp add: buf_put_def)
  ultimately show ?thesis by (simp add: parse_snapshot_header [OF assms(1)])
qed

lemma parse_xsave_overflow_witness:
  "parse_snapshot (replicate XSAVE_SIZE 0) (hdr_bytes (demo_hdr\<lparr>h_xsave_size := 8193\<rparr>) @ replicate 9000 0) = Inl Xsave_overflow"
  by (rule parse_xsave_overflow [OF demo_hdr_ok(2)]) (simp_all add: XSAVE_SIZE_def)

section \<open>Layout\<close>

lemma member_at:
  assumes "i < length ps"
  shows "take (length (ps ! i)) (drop (sum_list (map length (take i ps))) (concat ps)) = ps ! i"
  using assms
proof (induction ps arbitrary: i)
  case (Cons q ps)
  then show ?case by (cases i) auto
qed simp

lemma hdr_member_at:
  assumes "hdr_ok h" "i < length hdr_sizes"
  shows "take (hdr_sizes ! i) (drop (sum_list (take i hdr_sizes)) (hdr_bytes h)) = hdr_pieces h ! i"
proof -
  have e: "map length (hdr_pieces h) = hdr_sizes" using assms(1) by (simp add: hdr_ok_def)
  then have "length (hdr_pieces h) = length hdr_sizes" by (metis length_map)
  then show ?thesis
    using member_at [of i "hdr_pieces h"] assms(2) unfolding e [symmetric] hdr_bytes_def
    by (simp add: take_map [symmetric])
qed



end
