(* ===== verification/Restore_Engines.thy ===== *)
theory Restore_Engines
  imports Pages
begin

text \<open>
  The eager engines with which \<open>restore_snapshot\<close> (\<^verbatim>\<open>src/vmm.cpp\<close>) fills guest RAM: the parallel
  bitmap copy, in which several threads take 1 MB chunks from a shared counter and copy runs
  of dirty pages, and the page scan used when a snapshot has no bitmap.  The locale
  \<open>page_restorer\<close> is the contract that both meet, and on which the correctness of a
  restore rests.
\<close>

section \<open>The contract of a restore engine\<close>

text \<open>
  An engine relates the snapshot's RAM, the RAM before and the RAM after.  It copies the
  pages it has marked and leaves the others alone.
\<close>

locale page_restorer =
  fixes engine :: "guest_ram \<Rightarrow> guest_ram \<Rightarrow> guest_ram \<Rightarrow> bool"
    and marked :: "guest_ram \<Rightarrow> nat \<Rightarrow> bool"
  assumes engine_size: "engine src dst res \<Longrightarrow> ram_bytes res = ram_bytes dst"
    and engine_page: "engine src dst res \<Longrightarrow> j < ram_bytes dst \<Longrightarrow>
      ram_mem res j = (if marked src (j div PAGE) then ram_mem src j else ram_mem dst j)"
begin

text \<open>
  The RAM is restored when every non-zero page of the snapshot is marked and the pages that
  are not marked are still zero.
\<close>

lemma restored:
  assumes e: "engine src dst res" and j: "j < ram_bytes dst"
    and marks: "\<And>pg. pg < total_pages dst \<Longrightarrow> page_dirty (ram_mem src) pg \<Longrightarrow> marked src pg"
    and size: "PAGE dvd ram_bytes dst"
    and clean: "\<And>i. i < ram_bytes dst \<Longrightarrow> \<not> marked src (i div PAGE) \<Longrightarrow> ram_mem dst i = 0"
  shows "ram_mem res j = ram_mem src j"
proof (cases "marked src (j div PAGE)")
  case True
  then show ?thesis using engine_page [OF e j] by simp
next
  case False
  have "j div PAGE < total_pages dst"
    using j size by (auto simp: total_pages_def PAGE_def elim!: dvdE)
  with False marks have "\<not> page_dirty (ram_mem src) (j div PAGE)" by blast
  then have "ram_mem src j = 0" by (rule page_clean_byte)
  with False clean [OF j] engine_page [OF e j] show ?thesis by simp
qed

text \<open>A page that is not marked keeps what it held.\<close>

lemma stale:
  assumes "engine src dst res" "j < ram_bytes dst" "\<not> marked src (j div PAGE)"
  shows "ram_mem res j = ram_mem dst j"
  using engine_page [OF assms(1,2)] assms(3) by simp

end

section \<open>The parallel bitmap copy\<close>

definition CHUNK_PAGES :: nat where "CHUNK_PAGES = 256"

lemma CHUNK_PAGES_pos [simp]: "0 < CHUNK_PAGES" by (simp add: CHUNK_PAGES_def)

definition num_chunks :: "nat \<Rightarrow> nat" where
  "num_chunks npages = (npages + CHUNK_PAGES - 1) div CHUNK_PAGES"

text \<open>
  A worker is about to fetch a chunk, inside the page loop of a chunk, or finished.  The
  last argument is its \<open>local_dirty\<close>.
\<close>

datatype worker = W_fetch nat | W_copy nat nat nat | W_done

record copy_state =
  chunk_idx :: nat
  workers :: "worker list"
  copy_dst :: guest_ram
  total_dirty :: nat

text \<open>\<^verbatim>\<open>while (pg < pg_end && (bitmap[pg / 8] & (1 << (pg & 7)))) pg++;\<close>\<close>

function run_end :: "u8 list \<Rightarrow> nat \<Rightarrow> nat \<Rightarrow> nat option" where
  "run_end bm pg pg_end =
     (if pg < pg_end
      then (case bitmap_test bm pg of
              None \<Rightarrow> None
            | Some d \<Rightarrow> if d then run_end bm (pg + 1) pg_end else Some pg)
      else Some pg)"
  by pat_completeness auto
termination by (relation "measure (\<lambda>(bm, pg, pg_end). pg_end - pg)") auto

declare run_end.simps [simp del]

text \<open>One round of the page loop: skip a clean page, or copy a run of dirty pages.\<close>

definition copy_round ::
  "guest_ram \<Rightarrow> u8 list \<Rightarrow> nat \<Rightarrow> nat \<Rightarrow> nat \<Rightarrow> guest_ram \<Rightarrow> (worker \<times> guest_ram) option" where
  "copy_round src bm pg pg_end n dst =
     (case bitmap_test bm pg of
        None \<Rightarrow> None
      | Some False \<Rightarrow> Some (W_copy (pg + 1) pg_end n, dst)
      | Some True \<Rightarrow>
          (case run_end bm pg pg_end of
             None \<Rightarrow> None
           | Some q \<Rightarrow>
               (case ram_get src (pg * PAGE) ((q - pg) * PAGE) of
                  None \<Rightarrow> None
                | Some bs \<Rightarrow> map_option (\<lambda>d. (W_copy q pg_end (n + (q - pg)), d)) (ram_put dst (pg * PAGE) bs))))"

text \<open>
  One action of worker \<open>i\<close>.  \<open>fetch_add\<close> on the chunk counter is one atomic action; the runs of
  pages that different workers copy never overlap, so each \<open>memcpy\<close> is one action too.
  \<open>None\<close> is an access outside an object.
\<close>

definition worker_step :: "guest_ram \<Rightarrow> u8 list \<Rightarrow> nat \<Rightarrow> nat \<Rightarrow> copy_state \<Rightarrow> copy_state option" where
  "worker_step src bm npages i s =
     (case workers s ! i of
        W_fetch n \<Rightarrow>
          (let ch = chunk_idx s
           in if num_chunks npages \<le> ch
              then Some (s\<lparr>chunk_idx := ch + 1, workers := (workers s)[i := W_done],
                           total_dirty := total_dirty s + n\<rparr>)
              else Some (s\<lparr>chunk_idx := ch + 1,
                           workers := (workers s)[i := W_copy (ch * CHUNK_PAGES)
                             (min (ch * CHUNK_PAGES + CHUNK_PAGES) npages) n]\<rparr>))
      | W_copy pg pg_end n \<Rightarrow>
          (if pg < pg_end
           then map_option (\<lambda>(w, d). s\<lparr>workers := (workers s)[i := w], copy_dst := d\<rparr>)
                  (copy_round src bm pg pg_end n (copy_dst s))
           else Some (s\<lparr>workers := (workers s)[i := W_fetch n]\<rparr>))
      | W_done \<Rightarrow> Some s)"

text \<open>\<^verbatim>\<open>copy_threads_ > 0 ? copy_threads_ : 4\<close>, at most 8; the main thread is one of them.\<close>

definition num_copy_threads :: "int \<Rightarrow> nat" where
  "num_copy_threads copy_threads = nat (min 8 (if 0 < copy_threads then copy_threads else 4))"

definition copy_init :: "nat \<Rightarrow> guest_ram \<Rightarrow> copy_state" where
  "copy_init nthreads dst =
     \<lparr>chunk_idx = 0, workers = replicate nthreads (W_fetch 0), copy_dst = dst, total_dirty = 0\<rparr>"

definition copy_finished :: "copy_state \<Rightarrow> bool" where
  "copy_finished s \<longleftrightarrow> (\<forall>w \<in> set (workers s). w = W_done)"

text \<open>
  The threads run in some order: a schedule names the worker that acts next.  The copy
  returns when all workers have been joined.
\<close>

fun run_schedule :: "guest_ram \<Rightarrow> u8 list \<Rightarrow> nat \<Rightarrow> nat list \<Rightarrow> copy_state \<Rightarrow> copy_state option" where
  "run_schedule src bm npages [] s = Some s"
| "run_schedule src bm npages (i # is) s =
     (if i < length (workers s)
      then (case worker_step src bm npages i s of
              None \<Rightarrow> None
            | Some s' \<Rightarrow> run_schedule src bm npages is s')
      else run_schedule src bm npages is s)"

definition bitmap_copy :: "nat list \<Rightarrow> int \<Rightarrow> u8 list \<Rightarrow> guest_ram \<Rightarrow> guest_ram \<Rightarrow> guest_ram option" where
  "bitmap_copy sched copy_threads bm src dst =
     (case run_schedule src bm (total_pages dst) sched (copy_init (num_copy_threads copy_threads) dst) of
        None \<Rightarrow> None
      | Some s \<Rightarrow> if copy_finished s then Some (copy_dst s) else None)"

section \<open>The page scan\<close>

function scan_copy :: "guest_ram \<Rightarrow> nat \<Rightarrow> guest_ram \<Rightarrow> guest_ram option" where
  "scan_copy src off dst =
     (if off < ram_bytes dst
      then (case ram_get src off PAGE of
              None \<Rightarrow> None
            | Some bs \<Rightarrow>
                if scan_page (ram_mem src) off 0 0 \<noteq> 0
                then (case ram_put dst off bs of
                        None \<Rightarrow> None
                      | Some dst' \<Rightarrow> scan_copy src (off + PAGE) dst')
                else scan_copy src (off + PAGE) dst)
      else Some dst)"
  by pat_completeness auto
termination
  by (relation "measure (\<lambda>(src, off, dst). ram_bytes dst - off)")
    (auto dest!: ram_put_bytes simp: PAGE_def)

declare scan_copy.simps [simp del]

section \<open>Correctness of the parallel copy\<close>

lemma run_end_spec:
  assumes "pg_end \<le> 8 * length bm" "pg \<le> pg_end"
  shows "\<exists>q. run_end bm pg pg_end = Some q \<and> pg \<le> q \<and> q \<le> pg_end \<and>
    (\<forall>k. pg \<le> k \<and> k < q \<longrightarrow> bitmap_bit bm k) \<and> (pg < pg_end \<and> bitmap_bit bm pg \<longrightarrow> pg < q)"
  using assms
proof (induction bm pg pg_end rule: run_end.induct)
  case (1 bm pg pg_end)
  show ?case
  proof (cases "pg < pg_end \<and> bitmap_bit bm pg")
    case True
    then have t: "bitmap_test bm pg = Some True" using 1(2) by (simp add: bitmap_test_Some)
    from 1(1) [OF _ t TrueI 1(2)] True obtain q where
      q: "run_end bm (pg + 1) pg_end = Some q" "pg + 1 \<le> q" "q \<le> pg_end"
        "\<forall>k. pg + 1 \<le> k \<and> k < q \<longrightarrow> bitmap_bit bm k" by auto
    have "run_end bm pg pg_end = Some q" using q(1) by (subst run_end.simps) (simp add: True t)
    moreover have "\<forall>k. pg \<le> k \<and> k < q \<longrightarrow> bitmap_bit bm k"
      using q(4) True by (metis Suc_eq_plus1 le_neq_implies_less Suc_leI)
    ultimately show ?thesis using q by auto
  next
    case False
    then have "run_end bm pg pg_end = Some pg"
      using 1(2) by (subst run_end.simps) (auto simp: bitmap_test_Some)
    with 1(3) False show ?thesis by auto
  qed
qed

lemma copy_round_spec:
  assumes pg: "pg < pg_end" "pg_end \<le> npages" and bm: "npages \<le> 8 * length bm"
    and src: "npages * PAGE \<le> ram_bytes src" and dst: "npages * PAGE \<le> ram_bytes dst"
  shows "\<exists>q n' d. copy_round src bm pg pg_end n dst = Some (W_copy q pg_end n', d) \<and> pg < q \<and> q \<le> pg_end \<and>
    ram_bytes d = ram_bytes dst \<and>
    n' = n + card {k. pg \<le> k \<and> k < q \<and> bitmap_bit bm k} \<and>
    (\<forall>j. ram_mem d j = (if pg \<le> j div PAGE \<and> j div PAGE < q \<and> bitmap_bit bm (j div PAGE)
                        then ram_mem src j else ram_mem dst j))"
proof (cases "bitmap_bit bm pg")
  case False
  have "copy_round src bm pg pg_end n dst = Some (W_copy (pg + 1) pg_end n, dst)"
    using False pg bm by (simp add: copy_round_def bitmap_test_Some)
  moreover have "{k. pg \<le> k \<and> k < pg + 1 \<and> bitmap_bit bm k} = {}" using False by (auto simp: le_less_Suc_eq)
  ultimately show ?thesis using False pg by (auto simp: le_less_Suc_eq)
next
  case True
  from run_end_spec [of pg_end bm pg] pg bm True obtain q where
    q: "run_end bm pg pg_end = Some q" "pg < q" "q \<le> pg_end"
    and bits: "\<And>k. pg \<le> k \<Longrightarrow> k < q \<Longrightarrow> bitmap_bit bm k" by auto
  let ?bs = "ram_peek src (pg * PAGE) ((q - pg) * PAGE)"
  have e: "pg * PAGE + (q - pg) * PAGE = q * PAGE" using q(2) by (simp add: add_mult_distrib [symmetric])
  have "q * PAGE \<le> npages * PAGE" using q(3) pg(2) by simp
  then have le: "q * PAGE \<le> ram_bytes src" "q * PAGE \<le> ram_bytes dst" using src dst by linarith+
  have g: "ram_get src (pg * PAGE) ((q - pg) * PAGE) = Some ?bs"
    using e le by (simp add: ram_get_def ram_ok_def)
  let ?d = "dst\<lparr>ram_mem := mem_poke (ram_mem dst) (pg * PAGE) ?bs\<rparr>"
  have p: "ram_put dst (pg * PAGE) ?bs = Some ?d"
    using e le by (simp add: ram_put_def ram_ok_def)
  have "copy_round src bm pg pg_end n dst = Some (W_copy q pg_end (n + (q - pg)), ?d)"
    using True pg bm q g p by (simp add: copy_round_def bitmap_test_Some)
  moreover have "{k. pg \<le> k \<and> k < q \<and> bitmap_bit bm k} = {pg..<q}" using bits by auto
  moreover have "ram_mem ?d j = (if pg \<le> j div PAGE \<and> j div PAGE < q \<and> bitmap_bit bm (j div PAGE)
                        then ram_mem src j else ram_mem dst j)" for j
  proof -
    have "pg * PAGE \<le> j \<and> j < q * PAGE \<longleftrightarrow> pg \<le> j div PAGE \<and> j div PAGE < q"
      by (simp add: less_eq_div_iff_mult_less_eq div_less_iff_less_mult)
    then show ?thesis using bits e by (auto simp: mem_poke_def nth_ram_peek)
  qed
  ultimately show ?thesis using q by auto
qed

text \<open>
  The pages a worker still has to look at, the pages nobody has finished, and the invariant:
  the ranges of the workers are disjoint parts of the fetched chunks, a finished page holds
  the snapshot's bytes if its bit is set, every other byte is untouched, and the counters add
  up to the number of pages copied.
\<close>

fun span :: "worker \<Rightarrow> nat set" where
  "span (W_copy pg pg_end n) = {pg..<pg_end}"
| "span _ = {}"

fun local_dirty :: "worker \<Rightarrow> nat" where
  "local_dirty (W_fetch n) = n"
| "local_dirty (W_copy pg pg_end n) = n"
| "local_dirty W_done = 0"

definition pending :: "copy_state \<Rightarrow> nat \<Rightarrow> bool" where
  "pending s pg \<longleftrightarrow> chunk_idx s * CHUNK_PAGES \<le> pg \<or> (\<exists>i < length (workers s). pg \<in> span (workers s ! i))"

definition copied :: "u8 list \<Rightarrow> nat \<Rightarrow> copy_state \<Rightarrow> nat set" where
  "copied bm npages s = {pg. pg < npages \<and> bitmap_bit bm pg \<and> \<not> pending s pg}"

definition spans_ok :: "nat \<Rightarrow> copy_state \<Rightarrow> bool" where
  "spans_ok npages s \<longleftrightarrow>
     (\<forall>i < length (workers s). span (workers s ! i) \<subseteq> {..<min npages (chunk_idx s * CHUNK_PAGES)}) \<and>
     (\<forall>i < length (workers s). \<forall>j < length (workers s). i \<noteq> j \<longrightarrow> span (workers s ! i) \<inter> span (workers s ! j) = {}) \<and>
     (W_done \<in> set (workers s) \<longrightarrow> num_chunks npages \<le> chunk_idx s)"

definition copy_inv :: "guest_ram \<Rightarrow> u8 list \<Rightarrow> guest_ram \<Rightarrow> nat \<Rightarrow> copy_state \<Rightarrow> bool" where
  "copy_inv src bm dst npages s \<longleftrightarrow>
     spans_ok npages s \<and> ram_bytes (copy_dst s) = ram_bytes dst \<and>
     (\<forall>j. j div PAGE < npages \<longrightarrow>
        ram_mem (copy_dst s) j = (if j div PAGE \<in> copied bm npages s then ram_mem src j else ram_mem dst j)) \<and>
     total_dirty s + sum_list (map local_dirty (workers s)) = card (copied bm npages s)"

lemma chunks_cover: "num_chunks npages \<le> ch \<longleftrightarrow> npages \<le> ch * CHUNK_PAGES"
proof -
  have "num_chunks npages \<le> ch \<longleftrightarrow> npages + CHUNK_PAGES - 1 < (ch + 1) * CHUNK_PAGES"
    unfolding num_chunks_def by (metis CHUNK_PAGES_pos Suc_eq_plus1 div_less_iff_less_mult less_Suc_eq_le)
  also have "\<dots> \<longleftrightarrow> npages \<le> ch * CHUNK_PAGES" unfolding CHUNK_PAGES_def by arith
  finally show ?thesis .
qed

lemma finite_copied [simp]: "finite (copied bm npages s)"
  by (rule finite_subset [of _ "{..<npages}"]) (auto simp: copied_def)

lemma copy_inv_init:
  assumes "npages = total_pages dst"
  shows "copy_inv src bm dst npages (copy_init nthreads dst)"
proof -
  have "copied bm npages (copy_init nthreads dst) = {}"
    by (simp add: copied_def pending_def copy_init_def)
  then show ?thesis by (auto simp: copy_inv_def spans_ok_def copy_init_def)
qed

text \<open>An action of worker \<open>i\<close> that replaces its state and moves no bytes.\<close>

lemma copy_inv_move:
  assumes inv: "copy_inv src bm dst npages s" and i: "i < length (workers s)"
    and s': "workers s' = (workers s)[i := w]" "copy_dst s' = copy_dst s"
    and cnt: "total_dirty s' + local_dirty w = total_dirty s + local_dirty (workers s ! i)"
    and same: "\<And>pg. pg < npages \<Longrightarrow> pending s' pg = pending s pg"
    and ok: "spans_ok npages s'"
  shows "copy_inv src bm dst npages s'"
proof -
  have "copied bm npages s' = copied bm npages s" using same by (auto simp: copied_def)
  moreover have "total_dirty s' + sum_list (map local_dirty (workers s')) =
      total_dirty s + sum_list (map local_dirty (workers s))"
    using i cnt elem_le_sum_list [of i "map local_dirty (workers s)"]
    by (simp add: s' map_update sum_list_update)
  ultimately show ?thesis using inv ok s' by (simp add: copy_inv_def)
qed

lemma pending_update:
  assumes "i < length (workers s)" "workers s' = (workers s)[i := w]"
  shows "pending s' pg \<longleftrightarrow> chunk_idx s' * CHUNK_PAGES \<le> pg \<or> pg \<in> span w \<or>
    (\<exists>k < length (workers s). k \<noteq> i \<and> pg \<in> span (workers s ! k))"
  using assms unfolding pending_def by (auto simp: nth_list_update)

lemma pending_split:
  assumes "i < length (workers s)"
  shows "pending s pg \<longleftrightarrow> chunk_idx s * CHUNK_PAGES \<le> pg \<or> pg \<in> span (workers s ! i) \<or>
    (\<exists>k < length (workers s). k \<noteq> i \<and> pg \<in> span (workers s ! k))"
  using assms unfolding pending_def by auto

lemma spans_ok_update:
  assumes ok: "spans_ok npages s" and i: "i < length (workers s)"
    and s': "workers s' = (workers s)[i := w]" "chunk_idx s \<le> chunk_idx s'"
    and sub: "span w \<subseteq> {..<min npages (chunk_idx s' * CHUNK_PAGES)}"
    and dis: "\<And>k. k < length (workers s) \<Longrightarrow> k \<noteq> i \<Longrightarrow> span w \<inter> span (workers s ! k) = {}"
    and don: "w = W_done \<Longrightarrow> num_chunks npages \<le> chunk_idx s'"
  shows "spans_ok npages s'"
proof -
  have m: "min npages (chunk_idx s * CHUNK_PAGES) \<le> min npages (chunk_idx s' * CHUNK_PAGES)"
    using s'(2) by (simp add: min_le_iff_disj)
  have nth: "span (workers s' ! k) = (if k = i then span w else span (workers s ! k))" if "k < length (workers s)" for k
    using that i s'(1) by (simp add: nth_list_update)
  have len: "length (workers s') = length (workers s)" by (simp add: s'(1))
  have old: "span (workers s ! k) \<subseteq> {..<min npages (chunk_idx s * CHUNK_PAGES)}" if "k < length (workers s)" for k
    using ok that unfolding spans_ok_def by blast
  have a: "span (workers s' ! k) \<subseteq> {..<min npages (chunk_idx s' * CHUNK_PAGES)}" if "k < length (workers s')" for k
    using that sub len subset_trans [OF old [of k] lessThan_subset_iff [THEN iffD2, OF m]]
    by (cases "k = i") (simp_all only: nth refl if_True if_False)
  have b: "span (workers s' ! k) \<inter> span (workers s' ! j) = {}"
    if "k < length (workers s')" "j < length (workers s')" "k \<noteq> j" for k j
    using that len ok dis [of k] dis [of j] unfolding spans_ok_def by (auto simp: nth)
  have c: "W_done \<in> set (workers s') \<longrightarrow> num_chunks npages \<le> chunk_idx s'"
    using ok s' don set_update_subset_insert [of "workers s" i w] unfolding spans_ok_def by auto
  from a b c show ?thesis unfolding spans_ok_def by blast
qed

lemma spans_okD:
  assumes "spans_ok npages s" "i < length (workers s)"
  shows "pg \<in> span (workers s ! i) \<Longrightarrow> pg < npages \<and> pg < chunk_idx s * CHUNK_PAGES"
    and "k < length (workers s) \<Longrightarrow> k \<noteq> i \<Longrightarrow> span (workers s ! i) \<inter> span (workers s ! k) = {}"
proof -
  have "span (workers s ! i) \<subseteq> {..<min npages (chunk_idx s * CHUNK_PAGES)}"
    using assms unfolding spans_ok_def by blast
  then show "pg \<in> span (workers s ! i) \<Longrightarrow> pg < npages \<and> pg < chunk_idx s * CHUNK_PAGES" by auto
  show "k < length (workers s) \<Longrightarrow> k \<noteq> i \<Longrightarrow> span (workers s ! i) \<inter> span (workers s ! k) = {}"
    using assms unfolding spans_ok_def by blast
qed

lemma copy_inv_fetch_end:
  assumes inv: "copy_inv src bm dst npages s" and i: "i < length (workers s)"
    and w: "workers s ! i = W_fetch n" and ch: "num_chunks npages \<le> chunk_idx s"
  shows "copy_inv src bm dst npages
    (s\<lparr>chunk_idx := chunk_idx s + 1, workers := (workers s)[i := W_done], total_dirty := total_dirty s + n\<rparr>)"
    (is "copy_inv _ _ _ _ ?s'")
proof (rule copy_inv_move [OF inv i, where w = W_done])
  have ok: "spans_ok npages s" using inv by (simp add: copy_inv_def)
  show "spans_ok npages ?s'" by (rule spans_ok_update [OF ok i]) (use ch in auto)
  fix pg
  assume "pg < npages"
  then have "\<not> chunk_idx s * CHUNK_PAGES \<le> pg" using ch by (simp add: chunks_cover)
  then show "pending ?s' pg = pending s pg"
    using pending_update [OF i, of ?s' W_done] pending_split [OF i] w by auto
qed (use w in simp_all)

lemma copy_inv_fetch:
  assumes inv: "copy_inv src bm dst npages s" and i: "i < length (workers s)"
    and w: "workers s ! i = W_fetch n" and ch: "\<not> num_chunks npages \<le> chunk_idx s"
  shows "copy_inv src bm dst npages
    (s\<lparr>chunk_idx := chunk_idx s + 1,
      workers := (workers s)[i := W_copy (chunk_idx s * CHUNK_PAGES) (min (chunk_idx s * CHUNK_PAGES + CHUNK_PAGES) npages) n]\<rparr>)"
    (is "copy_inv _ _ _ _ ?s'")
proof (rule copy_inv_move [OF inv i, where w = "W_copy (chunk_idx s * CHUNK_PAGES) (min (chunk_idx s * CHUNK_PAGES + CHUNK_PAGES) npages) n"])
  have ok: "spans_ok npages s" using inv by (simp add: copy_inv_def)
  show "spans_ok npages ?s'"
  proof (rule spans_ok_update [OF ok i])
    fix k
    assume k: "k < length (workers s)" "k \<noteq> i"
    show "span (W_copy (chunk_idx s * CHUNK_PAGES) (min (chunk_idx s * CHUNK_PAGES + CHUNK_PAGES) npages) n) \<inter> span (workers s ! k) = {}"
      using spans_okD(1) [OF ok k(1)] by fastforce
  qed auto
  fix pg
  assume "pg < npages"
  then show "pending ?s' pg = pending s pg"
    using pending_update [OF i, of ?s' "W_copy (chunk_idx s * CHUNK_PAGES) (min (chunk_idx s * CHUNK_PAGES + CHUNK_PAGES) npages) n"]
      pending_split [OF i] w by auto
qed (use w in simp_all)

lemma copy_inv_chunk_end:
  assumes inv: "copy_inv src bm dst npages s" and i: "i < length (workers s)"
    and w: "workers s ! i = W_copy pg pg_end n" and e: "\<not> pg < pg_end"
  shows "copy_inv src bm dst npages (s\<lparr>workers := (workers s)[i := W_fetch n]\<rparr>)"
    (is "copy_inv _ _ _ _ ?s'")
proof (rule copy_inv_move [OF inv i, where w = "W_fetch n"])
  have ok: "spans_ok npages s" using inv by (simp add: copy_inv_def)
  show "spans_ok npages ?s'" by (rule spans_ok_update [OF ok i]) auto
  fix q
  show "pending ?s' q = pending s q"
    using pending_update [OF i, of ?s' "W_fetch n"] pending_split [OF i] w e by auto
qed (use w in simp_all)

text \<open>The sizes the engines rely on: a bit per page, and a snapshot as large as the RAM.\<close>

definition copy_ok :: "guest_ram \<Rightarrow> u8 list \<Rightarrow> guest_ram \<Rightarrow> bool" where
  "copy_ok src bm dst \<longleftrightarrow> total_pages dst \<le> 8 * length bm \<and> ram_bytes src = ram_bytes dst \<and> PAGE dvd ram_bytes dst"

lemma copy_okD:
  assumes "copy_ok src bm dst"
  shows "total_pages dst \<le> 8 * length bm" "total_pages dst * PAGE = ram_bytes dst" "ram_bytes src = ram_bytes dst"
    "j div PAGE < total_pages dst \<longleftrightarrow> j < ram_bytes dst"
proof -
  show "total_pages dst \<le> 8 * length bm" and src: "ram_bytes src = ram_bytes dst"
    using assms by (simp_all add: copy_ok_def)
  show e: "total_pages dst * PAGE = ram_bytes dst"
    using assms by (simp add: copy_ok_def total_pages_def)
  show "j div PAGE < total_pages dst \<longleftrightarrow> j < ram_bytes dst"
    unfolding e [symmetric] by (simp add: div_less_iff_less_mult)
qed

lemma copy_round_inv:
  assumes inv: "copy_inv src bm dst (total_pages dst) s" and ok: "copy_ok src bm dst"
    and i: "i < length (workers s)" and w: "workers s ! i = W_copy pg pg_end n" and lt: "pg < pg_end"
  shows "\<exists>q n' d. copy_round src bm pg pg_end n (copy_dst s) = Some (W_copy q pg_end n', d) \<and> pg < q \<and> q \<le> pg_end \<and>
    copy_inv src bm dst (total_pages dst) (s\<lparr>workers := (workers s)[i := W_copy q pg_end n'], copy_dst := d\<rparr>)"
proof -
  let ?N = "total_pages dst"
  have so: "spans_ok ?N s" and size: "ram_bytes (copy_dst s) = ram_bytes dst"
    using inv by (simp_all add: copy_inv_def)
  have "pg_end - 1 \<in> span (workers s ! i)" using w lt by auto
  from spans_okD(1) [OF so i this] have e: "pg_end \<le> ?N" by auto
  note okD = copy_okD [OF ok]
  have sz: "?N * PAGE \<le> ram_bytes src" "?N * PAGE \<le> ram_bytes (copy_dst s)"
    using okD(2,3) size by simp_all
  from copy_round_spec [OF lt e okD(1) sz, of n] obtain q n' d where
    r: "copy_round src bm pg pg_end n (copy_dst s) = Some (W_copy q pg_end n', d)" and q: "pg < q" "q \<le> pg_end"
    and d: "ram_bytes d = ram_bytes (copy_dst s)"
    and n': "n' = n + card {k. pg \<le> k \<and> k < q \<and> bitmap_bit bm k}"
    and m: "\<And>j. ram_mem d j = (if pg \<le> j div PAGE \<and> j div PAGE < q \<and> bitmap_bit bm (j div PAGE)
                        then ram_mem src j else ram_mem (copy_dst s) j)"
    by auto
  let ?w = "W_copy q pg_end n'"
  let ?s' = "s\<lparr>workers := (workers s)[i := ?w], copy_dst := d\<rparr>"
  have sub: "span ?w \<subseteq> span (workers s ! i)" using w q by auto
  have so': "spans_ok ?N ?s'"
  proof (rule spans_ok_update [OF so i, where w = ?w])
    show "span ?w \<subseteq> {..<min ?N (chunk_idx ?s' * CHUNK_PAGES)}"
      using spans_okD(1) [OF so i] w q by auto
    fix k
    assume "k < length (workers s)" "k \<noteq> i"
    from spans_okD(2) [OF so i this] sub show "span ?w \<inter> span (workers s ! k) = {}" by blast
  qed simp_all
  have pend: "pending ?s' p \<longleftrightarrow> pending s p \<and> \<not> (pg \<le> p \<and> p < q)" for p
  proof -
    have upd: "pending ?s' p \<longleftrightarrow> chunk_idx s * CHUNK_PAGES \<le> p \<or> p \<in> span ?w \<or>
        (\<exists>k < length (workers s). k \<noteq> i \<and> p \<in> span (workers s ! k))"
      using pending_update [OF i, of ?s' ?w p] by simp
    show ?thesis
    proof (cases "pg \<le> p \<and> p < q")
      case True
      then have p: "p \<in> span (workers s ! i)" using w q by auto
      have "\<not> chunk_idx s * CHUNK_PAGES \<le> p" using spans_okD(1) [OF so i p] by simp
      moreover have "p \<notin> span (workers s ! k)" if "k < length (workers s)" "k \<noteq> i" for k
        using spans_okD(2) [OF so i that] p by blast
      ultimately have "\<not> pending ?s' p" using upd True by auto
      then show ?thesis using True by blast
    next
      case False
      then have "p \<in> span ?w \<longleftrightarrow> p \<in> span (workers s ! i)" using w q by auto
      then show ?thesis using upd pending_split [OF i, of p] False by blast
    qed
  qed
  let ?new = "{k. pg \<le> k \<and> k < q \<and> bitmap_bit bm k}"
  have inpend: "pg \<le> p \<and> p < q \<Longrightarrow> pending s p" for p
    using pending_split [OF i, of p] w q by auto
  have cop: "copied bm ?N ?s' = copied bm ?N s \<union> ?new" and dis: "copied bm ?N s \<inter> ?new = {}"
    using pend inpend q e by (auto simp: copied_def)
  have fin: "finite ?new" by (rule finite_subset [of _ "{..<q}"]) auto
  have "card (copied bm ?N ?s') = card (copied bm ?N s) + card ?new"
    unfolding cop by (rule card_Un_disjoint [OF finite_copied fin dis])
  moreover have "sum_list (map local_dirty (workers ?s')) + n = sum_list (map local_dirty (workers s)) + n'"
    using i w elem_le_sum_list [of i "map local_dirty (workers s)"] by (simp add: map_update sum_list_update)
  moreover have "total_dirty s + sum_list (map local_dirty (workers s)) = card (copied bm ?N s)"
    using inv by (simp add: copy_inv_def)
  moreover have "total_dirty ?s' = total_dirty s" by simp
  ultimately have cnt: "total_dirty ?s' + sum_list (map local_dirty (workers ?s')) = card (copied bm ?N ?s')"
    using n' by linarith
  have "copy_inv src bm dst ?N ?s'"
    using so' inv m cnt d cop by (auto simp: copy_inv_def)
  with r q show ?thesis by blast
qed

lemma worker_step_inv:
  assumes inv: "copy_inv src bm dst (total_pages dst) s" and ok: "copy_ok src bm dst" and i: "i < length (workers s)"
  shows "\<exists>s'. worker_step src bm (total_pages dst) i s = Some s' \<and> copy_inv src bm dst (total_pages dst) s'"
proof (cases "workers s ! i")
  case (W_fetch n)
  then show ?thesis
    using copy_inv_fetch [OF inv i] copy_inv_fetch_end [OF inv i] by (simp add: worker_step_def Let_def)
next
  case (W_copy pg pg_end n)
  then show ?thesis
    using copy_round_inv [OF inv ok i W_copy] copy_inv_chunk_end [OF inv i W_copy]
    by (cases "pg < pg_end") (auto simp: worker_step_def)
next
  case W_done
  then show ?thesis using inv by (simp add: worker_step_def)
qed

subsection \<open>Termination\<close>

fun worker_measure :: "worker \<Rightarrow> nat" where
  "worker_measure (W_fetch n) = 1"
| "worker_measure (W_copy pg pg_end n) = 2 + (pg_end - pg)"
| "worker_measure W_done = 0"

definition copy_measure :: "nat \<Rightarrow> copy_state \<Rightarrow> nat" where
  "copy_measure npages s =
     (num_chunks npages - chunk_idx s) * (CHUNK_PAGES + 2) + sum_list (map worker_measure (workers s))"

lemma measure_update:
  assumes "i < length ws"
  shows "sum_list (map worker_measure (ws[i := w])) + worker_measure (ws ! i) =
    sum_list (map worker_measure ws) + worker_measure w"
  using assms elem_le_sum_list [of i "map worker_measure ws"] by (simp add: map_update sum_list_update)

lemma worker_step_length: "worker_step src bm npages i s = Some s' \<Longrightarrow> length (workers s') = length (workers s)"
  by (auto simp: worker_step_def Let_def split: worker.splits if_splits)

lemma worker_step_decreases:
  assumes inv: "copy_inv src bm dst (total_pages dst) s" and ok: "copy_ok src bm dst" and i: "i < length (workers s)"
    and act: "workers s ! i \<noteq> W_done" and st: "worker_step src bm (total_pages dst) i s = Some s'"
  shows "copy_measure (total_pages dst) s' < copy_measure (total_pages dst) s"
proof (cases "workers s ! i")
  case (W_fetch n)
  show ?thesis
  proof (cases "num_chunks (total_pages dst) \<le> chunk_idx s")
    case True
    then show ?thesis
      using W_fetch st measure_update [OF i, of W_done] by (auto simp: worker_step_def Let_def copy_measure_def)
  next
    case False
    let ?c = "chunk_idx s" and ?N = "total_pages dst"
    let ?w = "W_copy (?c * CHUNK_PAGES) (min (?c * CHUNK_PAGES + CHUNK_PAGES) ?N) n"
    have s': "chunk_idx s' = ?c + 1" "workers s' = (workers s)[i := ?w]"
      using W_fetch st False by (auto simp: worker_step_def Let_def)
    have "worker_measure ?w \<le> 2 + CHUNK_PAGES" by auto
    moreover have "(num_chunks ?N - ?c) * (CHUNK_PAGES + 2) =
        (num_chunks ?N - (?c + 1)) * (CHUNK_PAGES + 2) + (CHUNK_PAGES + 2)"
    proof -
      have "num_chunks ?N - ?c = Suc (num_chunks ?N - (?c + 1))" using False by simp
      then show ?thesis by simp
    qed
    ultimately show ?thesis
      using measure_update [OF i, of ?w] W_fetch s' by (simp add: copy_measure_def)
  qed
next
  case (W_copy pg pg_end n)
  show ?thesis
  proof (cases "pg < pg_end")
    case True
    from copy_round_inv [OF inv ok i W_copy True] obtain q n' d where
      r: "copy_round src bm pg pg_end n (copy_dst s) = Some (W_copy q pg_end n', d)" "pg < q" "q \<le> pg_end" by blast
    with W_copy True st show ?thesis
      using measure_update [OF i, of "W_copy q pg_end n'"] by (auto simp: worker_step_def copy_measure_def)
  next
    case False
    with W_copy st show ?thesis
      using measure_update [OF i, of "W_fetch n"] by (auto simp: worker_step_def copy_measure_def)
  qed
qed (use act in simp)

lemma run_schedule_inv:
  assumes "copy_inv src bm dst (total_pages dst) s" "copy_ok src bm dst"
  shows "\<exists>s'. run_schedule src bm (total_pages dst) sched s = Some s' \<and> copy_inv src bm dst (total_pages dst) s' \<and>
    length (workers s') = length (workers s) \<and>
    copy_measure (total_pages dst) s' \<le> copy_measure (total_pages dst) s \<and>
    ((\<exists>i \<in> set sched. i < length (workers s) \<and> workers s ! i \<noteq> W_done) \<longrightarrow>
       copy_measure (total_pages dst) s' < copy_measure (total_pages dst) s)"
  using assms
proof (induction sched arbitrary: s)
  case Nil
  then show ?case by simp
next
  case (Cons i sched)
  show ?case
  proof (cases "i < length (workers s) \<and> workers s ! i \<noteq> W_done")
    case True
    from worker_step_inv [OF Cons.prems] True obtain s1 where
      s1: "worker_step src bm (total_pages dst) i s = Some s1" "copy_inv src bm dst (total_pages dst) s1" by blast
    note len = worker_step_length [OF s1(1)]
    from Cons.IH [OF s1(2) Cons.prems(2)] worker_step_decreases [OF Cons.prems _ _ s1(1)] True s1(1) len
    show ?thesis by (fastforce dest: order.strict_trans1)
  next
    case False
    then have "run_schedule src bm (total_pages dst) (i # sched) s = run_schedule src bm (total_pages dst) sched s"
      by (auto simp: worker_step_def)
    with Cons.IH [OF Cons.prems] False show ?thesis by (metis set_ConsD)
  qed
qed

lemma run_schedule_append:
  "run_schedule src bm npages (xs @ ys) s =
     (case run_schedule src bm npages xs s of None \<Rightarrow> None | Some s' \<Rightarrow> run_schedule src bm npages ys s')"
  by (induction xs arbitrary: s) (auto split: option.splits)

lemma run_schedule_finished: "copy_finished s \<Longrightarrow> run_schedule src bm npages sched s = Some s"
proof (induction sched)
  case (Cons i sched)
  have "worker_step src bm npages i s = Some s" if "i < length (workers s)"
  proof -
    have "workers s ! i = W_done" using that Cons.prems by (simp add: copy_finished_def)
    then show ?thesis by (simp add: worker_step_def)
  qed
  with Cons show ?case by simp
qed simp

text \<open>A schedule that gives every worker a turn often enough lets all of them finish.\<close>

lemma fair_schedule_finishes:
  assumes inv: "copy_inv src bm dst (total_pages dst) s" and ok: "copy_ok src bm dst"
    and fair: "\<forall>r \<in> set rounds. {..<length (workers s)} \<subseteq> set r"
    and long: "copy_measure (total_pages dst) s \<le> length rounds"
  shows "\<exists>s'. run_schedule src bm (total_pages dst) (concat rounds) s = Some s' \<and> copy_finished s' \<and>
    copy_inv src bm dst (total_pages dst) s'"
  using inv fair long
proof (induction rounds arbitrary: s)
  case Nil
  then have "\<forall>x \<in> set (map worker_measure (workers s)). x = 0" by (simp add: copy_measure_def)
  then have "copy_finished s" unfolding copy_finished_def
    by (metis (no_types, lifting) image_eqI list.set_map worker.exhaust worker_measure.simps(1,2) add_is_0 zero_neq_one zero_neq_numeral)
  then show ?case using Nil by simp
next
  case (Cons r rounds)
  from run_schedule_inv [OF Cons.prems(1) ok, of r] obtain s1 where
    s1: "run_schedule src bm (total_pages dst) r s = Some s1" "copy_inv src bm dst (total_pages dst) s1"
      "length (workers s1) = length (workers s)"
    and le: "copy_measure (total_pages dst) s1 \<le> copy_measure (total_pages dst) s"
    and less: "(\<exists>i \<in> set r. i < length (workers s) \<and> workers s ! i \<noteq> W_done) \<Longrightarrow>
       copy_measure (total_pages dst) s1 < copy_measure (total_pages dst) s" by blast
  show ?case
  proof (cases "copy_finished s")
    case True
    then show ?thesis using Cons.prems(1) by (simp add: run_schedule_finished)
  next
    case False
    then obtain i where "i < length (workers s)" "workers s ! i \<noteq> W_done"
      by (auto simp: copy_finished_def in_set_conv_nth)
    with Cons.prems(2) less have "copy_measure (total_pages dst) s1 < copy_measure (total_pages dst) s" by auto
    with Cons.prems have "copy_measure (total_pages dst) s1 \<le> length rounds" by simp
    from Cons.IH [OF s1(2) _ this] Cons.prems(2) s1 show ?thesis by (simp add: run_schedule_append)
  qed
qed

subsection \<open>The result\<close>

lemma num_copy_threads_pos: "0 < num_copy_threads t"
  by (simp add: num_copy_threads_def)

lemma copy_finished_result:
  assumes inv: "copy_inv src bm dst (total_pages dst) s" and ok: "copy_ok src bm dst"
    and fin: "copy_finished s" and ne: "workers s \<noteq> []"
  shows "ram_bytes (copy_dst s) = ram_bytes dst"
    and "j < ram_bytes dst \<Longrightarrow>
      ram_mem (copy_dst s) j = (if bitmap_bit bm (j div PAGE) then ram_mem src j else ram_mem dst j)"
    and "total_dirty s = card {pg. pg < total_pages dst \<and> bitmap_bit bm pg}"
proof -
  have "W_done \<in> set (workers s)" using fin ne unfolding copy_finished_def by (metis last_in_set)
  then have "num_chunks (total_pages dst) \<le> chunk_idx s"
    using inv by (simp add: copy_inv_def spans_ok_def)
  then have "total_pages dst \<le> chunk_idx s * CHUNK_PAGES" by (simp add: chunks_cover)
  moreover have "span (workers s ! i) = {}" if "i < length (workers s)" for i
  proof -
    have "workers s ! i = W_done" using fin that by (simp add: copy_finished_def)
    then show ?thesis by simp
  qed
  ultimately have c: "copied bm (total_pages dst) s = {pg. pg < total_pages dst \<and> bitmap_bit bm pg}"
    by (auto simp: copied_def pending_def)
  show "ram_bytes (copy_dst s) = ram_bytes dst" using inv by (simp add: copy_inv_def)
  show "ram_mem (copy_dst s) j = (if bitmap_bit bm (j div PAGE) then ram_mem src j else ram_mem dst j)"
    if "j < ram_bytes dst"
    using inv that copy_okD(4) [OF ok, of j] by (simp add: copy_inv_def c)
  have "map local_dirty (workers s) = map (\<lambda>_. 0) (workers s)"
    using fin by (auto simp: copy_finished_def)
  then have "sum_list (map local_dirty (workers s)) = 0" by simp
  moreover have "total_dirty s + sum_list (map local_dirty (workers s)) = card (copied bm (total_pages dst) s)"
    using inv by (simp add: copy_inv_def)
  ultimately show "total_dirty s = card {pg. pg < total_pages dst \<and> bitmap_bit bm pg}"
    unfolding c by linarith
qed

lemma bitmap_copy_result:
  assumes "bitmap_copy sched t bm src dst = Some res" and ok: "copy_ok src bm dst"
  shows "ram_bytes res = ram_bytes dst"
    and "j < ram_bytes dst \<Longrightarrow>
      ram_mem res j = (if bitmap_bit bm (j div PAGE) then ram_mem src j else ram_mem dst j)"
proof -
  let ?s0 = "copy_init (num_copy_threads t) dst"
  from run_schedule_inv [OF copy_inv_init [OF refl, of src bm dst "num_copy_threads t"] ok, of sched] obtain s where
    s: "run_schedule src bm (total_pages dst) sched ?s0 = Some s" "copy_inv src bm dst (total_pages dst) s"
    "length (workers s) = length (workers ?s0)" by blast
  have "workers s \<noteq> []" using s(3) num_copy_threads_pos [of t] by (auto simp: copy_init_def)
  moreover from assms(1) s(1) have "copy_finished s" "res = copy_dst s"
    by (auto simp: bitmap_copy_def split: if_splits)
  ultimately show "ram_bytes res = ram_bytes dst"
    and "j < ram_bytes dst \<Longrightarrow>
      ram_mem res j = (if bitmap_bit bm (j div PAGE) then ram_mem src j else ram_mem dst j)"
    using copy_finished_result [OF s(2) ok] by auto
qed

text \<open>A schedule is fair enough when it gives every thread a turn in each of sufficiently many rounds.\<close>

definition fair_rounds :: "int \<Rightarrow> nat \<Rightarrow> nat list list \<Rightarrow> bool" where
  "fair_rounds threads npages rounds \<longleftrightarrow>
     (\<forall>r \<in> set rounds. {..<num_copy_threads threads} \<subseteq> set r) \<and>
     num_chunks npages * (CHUNK_PAGES + 2) + num_copy_threads threads \<le> length rounds"

lemma fair_rounds_finish:
  assumes "copy_ok src bm dst" and "fair_rounds threads (total_pages dst) rounds"
  shows "\<exists>s. run_schedule src bm (total_pages dst) (concat rounds) (copy_init (num_copy_threads threads) dst) = Some s \<and>
    copy_finished s \<and> copy_inv src bm dst (total_pages dst) s"
proof -
  let ?s0 = "copy_init (num_copy_threads threads) dst"
  have "length (workers ?s0) = num_copy_threads threads" by (simp add: copy_init_def)
  moreover have "copy_measure (total_pages dst) ?s0 \<le> length rounds"
    using assms(2) by (simp add: fair_rounds_def copy_measure_def copy_init_def sum_list_replicate)
  ultimately show ?thesis
    using fair_schedule_finishes [OF copy_inv_init [OF refl] assms(1)] assms(2) by (simp add: fair_rounds_def)
qed

lemma bitmap_copy_defined:
  assumes "copy_ok src bm dst" and "fair_rounds threads (total_pages dst) rounds"
  shows "\<exists>res. bitmap_copy (concat rounds) threads bm src dst = Some res"
  using fair_rounds_finish [OF assms] by (auto simp: bitmap_copy_def)

lemma fair_rounds_replicate:
  "num_chunks npages * (CHUNK_PAGES + 2) + num_copy_threads threads \<le> n \<Longrightarrow>
    fair_rounds threads npages (replicate n [0..<num_copy_threads threads])"
  by (auto simp: fair_rounds_def)

interpretation bitmap: page_restorer
  "\<lambda>src dst res. copy_ok src bm dst \<and> (\<exists>sched. bitmap_copy sched t bm src dst = Some res)"
  "\<lambda>_. bitmap_bit bm" for bm t
  by unfold_locales (auto simp: bitmap_copy_result)

subsection \<open>The page scan\<close>

lemma scan_copy_spec:
  assumes "ram_bytes src = ram_bytes dst" "PAGE dvd ram_bytes dst" "PAGE dvd off"
  shows "\<exists>res. scan_copy src off dst = Some res \<and> ram_bytes res = ram_bytes dst \<and>
    (\<forall>j. ram_mem res j = (if off \<le> j \<and> j < ram_bytes dst \<and> page_dirty (ram_mem src) (j div PAGE)
                         then ram_mem src j else ram_mem dst j))"
  using assms
proof (induction src off dst rule: scan_copy.induct)
  case (1 src off dst)
  show ?case
  proof (cases "off < ram_bytes dst")
    case False
    then show ?thesis by (subst scan_copy.simps) auto
  next
    case True
    obtain k where k: "off = k * PAGE" using 1(5) by (metis dvd_def mult.commute)
    have room: "off + PAGE \<le> ram_bytes dst"
      using True 1(4) k by (auto simp: PAGE_def elim!: dvdE)
    have get: "ram_get src off PAGE = Some (ram_peek src off PAGE)"
      using room 1(3) by (simp add: ram_get_def ram_ok_def)
    have page: "j div PAGE = k \<longleftrightarrow> off \<le> j \<and> j < off + PAGE" for j
      using div_PAGE_iff [of j k] k by (simp add: add.commute)
    have dirty: "scan_page (ram_mem src) off 0 0 \<noteq> 0 \<longleftrightarrow> page_dirty (ram_mem src) k"
      by (simp add: page_dirty_def k)
    have next_off: "PAGE dvd off + PAGE" using 1(5) by simp
    show ?thesis
    proof (cases "page_dirty (ram_mem src) k")
      case clean: False
      then have "scan_page (ram_mem src) off 0 0 = 0" using dirty by blast
      with 1(2) [OF True get _ 1(3,4) next_off] obtain res where
        r: "scan_copy src (off + PAGE) dst = Some res" "ram_bytes res = ram_bytes dst"
        "\<forall>j. ram_mem res j = (if off + PAGE \<le> j \<and> j < ram_bytes dst \<and> page_dirty (ram_mem src) (j div PAGE)
                         then ram_mem src j else ram_mem dst j)" by auto
      have "scan_copy src off dst = Some res"
        by (subst scan_copy.simps) (simp add: True get \<open>scan_page (ram_mem src) off 0 0 = 0\<close> r(1))
      moreover have "page_dirty (ram_mem src) (j div PAGE) \<Longrightarrow> off \<le> j \<longleftrightarrow> off + PAGE \<le> j" for j
        using clean page [of j] by (metis add_leD1 not_less)
      ultimately show ?thesis using r(2,3) by auto
    next
      case d: True
      let ?dst = "dst\<lparr>ram_mem := mem_poke (ram_mem dst) off (ram_peek src off PAGE)\<rparr>"
      have put: "ram_put dst off (ram_peek src off PAGE) = Some ?dst"
        using room by (simp add: ram_put_def ram_ok_def)
      have ne: "scan_page (ram_mem src) off 0 0 \<noteq> 0" using d dirty by blast
      from 1(1) [OF True get ne put] 1(3,4) next_off obtain res where
        r: "scan_copy src (off + PAGE) ?dst = Some res" "ram_bytes res = ram_bytes dst"
        "\<forall>j. ram_mem res j = (if off + PAGE \<le> j \<and> j < ram_bytes dst \<and> page_dirty (ram_mem src) (j div PAGE)
                         then ram_mem src j else ram_mem ?dst j)" by auto
      have "scan_copy src off dst = Some res"
        by (subst scan_copy.simps) (simp add: True get ne put r(1))
      moreover have "ram_mem ?dst j = (if off \<le> j \<and> j < off + PAGE then ram_mem src j else ram_mem dst j)" for j
        by (auto simp: mem_poke_def nth_ram_peek)
      moreover have "page_dirty (ram_mem src) (j div PAGE)" if "off \<le> j" "j < off + PAGE" for j
        using that d page [of j] by simp
      ultimately show ?thesis using r(2,3) room by (auto simp: not_le)
    qed
  qed
qed

interpretation scan: page_restorer
  "\<lambda>src dst res. ram_bytes src = ram_bytes dst \<and> PAGE dvd ram_bytes dst \<and> scan_copy src 0 dst = Some res"
  "\<lambda>src. page_dirty (ram_mem src)"
  by unfold_locales (use scan_copy_spec in fastforce)+

section \<open>Properties\<close>

text \<open>
  Claim C5.  The parallel restore does not depend on the schedule.  Whatever the number of
  copy threads and however their actions interleave, when the copy returns every page whose
  bit is set holds the snapshot's bytes and every other byte of guest RAM is what it was.
\<close>

theorem bitmap_copy_schedule_independent:
  assumes "copy_ok src bm dst" and "bitmap_copy sched threads bm src dst = Some res"
  shows "ram_bytes res = ram_bytes dst \<and>
    (\<forall>j < ram_bytes dst. ram_mem res j = (if bitmap_bit bm (j div PAGE) then ram_mem src j else ram_mem dst j))"
proof -
  have "copy_ok src bm dst \<and> (\<exists>sched. bitmap_copy sched threads bm src dst = Some res)" using assms by blast
  from bitmap.engine_size [OF this] bitmap.engine_page [OF this] show ?thesis by blast
qed

text \<open>A two-page guest whose second page is marked, restored by four threads, one of which runs alone.\<close>

definition demo_src :: guest_ram where
  "demo_src = \<lparr>ram_bytes = 2 * PAGE, ram_mem = (\<lambda>i. if PAGE \<le> i then 7 else 0)\<rparr>"

definition demo_dst :: guest_ram where
  "demo_dst = fresh_ram (2 * PAGE)"

lemma demo_copy_ok: "copy_ok demo_src [2] demo_dst"
  by (simp add: copy_ok_def demo_src_def demo_dst_def fresh_ram_def total_pages_def)

lemma demo_fair: "fair_rounds 0 (total_pages demo_dst) (replicate 262 [0..<num_copy_threads 0])"
  by (rule fair_rounds_replicate)
    (simp add: demo_dst_def fresh_ram_def total_pages_def num_chunks_def CHUNK_PAGES_def num_copy_threads_def)

theorem bitmap_copy_schedule_independent_witness:
  "\<exists>res. bitmap_copy (concat (replicate 262 [0..<num_copy_threads 0])) 0 [2] demo_src demo_dst = Some res \<and>
     ram_mem res 5000 = 7 \<and> ram_mem res 0 = 0"
proof -
  obtain res where r: "bitmap_copy (concat (replicate 262 [0..<num_copy_threads 0])) 0 [2] demo_src demo_dst = Some res"
    using bitmap_copy_defined [OF demo_copy_ok demo_fair] by blast
  have "\<forall>j < ram_bytes demo_dst. ram_mem res j = (if bitmap_bit [2] (j div PAGE) then ram_mem demo_src j else ram_mem demo_dst j)"
    using bitmap_copy_schedule_independent [OF demo_copy_ok r] by blast
  then have "ram_mem res 5000 = 7" "ram_mem res 0 = 0"
    by (simp_all add: demo_src_def demo_dst_def fresh_ram_def PAGE_def bitmap_bit_def bit_numeral_rec)
  with r show ?thesis by blast
qed

text \<open>
  Claim C6.  The parallel restore returns.  Every schedule that keeps giving each of the
  threads a turn finishes: after \<open>258\<close> rounds per chunk and one per thread all workers have
  been joined, no access of a worker leaves the snapshot, the bitmap or guest RAM, and the
  number of pages copied is the number of bits set.
\<close>

theorem bitmap_copy_returns:
  assumes "copy_ok src bm dst" and "fair_rounds threads (total_pages dst) rounds"
  shows "\<exists>s. run_schedule src bm (total_pages dst) (concat rounds) (copy_init (num_copy_threads threads) dst) = Some s \<and>
    bitmap_copy (concat rounds) threads bm src dst = Some (copy_dst s) \<and>
    total_dirty s = card {pg. pg < total_pages dst \<and> bitmap_bit bm pg}"
proof -
  let ?s0 = "copy_init (num_copy_threads threads) dst"
  from fair_rounds_finish [OF assms] obtain s where
    s: "run_schedule src bm (total_pages dst) (concat rounds) ?s0 = Some s" "copy_finished s"
    "copy_inv src bm dst (total_pages dst) s" by blast
  have "length (workers s) = num_copy_threads threads"
    using run_schedule_inv [OF copy_inv_init [OF refl, of src bm dst "num_copy_threads threads"] assms(1), of "concat rounds"] s(1)
    by (auto simp: copy_init_def)
  then have "workers s \<noteq> []" using num_copy_threads_pos [of threads] by auto
  from copy_finished_result(3) [OF s(3) assms(1) s(2) this] s show ?thesis by (simp add: bitmap_copy_def)
qed

theorem bitmap_copy_returns_witness:
  "\<exists>s :: copy_state. bitmap_copy (concat (replicate 262 [0..<num_copy_threads 0])) 0 [2] demo_src demo_dst = Some (copy_dst s) \<and>
     total_dirty s = 1"
proof -
  have N: "total_pages demo_dst = 2" by (simp add: demo_dst_def fresh_ram_def total_pages_def)
  have "{pg :: nat. pg < 2 \<and> bitmap_bit [2] pg} = {1}"
    by (auto simp: bitmap_bit_def bit_numeral_rec less_2_cases_iff)
  then have "card {pg. pg < total_pages demo_dst \<and> bitmap_bit [2] pg} = 1" by (simp add: N)
  from bitmap_copy_returns [OF demo_copy_ok demo_fair, unfolded this] show ?thesis by blast
qed

end
