(* ===== verification/Uffd.thy ===== *)
theory Uffd
  imports Snapshot_Format Restore_Engines
begin

text \<open>
  The demand-paged restore of \<^verbatim>\<open>src/vmm.cpp\<close>: \<open>init_uffd\<close>, \<open>start_uffd_thread\<close>, the fault handler
  \<open>uffd_worker\<close> and the pre-faulting of the virtqueue rings in \<open>restore_snapshot\<close>.  The kernel's
  side of userfaultfd is a parameter; \<open>uffd_view\<close> states what its documentation promises: a
  successful \<open>UFFDIO_COPY\<close> or \<open>UFFDIO_ZEROPAGE\<close> fills a page that was missing, once.
\<close>

section \<open>State\<close>

record uffd_state =
  uffd :: int
  uffd_running :: bool
  uffd_wakeup_fd :: int
  use_uffd :: bool
  midway_uffd :: bool
  uffd_fault_count :: nat
  uffd_ram :: "u8 list option"
  snap_bitmap_buf :: "u8 list"
  snap_total_pages :: nat

definition init_uffd_state :: uffd_state where
  "init_uffd_state = \<lparr>uffd = -1, uffd_running = False, uffd_wakeup_fd = -1, use_uffd = False,
     midway_uffd = False, uffd_fault_count = 0, uffd_ram = None, snap_bitmap_buf = [], snap_total_pages = 0\<rparr>"

definition EAGAIN :: int where "EAGAIN = 11"

section \<open>Setting up\<close>

definition init_uffd :: "os \<Rightarrow> uffd_state \<Rightarrow> log \<Rightarrow> bool \<times> uffd_state \<times> log" where
  "init_uffd w u tr =
     (let fd = os_ret w tr Uffd_open; tr1 = tr @ [Uffd_open]
      in if fd < 0 then (False, u\<lparr>uffd := fd\<rparr>, tr1)
         else if os_ret w tr1 Uffd_api < 0 then (False, u\<lparr>uffd := -1\<rparr>, tr1 @ [Uffd_api, Close fd])
         else (let tr2 = tr1 @ [Uffd_api]
               in if os_ret w tr2 Uffd_register < 0
                  then (False, u\<lparr>uffd := -1\<rparr>, tr2 @ [Uffd_register, Close fd])
                  else (let tr3 = tr2 @ [Uffd_register]
                        in (True, u\<lparr>uffd := fd, uffd_wakeup_fd := os_ret w tr3 Eventfd\<rparr>, tr3 @ [Eventfd]))))"

definition start_uffd_thread :: "uffd_state \<Rightarrow> log \<Rightarrow> uffd_state \<times> log" where
  "start_uffd_thread u tr =
     (if uffd u < 0 \<or> uffd_running u then (u, tr)
      else (u\<lparr>uffd_running := True\<rparr>, tr @ [Thread_create Uffd_thread]))"

section \<open>Filling pages\<close>

text \<open>
  \<^verbatim>\<open>!snap_bitmap_buf_.empty() && page_idx < pages && (snap_bitmap_buf_[page_idx / 8] & (1 << (page_idx & 7)))\<close>
\<close>

definition page_is_dirty :: "uffd_state \<Rightarrow> nat \<Rightarrow> nat \<Rightarrow> bool option" where
  "page_is_dirty u npages pg =
     (if snap_bitmap_buf u \<noteq> [] \<and> pg < npages then bitmap_test (snap_bitmap_buf u) pg else Some False)"

text \<open>The call that fills the page at an offset into guest RAM: a copy from the snapshot or a zero page.\<close>

definition fill_call :: "uffd_state \<Rightarrow> nat \<Rightarrow> nat \<Rightarrow> host_call option" where
  "fill_call u npages off =
     map_option (\<lambda>d. if d \<and> uffd_ram u \<noteq> None then Uffd_copy off off else Uffd_zeropage off)
       (page_is_dirty u npages (off div PAGE))"

text \<open>\<^verbatim>\<open>while (ioctl(...) < 0) { if (errno == EAGAIN) continue; ...; break; }\<close>\<close>

partial_function (option) uffd_retry :: "os \<Rightarrow> host_call \<Rightarrow> log \<Rightarrow> log option" where
  "uffd_retry w c tr = (if os_ret w tr c = - EAGAIN then uffd_retry w c (tr @ [c]) else Some (tr @ [c]))"

definition handle_fault :: "os \<Rightarrow> nat \<Rightarrow> nat \<Rightarrow> nat \<Rightarrow> uffd_state \<Rightarrow> nat \<Rightarrow> log \<Rightarrow> (uffd_state \<times> nat \<times> log) option" where
  "handle_fault w hva nbytes addr u n tr =
     (let fault_addr = addr - addr mod PAGE
      in if fault_addr < hva \<or> hva + nbytes \<le> fault_addr then Some (u, n, tr)
         else (case fill_call u (snap_total_pages u) (fault_addr - hva) of
                 None \<Rightarrow> None
               | Some c \<Rightarrow> map_option (\<lambda>tr1. (u\<lparr>uffd_fault_count := n + 1\<rparr>, n + 1, tr1)) (uffd_retry w c tr)))"

text \<open>What one round of the worker's loop can see: \<^verbatim>\<open>poll\<close> and \<^verbatim>\<open>read\<close> results and the message.\<close>

datatype uffd_event =
    Poll_failed bool
  | Wakeup
  | Not_ready
  | Read_failed bool
  | Pagefault nat
  | Other_message

text \<open>
  The worker handles the events in turn; the argument of a failure says whether it is one the
  loop continues after (\<open>EINTR\<close>, \<open>EAGAIN\<close>).  When the events end it waits in \<^verbatim>\<open>poll\<close>.
\<close>

fun uffd_worker :: "os \<Rightarrow> nat \<Rightarrow> nat \<Rightarrow> uffd_event list \<Rightarrow> uffd_state \<Rightarrow> nat \<Rightarrow> log \<Rightarrow> (uffd_state \<times> nat \<times> log) option" where
  "uffd_worker w hva nbytes [] u n tr = Some (u, n, tr)"
| "uffd_worker w hva nbytes (e # es) u n tr =
     (if \<not> uffd_running u then Some (u\<lparr>uffd_fault_count := n\<rparr>, n, tr)
      else (case e of
              Poll_failed again \<Rightarrow> if again then uffd_worker w hva nbytes es u n tr else Some (u\<lparr>uffd_fault_count := n\<rparr>, n, tr)
            | Wakeup \<Rightarrow> Some (u\<lparr>uffd_fault_count := n\<rparr>, n, tr)
            | Not_ready \<Rightarrow> uffd_worker w hva nbytes es u n tr
            | Read_failed again \<Rightarrow> if again then uffd_worker w hva nbytes es u n tr else Some (u\<lparr>uffd_fault_count := n\<rparr>, n, tr)
            | Pagefault addr \<Rightarrow>
                (case handle_fault w hva nbytes addr u n tr of
                   None \<Rightarrow> None
                 | Some (u1, n1, tr1) \<Rightarrow> uffd_worker w hva nbytes es u1 n1 tr1)
            | Other_message \<Rightarrow> uffd_worker w hva nbytes es u n tr))"

section \<open>Pre-faulting the rings\<close>

definition prefault_gpa :: "nat \<Rightarrow> uffd_state \<Rightarrow> u64 \<Rightarrow> log \<Rightarrow> log option" where
  "prefault_gpa nbytes u gpa tr =
     (if gpa = 0 \<or> nbytes \<le> unat gpa then Some tr
      else map_option (\<lambda>c. tr @ [c]) (fill_call u (nbytes div PAGE) (unat gpa - unat gpa mod PAGE)))"

fun prefault_all :: "nat \<Rightarrow> uffd_state \<Rightarrow> u64 list \<Rightarrow> log \<Rightarrow> log option" where
  "prefault_all nbytes u [] tr = Some tr"
| "prefault_all nbytes u (g # gs) tr =
     (case prefault_gpa nbytes u g tr of None \<Rightarrow> None | Some tr1 \<Rightarrow> prefault_all nbytes u gs tr1)"

text \<open>The addresses that are pre-faulted: descriptor table, available and used ring of each queue in use.\<close>

definition ring_gpas :: "vq_state list \<Rightarrow> nat \<Rightarrow> u64 list" where
  "ring_gpas vs n =
     concat (map (\<lambda>v. if 0 < vs_num v then [vs_desc v, vs_driver v, vs_device v] else []) (take n vs))"

definition prefault_rings :: "nat \<Rightarrow> uffd_state \<Rightarrow> snapshot_header \<Rightarrow> log \<Rightarrow> log option" where
  "prefault_rings nbytes u h tr =
     (case prefault_all nbytes u (ring_gpas (h_vq_state h) (min 2 (unat (h_num_vqs h)))) tr of
        None \<Rightarrow> None
      | Some tr1 \<Rightarrow> prefault_all nbytes u (ring_gpas (h_net_vq_state h) (min 2 (unat (h_net_num_vqs h)))) tr1)"

section \<open>What the kernel makes of the calls\<close>

text \<open>
  The pages that are present and where their contents came from.  A call counts when the kernel
  answered it with success; a page that is present is not filled again.
\<close>

datatype page_fill = Copied nat | Zeroed

fun fill_effect :: "os \<Rightarrow> log \<Rightarrow> host_call \<Rightarrow> (nat \<Rightarrow> page_fill option) \<Rightarrow> nat \<Rightarrow> page_fill option" where
  "fill_effect w tr (Uffd_copy dst src) v =
     (if 0 \<le> os_ret w tr (Uffd_copy dst src) \<and> v (dst div PAGE) = None then v(dst div PAGE \<mapsto> Copied src) else v)"
| "fill_effect w tr (Uffd_zeropage dst) v =
     (if 0 \<le> os_ret w tr (Uffd_zeropage dst) \<and> v (dst div PAGE) = None then v(dst div PAGE \<mapsto> Zeroed) else v)"
| "fill_effect w tr _ v = v"

fun uffd_view :: "os \<Rightarrow> log \<Rightarrow> log \<Rightarrow> (nat \<Rightarrow> page_fill option) \<Rightarrow> nat \<Rightarrow> page_fill option" where
  "uffd_view w pre [] v = v"
| "uffd_view w pre (c # cs) v = uffd_view w (pre @ [c]) cs (fill_effect w pre c v)"

lemma uffd_view_append: "uffd_view w pre (xs @ ys) v = uffd_view w (pre @ xs) ys (uffd_view w pre xs v)"
  by (induction xs arbitrary: pre v) simp_all

text \<open>The byte that a present page shows at an address.\<close>

fun filled_byte :: "u8 list \<Rightarrow> page_fill \<Rightarrow> nat \<Rightarrow> u8" where
  "filled_byte src (Copied off) j = src ! (off + j mod PAGE)"
| "filled_byte src Zeroed j = 0"

text \<open>
  A good call fills a page of guest RAM the way the bitmap says; a good view holds only pages
  filled that way.
\<close>

fun good_call :: "(nat \<Rightarrow> bool) \<Rightarrow> host_call \<Rightarrow> bool" where
  "good_call dirty (Uffd_copy dst src) \<longleftrightarrow> src = dst \<and> PAGE dvd dst \<and> dirty (dst div PAGE)"
| "good_call dirty (Uffd_zeropage dst) \<longleftrightarrow> PAGE dvd dst \<and> \<not> dirty (dst div PAGE)"
| "good_call dirty _ \<longleftrightarrow> True"

definition good_view :: "(nat \<Rightarrow> bool) \<Rightarrow> (nat \<Rightarrow> page_fill option) \<Rightarrow> bool" where
  "good_view dirty v \<longleftrightarrow> (\<forall>pg. v pg = None \<or> v pg = Some (if dirty pg then Copied (pg * PAGE) else Zeroed))"

lemma good_effect: "good_view dirty v \<Longrightarrow> good_call dirty c \<Longrightarrow> good_view dirty (fill_effect w tr c v)"
  by (cases c) (auto simp: good_view_def)

lemma good_uffd_view: "good_view dirty v \<Longrightarrow> \<forall>c \<in> set cs. good_call dirty c \<Longrightarrow> good_view dirty (uffd_view w pre cs v)"
  by (induction cs arbitrary: pre v) (auto intro: good_effect)

lemma fill_effect_mono: "v pg = Some f \<Longrightarrow> fill_effect w tr c v pg = Some f"
  by (cases c) auto

lemma uffd_view_mono: "v pg = Some f \<Longrightarrow> uffd_view w pre cs v pg = Some f"
  by (induction cs arbitrary: pre v) (auto intro: fill_effect_mono)

section \<open>Handling faults\<close>

lemma uffd_retry_calls:
  assumes "uffd_retry w c tr = Some tr'"
  shows "\<exists>k. tr' = tr @ replicate k c @ [c] \<and> os_ret w (tr @ replicate k c) c \<noteq> - EAGAIN"
proof (rule uffd_retry.raw_induct [where P = "\<lambda>w c tr tr'. \<exists>k. tr' = tr @ replicate k c @ [c] \<and>
    os_ret w (tr @ replicate k c) c \<noteq> - EAGAIN", OF _ assms])
  fix rec :: "os \<Rightarrow> host_call \<Rightarrow> log \<Rightarrow> log option" and w c tr tr'
  assume IH: "\<And>w c tr tr'. rec w c tr = Some tr' \<Longrightarrow>
      \<exists>k. tr' = tr @ replicate k c @ [c] \<and> os_ret w (tr @ replicate k c) c \<noteq> - EAGAIN"
    and eq: "(if os_ret w tr c = - EAGAIN then rec w c (tr @ [c]) else Some (tr @ [c])) = Some tr'"
  show "\<exists>k. tr' = tr @ replicate k c @ [c] \<and> os_ret w (tr @ replicate k c) c \<noteq> - EAGAIN"
  proof (cases "os_ret w tr c = - EAGAIN")
    case True
    with eq have "rec w c (tr @ [c]) = Some tr'" by simp
    from IH [OF this] obtain k where "tr' = (tr @ [c]) @ replicate k c @ [c]"
      "os_ret w ((tr @ [c]) @ replicate k c) c \<noteq> - EAGAIN" by blast
    then show ?thesis by (intro exI [of _ "Suc k"]) simp
  next
    case False
    with eq show ?thesis by (intro exI [of _ 0]) simp
  qed
qed

text \<open>
  The state of the demand-paged restore: a snapshot of \<open>n\<close> pages with its bitmap.
\<close>

definition uffd_ok :: "uffd_state \<Rightarrow> nat \<Rightarrow> bool" where
  "uffd_ok u nbytes \<longleftrightarrow> snap_bitmap_buf u \<noteq> [] \<and> uffd_ram u \<noteq> None \<and> PAGE dvd nbytes \<and>
     snap_total_pages u = nbytes div PAGE \<and> nbytes div PAGE \<le> 8 * length (snap_bitmap_buf u)"

lemma fill_call_good:
  assumes "uffd_ok u nbytes" "off < nbytes" "PAGE dvd off"
  shows "\<exists>c. fill_call u (nbytes div PAGE) off = Some c \<and> good_call (bitmap_bit (snap_bitmap_buf u)) c \<and>
    (c = Uffd_copy off off \<or> c = Uffd_zeropage off)"
proof -
  have pg: "off div PAGE < nbytes div PAGE"
    using assms by (auto simp: uffd_ok_def elim!: dvdE)
  then have "bitmap_test (snap_bitmap_buf u) (off div PAGE) = Some (bitmap_bit (snap_bitmap_buf u) (off div PAGE))"
    using assms by (intro bitmap_test_Some) (auto simp: uffd_ok_def)
  then show ?thesis
    using assms pg by (auto simp: fill_call_def page_is_dirty_def uffd_ok_def)
qed

lemma handle_fault_good:
  assumes ok: "uffd_ok u nbytes" and al: "PAGE dvd hva"
    and h: "handle_fault w hva nbytes addr u n tr = Some (u', n', tr')"
  shows "uffd_ok u' nbytes" "snap_bitmap_buf u' = snap_bitmap_buf u"
    "\<exists>cs. tr' = tr @ cs \<and> (\<forall>c \<in> set cs. good_call (bitmap_bit (snap_bitmap_buf u)) c)"
proof -
  let ?fa = "addr - addr mod PAGE"
  show "uffd_ok u' nbytes" "snap_bitmap_buf u' = snap_bitmap_buf u"
    using h ok by (auto simp: handle_fault_def Let_def uffd_ok_def split: if_splits option.splits)
  show "\<exists>cs. tr' = tr @ cs \<and> (\<forall>c \<in> set cs. good_call (bitmap_bit (snap_bitmap_buf u)) c)"
  proof (cases "?fa < hva \<or> hva + nbytes \<le> ?fa")
    case True
    with h show ?thesis by (auto simp: handle_fault_def Let_def)
  next
    case False
    have "PAGE dvd ?fa - hva" by (rule dvd_diff_nat [OF dvd_minus_mod al])
    moreover have "?fa - hva < nbytes" using False by linarith
    ultimately obtain c where
      c: "fill_call u (nbytes div PAGE) (?fa - hva) = Some c" "good_call (bitmap_bit (snap_bitmap_buf u)) c"
      using fill_call_good [OF ok] by blast
    have n: "snap_total_pages u = nbytes div PAGE" using ok by (simp add: uffd_ok_def)
    from h False c(1) have "uffd_retry w c tr = Some tr'"
      by (auto simp: handle_fault_def Let_def n)
    from uffd_retry_calls [OF this] c(2) show ?thesis by auto
  qed
qed

lemma uffd_worker_good:
  assumes "uffd_ok u nbytes" "PAGE dvd hva" "uffd_worker w hva nbytes es u n tr = Some (u', n', tr')"
  shows "\<exists>cs. tr' = tr @ cs \<and> (\<forall>c \<in> set cs. good_call (bitmap_bit (snap_bitmap_buf u)) c)"
  using assms
proof (induction w hva nbytes es u n tr rule: uffd_worker.induct)
  case (2 w hva nbytes e es u n tr)
  show ?case
  proof (cases "uffd_running u \<and> (\<exists>addr. e = Pagefault addr)")
    case True
    then obtain addr where e: "e = Pagefault addr" and r: "uffd_running u" by blast
    with 2 obtain u1 n1 tr1 where h: "handle_fault w hva nbytes addr u n tr = Some (u1, n1, tr1)"
      and rest: "uffd_worker w hva nbytes es u1 n1 tr1 = Some (u', n', tr')"
      by (auto split: option.splits)
    note g = handle_fault_good [OF "2.prems"(1,2) h]
    have nr: "\<not> \<not> uffd_running u" using r by simp
    from "2.IH"(4) [OF nr e h refl refl g(1) "2.prems"(2) rest] g(2,3) show ?thesis by auto
  next
    case False
    with 2 show ?thesis by (auto split: uffd_event.splits if_splits)
  qed
qed simp

lemma prefault_gpa_good:
  assumes ok: "uffd_ok u nbytes"
  shows "\<exists>cs. prefault_gpa nbytes u gpa tr = Some (tr @ cs) \<and> (\<forall>c \<in> set cs. good_call (bitmap_bit (snap_bitmap_buf u)) c) \<and>
    (\<forall>c \<in> set cs. c = Uffd_copy (unat gpa - unat gpa mod PAGE) (unat gpa - unat gpa mod PAGE) \<or>
                   c = Uffd_zeropage (unat gpa - unat gpa mod PAGE))"
proof (cases "gpa = 0 \<or> nbytes \<le> unat gpa")
  case True
  then show ?thesis by (auto simp: prefault_gpa_def)
next
  case False
  then have "unat gpa - unat gpa mod PAGE < nbytes" by linarith
  from fill_call_good [OF ok this dvd_minus_mod] False show ?thesis
    by (auto simp: prefault_gpa_def)
qed

lemma prefault_all_good:
  assumes ok: "uffd_ok u nbytes"
  shows "\<exists>cs. prefault_all nbytes u gs tr = Some (tr @ cs) \<and> (\<forall>c \<in> set cs. good_call (bitmap_bit (snap_bitmap_buf u)) c) \<and>
    (\<forall>c \<in> set cs. \<exists>g \<in> set gs. c = Uffd_copy (unat g - unat g mod PAGE) (unat g - unat g mod PAGE) \<or>
                   c = Uffd_zeropage (unat g - unat g mod PAGE))"
proof (induction gs arbitrary: tr)
  case (Cons g gs)
  from prefault_gpa_good [OF ok, of g tr] obtain cs where
    cs: "prefault_gpa nbytes u g tr = Some (tr @ cs)" "\<forall>c \<in> set cs. good_call (bitmap_bit (snap_bitmap_buf u)) c"
    "\<forall>c \<in> set cs. c = Uffd_copy (unat g - unat g mod PAGE) (unat g - unat g mod PAGE) \<or> c = Uffd_zeropage (unat g - unat g mod PAGE)"
    by blast
  from Cons.IH [of "tr @ cs"] obtain ds where
    ds: "prefault_all nbytes u gs (tr @ cs) = Some ((tr @ cs) @ ds)" "\<forall>c \<in> set ds. good_call (bitmap_bit (snap_bitmap_buf u)) c"
    "\<forall>c \<in> set ds. \<exists>g \<in> set gs. c = Uffd_copy (unat g - unat g mod PAGE) (unat g - unat g mod PAGE) \<or>
                   c = Uffd_zeropage (unat g - unat g mod PAGE)" by blast
  show ?case
    by (intro exI [of _ "cs @ ds"]) (use cs ds in auto)
qed simp

abbreviation all_ring_gpas :: "snapshot_header \<Rightarrow> u64 list" where
  "all_ring_gpas h \<equiv> ring_gpas (h_vq_state h) (min 2 (unat (h_num_vqs h))) @ ring_gpas (h_net_vq_state h) (min 2 (unat (h_net_num_vqs h)))"

lemma prefault_all_append:
  "prefault_all nbytes u (xs @ ys) tr = (case prefault_all nbytes u xs tr of None \<Rightarrow> None | Some tr1 \<Rightarrow> prefault_all nbytes u ys tr1)"
  by (induction xs arbitrary: tr) (auto split: option.splits)

lemma prefault_rings_all: "prefault_rings nbytes u h tr = prefault_all nbytes u (all_ring_gpas h) tr"
  by (simp add: prefault_rings_def prefault_all_append)

section \<open>Properties\<close>

lemma exact_byte:
  assumes bm: "build_bitmap r = (bm, c)" and size: "PAGE dvd ram_bytes r" and j: "j < ram_bytes r"
    and f: "f = (if bitmap_bit bm (j div PAGE) then Copied (j div PAGE * PAGE) else Zeroed)"
  shows "filled_byte (ram_peek r 0 (ram_bytes r)) f j = ram_mem r j"
proof -
  have pg: "j div PAGE < total_pages r" using size j by (rule page_in_range)
  obtain bm' c' where "build_bitmap r = (bm', c')" "length bm' = (total_pages r + 7) div 8"
    "\<forall>pg. bitmap_test bm' pg = (if pg < 8 * length bm' then Some (pg < total_pages r \<and> page_dirty (ram_mem r) pg) else None)"
    using build_bitmap_marks [of r] by blast
  with bm have t: "length bm = (total_pages r + 7) div 8"
    "bitmap_test bm (j div PAGE) = Some (page_dirty (ram_mem r) (j div PAGE))" using pg by auto
  have "bitmap_bit bm (j div PAGE) \<longleftrightarrow> page_dirty (ram_mem r) (j div PAGE)"
    using t(2) bitmap_test_Some [of "j div PAGE" bm] pg t(1) by simp
  moreover have "j div PAGE * PAGE + j mod PAGE = j" by simp
  ultimately show ?thesis
    using j page_clean_byte [of "ram_mem r" j] by (auto simp: f nth_ram_peek)
qed

text \<open>
  Claim C7.  The demand-paged restore shows the guest the snapshot.  Take a snapshot of RAM
  \<open>r\<close> with its bitmap, pre-fault the rings and let the fault handler run on any sequence of
  events, whatever the kernel answers (retries, errors, pages already present): every page
  that is present then shows at every address exactly the byte that \<open>r\<close> had there.
\<close>

theorem uffd_restore_exact:
  assumes "build_bitmap r = (bm, c)" and "PAGE dvd ram_bytes r" and "0 < ram_bytes r" and "PAGE dvd hva"
    and "uffd_ram u = Some (ram_peek r 0 (ram_bytes r))" and "snap_bitmap_buf u = bm"
    and "snap_total_pages u = total_pages r"
    and "prefault_rings (ram_bytes r) u h [] = Some tr"
    and "uffd_worker w hva (ram_bytes r) es u n tr = Some (u', n', tr')"
    and "j < ram_bytes r" and "uffd_view w [] tr' Map.empty (j div PAGE) = Some f"
  shows "filled_byte (ram_peek r 0 (ram_bytes r)) f j = ram_mem r j"
proof -
  obtain bm' c' where "build_bitmap r = (bm', c')" "length bm' = (total_pages r + 7) div 8"
    using build_bitmap_marks [of r] by blast
  with assms(1) have len: "length bm = (total_pages r + 7) div 8" by simp
  have "0 < total_pages r" using assms(2,3) by (auto simp: total_pages_def elim!: dvdE)
  then have ok: "uffd_ok u (ram_bytes r)"
    using assms(2,5,6,7) len by (auto simp: uffd_ok_def total_pages_def)
  from prefault_all_good [OF ok, of "all_ring_gpas h" "[]"] assms(8) have
    g1: "\<forall>c \<in> set tr. good_call (bitmap_bit bm) c" by (auto simp: prefault_rings_all assms(6))
  from uffd_worker_good [OF ok assms(4) assms(9)] g1 have "\<forall>c \<in> set tr'. good_call (bitmap_bit bm) c"
    by (auto simp: assms(6))
  then have "good_view (bitmap_bit bm) (uffd_view w [] tr' Map.empty)"
    by (intro good_uffd_view) (simp_all add: good_view_def)
  then have "uffd_view w [] tr' Map.empty (j div PAGE) = None \<or>
      uffd_view w [] tr' Map.empty (j div PAGE) = Some (if bitmap_bit bm (j div PAGE) then Copied (j div PAGE * PAGE) else Zeroed)"
    unfolding good_view_def by (rule spec)
  with assms(11) have "f = (if bitmap_bit bm (j div PAGE) then Copied (j div PAGE * PAGE) else Zeroed)" by auto
  from exact_byte [OF assms(1,2,10) this] show ?thesis .
qed

text \<open>
  What the kernel promises about a fill: one that is asked for a missing page succeeds or
  asks to be repeated.
\<close>

definition kernel_fills :: "os \<Rightarrow> bool" where
  "kernel_fills w \<longleftrightarrow> (\<forall>tr off c. c \<in> {Uffd_copy off off, Uffd_zeropage off} \<longrightarrow>
     uffd_view w [] tr Map.empty (off div PAGE) = None \<longrightarrow> 0 \<le> os_ret w tr c \<or> os_ret w tr c = - EAGAIN)"

lemma fill_present:
  assumes k: "kernel_fills w" and c: "c = Uffd_copy off off \<or> c = Uffd_zeropage off"
    and r: "os_ret w tr c \<noteq> - EAGAIN"
  shows "uffd_view w [] (tr @ [c]) Map.empty (off div PAGE) \<noteq> None"
proof (cases "uffd_view w [] tr Map.empty (off div PAGE)")
  case None
  with k c have "0 \<le> os_ret w tr c \<or> os_ret w tr c = - EAGAIN" unfolding kernel_fills_def by blast
  with r None c show ?thesis by (auto simp: uffd_view_append)
next
  case (Some f)
  then show ?thesis by (simp add: uffd_view_append fill_effect_mono)
qed

text \<open>
  A handled fault lets the guest continue.  When the fault handler returns from a
  fault inside guest RAM, the faulting page is present, however often the kernel asked to
  repeat the call.
\<close>

lemma uffd_fault_served:
  assumes "uffd_ok u nbytes" and "PAGE dvd hva" and "kernel_fills w"
    and "hva \<le> addr" and "addr < hva + nbytes"
    and "handle_fault w hva nbytes addr u n tr = Some (u', n', tr')"
  shows "uffd_view w [] tr' Map.empty ((addr - hva) div PAGE) \<noteq> None \<and> uffd_fault_count u' = n + 1"
proof -
  obtain x where x: "addr = hva + x" using assms(4) le_Suc_ex by blast
  have m: "addr mod PAGE = x mod PAGE" using assms(2) by (auto simp: x elim!: dvdE)
  have fa: "addr - addr mod PAGE - hva = x - x mod PAGE" "hva \<le> addr - addr mod PAGE"
    "addr - addr mod PAGE < hva + nbytes" "x - x mod PAGE < nbytes"
    using assms(5) mod_less_eq_dividend [of x PAGE] m [unfolded x] unfolding x by linarith+
  have d: "(x - x mod PAGE) div PAGE = x div PAGE" by (simp add: minus_mod_eq_div_mult)
  have n: "snap_total_pages u = nbytes div PAGE" using assms(1) by (simp add: uffd_ok_def)
  from fill_call_good [OF assms(1) fa(4) dvd_minus_mod] obtain c where
    c: "fill_call u (nbytes div PAGE) (x - x mod PAGE) = Some c" "c = Uffd_copy (x - x mod PAGE) (x - x mod PAGE) \<or> c = Uffd_zeropage (x - x mod PAGE)"
    by blast
  from assms(6) fa(2,3) have r: "uffd_retry w c tr = Some tr'" and cnt: "uffd_fault_count u' = n + 1"
    by (auto simp: handle_fault_def Let_def n fa(1) c(1) simp del: diff_diff_left)
  from uffd_retry_calls [OF r] obtain j where j: "tr' = (tr @ replicate j c) @ [c]" "os_ret w (tr @ replicate j c) c \<noteq> - EAGAIN" by auto
  from fill_present [OF assms(3) c(2) j(2)] cnt show ?thesis unfolding j(1) d x by simp
qed

text \<open>A run with a two-page snapshot: the rings are pre-faulted, then the guest touches byte 5000.\<close>

definition demo_uffd :: uffd_state where
  "demo_uffd = init_uffd_state\<lparr>uffd := 5, uffd_running := True, use_uffd := True,
     uffd_ram := Some (ram_peek demo_src 0 (ram_bytes demo_src)), snap_bitmap_buf := fst (build_bitmap demo_src),
     snap_total_pages := total_pages demo_src\<rparr>"

lemma demo_src_facts: "PAGE dvd ram_bytes demo_src" "ram_bytes demo_src = 2 * PAGE" "total_pages demo_src = 2"
  "length (fst (build_bitmap demo_src)) = 1"
  using build_bitmap_marks [of demo_src] by (auto simp: demo_src_def total_pages_def)

lemma demo_uffd_ok: "uffd_ok demo_uffd (ram_bytes demo_src)"
  using demo_src_facts by (auto simp: uffd_ok_def demo_uffd_def total_pages_def)

lemma one_os_retry: "uffd_retry one_os c tr = Some (tr @ [c])"
  by (subst uffd_retry.simps) (simp add: one_os_def EAGAIN_def)

lemma one_os_fills: "kernel_fills one_os"
  by (simp add: kernel_fills_def one_os_def)

lemma demo_fault:
  "\<exists>c. handle_fault one_os 0 (ram_bytes demo_src) 5000 demo_uffd 0 tr = Some (demo_uffd\<lparr>uffd_fault_count := 1\<rparr>, 1, tr @ [c])"
proof -
  have "4096 < ram_bytes demo_src" "PAGE dvd 4096" by (simp_all add: demo_src_facts PAGE_def)
  from fill_call_good [OF demo_uffd_ok this] show ?thesis
    by (auto simp: handle_fault_def Let_def demo_src_facts PAGE_def demo_uffd_def one_os_retry)
qed

lemma uffd_fault_served_witness:
  "\<exists>u' n' tr'. handle_fault one_os 0 (ram_bytes demo_src) 5000 demo_uffd 0 [] = Some (u', n', tr') \<and>
     uffd_view one_os [] tr' Map.empty 1 \<noteq> None"
proof -
  obtain c where h: "handle_fault one_os 0 (ram_bytes demo_src) 5000 demo_uffd 0 [] = Some (demo_uffd\<lparr>uffd_fault_count := 1\<rparr>, 1, [] @ [c])"
    using demo_fault by blast
  have "5000 < 0 + ram_bytes demo_src" by (simp add: demo_src_facts PAGE_def)
  from uffd_fault_served [OF demo_uffd_ok _ one_os_fills _ this h] h show ?thesis by (auto simp: PAGE_def)
qed

theorem uffd_restore_exact_witness:
  "\<exists>tr u' n' tr' f. prefault_rings (ram_bytes demo_src) demo_uffd demo_hdr [] = Some tr \<and>
     uffd_worker one_os 0 (ram_bytes demo_src) [Pagefault 5000] demo_uffd 0 tr = Some (u', n', tr') \<and>
     uffd_view one_os [] tr' Map.empty 1 = Some f \<and> filled_byte (ram_peek demo_src 0 (ram_bytes demo_src)) f 5000 = 7"
proof -
  obtain tr where tr: "prefault_rings (ram_bytes demo_src) demo_uffd demo_hdr [] = Some tr"
    using prefault_all_good [OF demo_uffd_ok] unfolding prefault_rings_all by blast
  obtain c where h: "handle_fault one_os 0 (ram_bytes demo_src) 5000 demo_uffd 0 tr = Some (demo_uffd\<lparr>uffd_fault_count := 1\<rparr>, 1, tr @ [c])"
    using demo_fault by blast
  have run: "uffd_worker one_os 0 (ram_bytes demo_src) [Pagefault 5000] demo_uffd 0 tr = Some (demo_uffd\<lparr>uffd_fault_count := 1\<rparr>, 1, tr @ [c])"
    using h by (simp add: demo_uffd_def)
  from handle_fault_good(3) [OF demo_uffd_ok _ h] h fill_call_good [OF demo_uffd_ok, of 4096]
  have "c = Uffd_copy 4096 4096 \<or> c = Uffd_zeropage 4096"
    by (auto simp: handle_fault_def Let_def demo_src_facts PAGE_def demo_uffd_def one_os_retry)
  from fill_present [OF one_os_fills this, of tr] obtain f where
    f: "uffd_view one_os [] (tr @ [c]) Map.empty (5000 div PAGE) = Some f"
    by (auto simp: one_os_def EAGAIN_def PAGE_def)
  have "filled_byte (ram_peek demo_src 0 (ram_bytes demo_src)) f 5000 = ram_mem demo_src 5000"
    by (rule uffd_restore_exact [OF surjective_pairing demo_src_facts(1) _ _ _ _ _ tr run _ f])
      (simp_all add: demo_src_facts PAGE_def demo_uffd_def)
  then show ?thesis using tr run f by (auto simp: demo_src_def PAGE_def)
qed

text \<open>
  Without a bitmap the demand-paged restore loses the snapshot.  A header with
  \<open>bitmap_bytes = 0\<close> leaves \<open>snap_bitmap_buf_\<close> empty; the fault handler then answers every fault with
  a zero page, and not one byte of the snapshot's RAM reaches the guest, although the eager
  engines restore such a snapshot by scanning it.
\<close>

lemma uffd_without_bitmap_zeroes:
  assumes "snap_bitmap_buf u = []" and "uffd_worker w hva nbytes es u n tr = Some (u', n', tr')"
  shows "\<exists>cs. tr' = tr @ cs \<and> (\<forall>dst src. Uffd_copy dst src \<notin> set cs)"
  using assms
proof (induction w hva nbytes es u n tr rule: uffd_worker.induct)
  case (2 w hva nbytes e es u n tr)
  show ?case
  proof (cases "uffd_running u \<and> (\<exists>addr. e = Pagefault addr)")
    case True
    then obtain addr where e: "e = Pagefault addr" and r: "uffd_running u" by blast
    with 2 obtain u1 n1 tr1 where h: "handle_fault w hva nbytes addr u n tr = Some (u1, n1, tr1)"
      and rest: "uffd_worker w hva nbytes es u1 n1 tr1 = Some (u', n', tr')"
      by (auto split: option.splits)
    have "snap_bitmap_buf u1 = [] \<and> (\<exists>cs. tr1 = tr @ cs \<and> (\<forall>dst src. Uffd_copy dst src \<notin> set cs))"
      using h "2.prems"(1)
      by (auto simp: handle_fault_def Let_def fill_call_def page_is_dirty_def dest!: uffd_retry_calls split: if_splits)
    moreover have nr: "\<not> \<not> uffd_running u" using r by simp
    ultimately show ?thesis using "2.IH"(4) [OF nr e h refl refl _ rest] by fastforce
  next
    case False
    with 2 show ?thesis by (auto split: uffd_event.splits if_splits)
  qed
qed simp

lemma uffd_without_bitmap_zeroes_witness:
  "\<exists>u' n' cs. uffd_worker one_os 0 (ram_bytes demo_src) [Pagefault 5000] (demo_uffd\<lparr>snap_bitmap_buf := []\<rparr>) 0 [] = Some (u', n', cs) \<and>
     cs \<noteq> [] \<and> (\<forall>dst src. Uffd_copy dst src \<notin> set cs)"
proof -
  have run: "uffd_worker one_os 0 (ram_bytes demo_src) [Pagefault 5000] (demo_uffd\<lparr>snap_bitmap_buf := []\<rparr>) 0 [] =
      Some (demo_uffd\<lparr>snap_bitmap_buf := [], uffd_fault_count := 1\<rparr>, 1, [Uffd_zeropage 4096])"
    by (simp add: handle_fault_def Let_def fill_call_def page_is_dirty_def one_os_retry demo_src_facts PAGE_def demo_uffd_def)
  from uffd_without_bitmap_zeroes [OF _ run] run show ?thesis by auto
qed

text \<open>
  Pre-faulting covers the first page of a ring only.  The pages that are present
  after the rings were pre-faulted are among the pages that hold the first byte of a
  descriptor table, available ring or used ring; the further pages of a ring that spans
  several pages are left to later faults.
\<close>

lemma prefault_first_pages_only:
  assumes "uffd_ok u nbytes" and "prefault_rings nbytes u h [] = Some tr"
    and "uffd_view w [] tr Map.empty pg \<noteq> None"
  shows "\<exists>g \<in> set (all_ring_gpas h). pg = unat g div PAGE"
proof -
  from prefault_all_good [OF assms(1), of "all_ring_gpas h" "[]"] assms(2) have
    cs: "\<forall>c \<in> set tr. \<exists>g \<in> set (all_ring_gpas h). c = Uffd_copy (unat g - unat g mod PAGE) (unat g - unat g mod PAGE) \<or>
                   c = Uffd_zeropage (unat g - unat g mod PAGE)"
    by (auto simp: prefault_rings_all)
  have d: "(unat g - unat g mod PAGE) div PAGE = unat g div PAGE" for g :: u64 by (simp add: minus_mod_eq_div_mult)
  have "uffd_view w pre cs v pg = v pg"
    if "\<forall>c \<in> set cs. \<exists>g. pg \<noteq> unat (g :: u64) div PAGE \<and> (c = Uffd_copy (unat g - unat g mod PAGE) (unat g - unat g mod PAGE) \<or>
        c = Uffd_zeropage (unat g - unat g mod PAGE))" for pre cs v
    using that by (induction cs arbitrary: pre v) (auto simp: d)
  from this [of tr "[]" Map.empty] cs assms(3) show ?thesis by (metis option.distinct(1))
qed

text \<open>A descriptor table of 1024 entries at 0x1000 fills four pages; page 2 is not pre-faulted.\<close>

lemma prefault_first_pages_only_witness:
  "\<exists>tr. prefault_rings (ram_bytes demo_src) demo_uffd demo_hdr [] = Some tr \<and>
     vs_desc (h_vq_state demo_hdr ! 0) = 0x1000 \<and> 16 * unat (vs_num (h_vq_state demo_hdr ! 0)) = 4 * PAGE \<and>
     uffd_view one_os [] tr Map.empty 2 = None"
proof -
  obtain tr where tr: "prefault_rings (ram_bytes demo_src) demo_uffd demo_hdr [] = Some tr"
    using prefault_all_good [OF demo_uffd_ok] unfolding prefault_rings_all by blast
  have "\<not> (\<exists>g \<in> set (all_ring_gpas demo_hdr). 2 = unat g div PAGE)"
    by (simp add: demo_hdr_def ring_gpas_def PAGE_def)
  then have "uffd_view one_os [] tr Map.empty 2 = None"
    using prefault_first_pages_only [OF demo_uffd_ok tr, of one_os 2] by blast
  moreover have "vs_desc (h_vq_state demo_hdr ! 0) = 0x1000" "16 * unat (vs_num (h_vq_state demo_hdr ! 0)) = 4 * PAGE"
    by (simp_all add: demo_hdr_def PAGE_def)
  ultimately show ?thesis using tr by blast
qed

end
