(* ===== verification/Vhost_User.thy ===== *)
theory Vhost_User
  imports Virtio_Types
begin

text \<open>
  The vhost-user front end of \<^verbatim>\<open>src/virtio.cpp\<close>: the state of the virtio-fs device with its
  connection to \<^verbatim>\<open>virtiofsd\<close>, the message format, the early handshake (\<open>vu_early_init\<close>), the
  set-up of the rings on DRIVER\_OK (\<open>vu_setup\<close>) and the connection loop (\<open>vu_connect\<close>).
  Messages are modelled as the bytes handed to \<^verbatim>\<open>sendmsg\<close>; the peer is part of the \<open>os\<close>.
\<close>

section \<open>Device and connection state\<close>

record virtio_fs_config =
  tag :: "u8 list"
  num_request_queues :: u32

record fs_dev =
  vqs :: "virtqueue list"
  vdev_features_sel :: u32
  vdrv_features_sel :: u32
  vdrv_features :: u64
  vdev_status :: u32
  vqueue_sel :: u32
  virq_status :: u32
  shm_sel :: u32
  fs_config :: virtio_fs_config
  virtio_active :: bool
  irq_thread_running :: bool
  irq_wakeup_fd :: int
  vu_sock :: int
  vu_backend_sock :: int
  vu_features :: u64
  vu_proto_features :: u64

definition NUM_QUEUES :: nat where "NUM_QUEUES = 2"

definition init_fs_dev :: fs_dev where
  "init_fs_dev =
    \<lparr>vqs = replicate NUM_QUEUES empty_vq, vdev_features_sel = 0, vdrv_features_sel = 0,
     vdrv_features = 0, vdev_status = 0, vqueue_sel = 0, virq_status = 0, shm_sel = 0,
     fs_config = \<lparr>tag = replicate 36 0, num_request_queues = 0\<rparr>, virtio_active = False,
     irq_thread_running = False, irq_wakeup_fd = -1, vu_sock = -1, vu_backend_sock = -1,
     vu_features = 0, vu_proto_features = 0\<rparr>"

section \<open>Messages\<close>

datatype vu_request = C_VU_GET_FEATURES | C_VU_SET_FEATURES | C_VU_SET_OWNER | C_VU_SET_MEM_TABLE | C_VU_SET_VRING_NUM
  | C_VU_SET_VRING_ADDR | C_VU_SET_VRING_BASE | C_VU_GET_VRING_BASE | C_VU_SET_VRING_KICK | C_VU_SET_VRING_CALL | C_VU_GET_PROTOCOL_FEATURES
  | C_VU_SET_PROTOCOL_FEATURES | C_VU_GET_QUEUE_NUM | C_VU_SET_VRING_ENABLE | C_VU_SET_BACKEND_REQ_FD

fun vu_code :: "vu_request \<Rightarrow> u32" where
  "vu_code C_VU_GET_FEATURES = 1"
| "vu_code C_VU_SET_FEATURES = 2"
| "vu_code C_VU_SET_OWNER = 3"
| "vu_code C_VU_SET_MEM_TABLE = 5"
| "vu_code C_VU_SET_VRING_NUM = 8"
| "vu_code C_VU_SET_VRING_ADDR = 9"
| "vu_code C_VU_SET_VRING_BASE = 10"
| "vu_code C_VU_GET_VRING_BASE = 11"
| "vu_code C_VU_SET_VRING_KICK = 12"
| "vu_code C_VU_SET_VRING_CALL = 13"
| "vu_code C_VU_GET_PROTOCOL_FEATURES = 15"
| "vu_code C_VU_SET_PROTOCOL_FEATURES = 16"
| "vu_code C_VU_GET_QUEUE_NUM = 17"
| "vu_code C_VU_SET_VRING_ENABLE = 18"
| "vu_code C_VU_SET_BACKEND_REQ_FD = 21"

declare vu_code.simps [simp del]

abbreviation VU_GET_FEATURES :: u32 where "VU_GET_FEATURES \<equiv> vu_code C_VU_GET_FEATURES"
abbreviation VU_SET_FEATURES :: u32 where "VU_SET_FEATURES \<equiv> vu_code C_VU_SET_FEATURES"
abbreviation VU_SET_OWNER :: u32 where "VU_SET_OWNER \<equiv> vu_code C_VU_SET_OWNER"
abbreviation VU_SET_MEM_TABLE :: u32 where "VU_SET_MEM_TABLE \<equiv> vu_code C_VU_SET_MEM_TABLE"
abbreviation VU_SET_VRING_NUM :: u32 where "VU_SET_VRING_NUM \<equiv> vu_code C_VU_SET_VRING_NUM"
abbreviation VU_SET_VRING_ADDR :: u32 where "VU_SET_VRING_ADDR \<equiv> vu_code C_VU_SET_VRING_ADDR"
abbreviation VU_SET_VRING_BASE :: u32 where "VU_SET_VRING_BASE \<equiv> vu_code C_VU_SET_VRING_BASE"
abbreviation VU_SET_VRING_KICK :: u32 where "VU_SET_VRING_KICK \<equiv> vu_code C_VU_SET_VRING_KICK"
abbreviation VU_SET_VRING_CALL :: u32 where "VU_SET_VRING_CALL \<equiv> vu_code C_VU_SET_VRING_CALL"
abbreviation VU_GET_PROTOCOL_FEATURES :: u32 where "VU_GET_PROTOCOL_FEATURES \<equiv> vu_code C_VU_GET_PROTOCOL_FEATURES"
abbreviation VU_SET_PROTOCOL_FEATURES :: u32 where "VU_SET_PROTOCOL_FEATURES \<equiv> vu_code C_VU_SET_PROTOCOL_FEATURES"
abbreviation VU_SET_VRING_ENABLE :: u32 where "VU_SET_VRING_ENABLE \<equiv> vu_code C_VU_SET_VRING_ENABLE"
abbreviation VU_SET_BACKEND_REQ_FD :: u32 where "VU_SET_BACKEND_REQ_FD \<equiv> vu_code C_VU_SET_BACKEND_REQ_FD"

lemmas vu_requests = vu_code.simps

definition VU_PROTO_F_MQ :: u64 where "VU_PROTO_F_MQ = push_bit 0 1"
definition VU_PROTO_F_REPLY_ACK :: u64 where "VU_PROTO_F_REPLY_ACK = push_bit 3 1"
definition VU_PROTO_F_BACKEND_REQ :: u64 where "VU_PROTO_F_BACKEND_REQ = push_bit 5 1"
definition VU_PROTO_F_CONFIG :: u64 where "VU_PROTO_F_CONFIG = push_bit 9 1"
definition VU_PROTO_F_BACKEND_SEND_FD :: u64 where "VU_PROTO_F_BACKEND_SEND_FD = push_bit 10 1"

definition proto_mask :: u64 where
  "proto_mask = VU_PROTO_F_MQ OR VU_PROTO_F_REPLY_ACK OR VU_PROTO_F_BACKEND_REQ
                OR VU_PROTO_F_BACKEND_SEND_FD OR VU_PROTO_F_CONFIG"

definition VHOST_USER_VERSION :: u32 where "VHOST_USER_VERSION = 1"
definition VHOST_USER_HDR_SIZE :: nat where "VHOST_USER_HDR_SIZE = 12"
definition VU_MSG_SIZE :: nat where "VU_MSG_SIZE = VHOST_USER_HDR_SIZE + 4096"

text \<open>\<^verbatim>\<open>VhostUserMsgHdr\<close> (request, flags, size), then the payload: both packed.\<close>

definition vu_msg :: "u32 \<Rightarrow> u8 list \<Rightarrow> u8 list" where
  "vu_msg req payload =
     le_bytes 4 req @ le_bytes 4 VHOST_USER_VERSION @ le_bytes 4 (of_nat (length payload) :: u32) @ payload"

definition u64_payload :: "u64 \<Rightarrow> u8 list" where
  "u64_payload v = le_bytes 8 v"

definition vring_state_payload :: "u32 \<Rightarrow> u32 \<Rightarrow> u8 list" where
  "vring_state_payload index num = le_bytes 4 index @ le_bytes 4 num"

definition vring_addr_payload :: "u32 \<Rightarrow> u64 \<Rightarrow> u64 \<Rightarrow> u64 \<Rightarrow> u8 list" where
  "vring_addr_payload index desc used avail =
     le_bytes 4 index @ le_bytes 4 (0 :: u32) @ le_bytes 8 desc @ le_bytes 8 used @ le_bytes 8 avail
     @ le_bytes 8 (0 :: u64)"

text \<open>\<^verbatim>\<open>VhostUserMemMsg\<close> cut to one region: \<^verbatim>\<open>sizeof(uint64_t) + sizeof(VhostUserMemRegion)\<close> bytes.\<close>

definition mem_table_payload :: "u64 \<Rightarrow> u64 \<Rightarrow> u8 list" where
  "mem_table_payload ram_size hva =
     le_bytes 4 (1 :: u32) @ le_bytes 4 (0 :: u32) @
     le_bytes 8 (0 :: u64) @ le_bytes 8 ram_size @ le_bytes 8 hva @ le_bytes 8 (0 :: u64)"

definition vu_send :: "os \<Rightarrow> int \<Rightarrow> u32 \<Rightarrow> u8 list \<Rightarrow> int list \<Rightarrow> log \<Rightarrow> bool \<times> log" where
  "vu_send w sock req payload fds tr =
     (let c = Sendmsg sock (vu_msg req payload) fds in (0 < os_ret w tr c, tr @ [c]))"

text \<open>
  \<^verbatim>\<open>vu_recv\<close>: the reply lands in a zeroed \<^verbatim>\<open>VhostUserMsg\<close>; fewer bytes than a header is a failure.
\<close>

definition vu_recv :: "os \<Rightarrow> int \<Rightarrow> log \<Rightarrow> u8 list option \<times> log" where
  "vu_recv w sock tr =
     (let c = Recvmsg sock; n = os_ret w tr c
      in (if n < int VHOST_USER_HDR_SIZE then None
          else Some (let got = take (min (nat n) VU_MSG_SIZE) (os_data w tr c)
                     in got @ replicate (VU_MSG_SIZE - length got) 0),
          tr @ [c]))"

definition reply_u64 :: "u8 list \<Rightarrow> u64" where
  "reply_u64 msg = le_val (take 8 (drop VHOST_USER_HDR_SIZE msg))"

definition vu_transact :: "os \<Rightarrow> int \<Rightarrow> u32 \<Rightarrow> u8 list \<Rightarrow> int list \<Rightarrow> log \<Rightarrow> u8 list option \<times> log" where
  "vu_transact w sock req payload fds tr =
     (case vu_send w sock req payload fds tr of
        (False, tr1) \<Rightarrow> (None, tr1)
      | (True, tr1) \<Rightarrow> vu_recv w sock tr1)"

section \<open>Early handshake\<close>

text \<open>Step 5 of \<^verbatim>\<open>vu_early_init\<close>: the backend request channel.\<close>

definition vu_backend_channel :: "os \<Rightarrow> u64 \<Rightarrow> fs_dev \<Rightarrow> log \<Rightarrow> fs_dev \<times> log" where
  "vu_backend_channel w proto d tr =
     (if proto AND VU_PROTO_F_BACKEND_REQ \<noteq> 0 \<and> os_ret w tr Socketpair = 0
      then (let sv = os_pair w tr Socketpair;
                (_, tr1) = vu_send w (vu_sock d) VU_SET_BACKEND_REQ_FD [] [snd sv] (tr @ [Socketpair])
            in (d\<lparr>vu_backend_sock := fst sv\<rparr>, tr1 @ [Close (snd sv)]))
      else if proto AND VU_PROTO_F_BACKEND_REQ \<noteq> 0 then (d, tr @ [Socketpair])
      else (d, tr))"

text \<open>Steps 3 to 5: set owner, share guest RAM, open the backend channel.\<close>

definition vu_share_memory ::
  "os \<Rightarrow> u64 \<Rightarrow> u64 \<Rightarrow> int \<Rightarrow> u64 \<Rightarrow> fs_dev \<Rightarrow> log \<Rightarrow> bool \<times> fs_dev \<times> log" where
  "vu_share_memory w hva ram_size ram_memfd proto d tr =
     (case vu_send w (vu_sock d) VU_SET_OWNER [] [] tr of
        (False, tr1) \<Rightarrow> (False, d, tr1)
      | (True, tr1) \<Rightarrow>
          (case vu_send w (vu_sock d) VU_SET_MEM_TABLE (mem_table_payload ram_size hva) [ram_memfd] tr1 of
             (False, tr2) \<Rightarrow> (False, d, tr2)
           | (True, tr2) \<Rightarrow> (True, vu_backend_channel w proto d tr2)))"

text \<open>Step 2: the protocol features, which a backend may not answer.\<close>

definition vu_protocol_features ::
  "os \<Rightarrow> fs_dev \<Rightarrow> log \<Rightarrow> bool \<times> u64 \<times> fs_dev \<times> log" where
  "vu_protocol_features w d tr =
     (case vu_transact w (vu_sock d) VU_GET_PROTOCOL_FEATURES [] [] tr of
        (None, tr1) \<Rightarrow> (True, 0, d, tr1)
      | (Some reply, tr1) \<Rightarrow>
          (let pf = reply_u64 reply; proto = pf AND proto_mask;
               (ok, tr2) = vu_send w (vu_sock d) VU_SET_PROTOCOL_FEATURES (u64_payload proto) [] tr1
           in (ok, proto, d\<lparr>vu_proto_features := pf\<rparr>, tr2)))"

definition vu_early_init ::
  "os \<Rightarrow> u64 \<Rightarrow> u64 \<Rightarrow> int \<Rightarrow> fs_dev \<Rightarrow> log \<Rightarrow> bool \<times> fs_dev \<times> log" where
  "vu_early_init w hva ram_size ram_memfd d tr =
     (case vu_transact w (vu_sock d) VU_GET_FEATURES [] [] tr of
        (None, tr1) \<Rightarrow> (False, d, tr1)
      | (Some reply, tr1) \<Rightarrow>
          (let feats = reply_u64 reply; d1 = d\<lparr>vu_features := feats\<rparr>
           in case vu_send w (vu_sock d) VU_SET_FEATURES (u64_payload feats) [] tr1 of
                (False, tr2) \<Rightarrow> (False, d1, tr2)
              | (True, tr2) \<Rightarrow>
                  (case vu_protocol_features w (d1\<lparr>vu_features := feats OR VIRT_F_VERSION_1\<rparr>) tr2 of
                     (False, proto, d2, tr3) \<Rightarrow> (False, d2, tr3)
                   | (True, proto, d2, tr3) \<Rightarrow>
                       vu_share_memory w hva ram_size ram_memfd proto d2 tr3)))"

section \<open>Ring set-up\<close>

definition start_irq_thread :: "os \<Rightarrow> fs_dev \<Rightarrow> log \<Rightarrow> fs_dev \<times> log" where
  "start_irq_thread w d tr =
     (if irq_thread_running d then (d, tr)
      else (let tr1 = tr @ [Sigaction_usr1]
            in (d\<lparr>irq_wakeup_fd := os_ret w tr1 Eventfd, irq_thread_running := True\<rparr>,
                tr1 @ [Eventfd, Thread_create Irq_thread])))"

text \<open>The calls of one iteration of the loop of \<^verbatim>\<open>vu_setup\<close>, after the eventfds are made.\<close>

definition vring_calls :: "int \<Rightarrow> u64 \<Rightarrow> u32 \<Rightarrow> virtqueue \<Rightarrow> log" where
  "vring_calls sock hva i q =
    [Sendmsg sock (vu_msg VU_SET_VRING_NUM (vring_state_payload i (vq_num q))) [],
     Sendmsg sock (vu_msg VU_SET_VRING_BASE (vring_state_payload i 0)) [],
     Sendmsg sock (vu_msg VU_SET_VRING_ADDR
       (vring_addr_payload i (hva + vq_desc q) (hva + vq_device q) (hva + vq_driver q))) [],
     Sendmsg sock (vu_msg VU_SET_VRING_KICK (u64_payload (ucast i))) [kick_fd q],
     Sendmsg sock (vu_msg VU_SET_VRING_CALL (u64_payload (ucast i))) [call_fd q],
     Sendmsg sock (vu_msg VU_SET_VRING_ENABLE (vring_state_payload i 1)) []]"

definition vu_setup_queue :: "os \<Rightarrow> int \<Rightarrow> u64 \<Rightarrow> u32 \<Rightarrow> virtqueue \<Rightarrow> log \<Rightarrow> virtqueue \<times> log" where
  "vu_setup_queue w sock hva i q tr =
     (if vq_num q = 0 \<or> vq_ready q = 0 then (q, tr)
      else (let tr1 = tr @ (if 0 \<le> call_fd q then [Close (call_fd q)] else [])
                         @ (if 0 \<le> kick_fd q then [Close (kick_fd q)] else []);
                kick = os_ret w tr1 Eventfd;
                call = os_ret w (tr1 @ [Eventfd]) Eventfd;
                q1 = q\<lparr>kick_fd := kick, call_fd := call\<rparr>
            in (q1, tr1 @ [Eventfd, Eventfd] @ vring_calls sock hva i q1)))"

fun vu_setup_queues :: "os \<Rightarrow> int \<Rightarrow> u64 \<Rightarrow> u32 \<Rightarrow> virtqueue list \<Rightarrow> log \<Rightarrow> virtqueue list \<times> log" where
  "vu_setup_queues w sock hva i [] tr = ([], tr)"
| "vu_setup_queues w sock hva i (q # qs) tr =
     (let (q1, tr1) = vu_setup_queue w sock hva i q tr;
          (qs1, tr2) = vu_setup_queues w sock hva (i + 1) qs tr1
      in (q1 # qs1, tr2))"

definition vu_setup :: "os \<Rightarrow> u64 \<Rightarrow> fs_dev \<Rightarrow> log \<Rightarrow> fs_dev \<times> log" where
  "vu_setup w hva d tr =
     (if virtio_active d \<or> vu_sock d < 0 then (d, tr)
      else (let (qs, tr1) = vu_setup_queues w (vu_sock d) hva 0 (vqs d) tr
            in start_irq_thread w (d\<lparr>vqs := qs, virtio_active := True\<rparr>) tr1))"

section \<open>Connecting\<close>

text \<open>
  \<^verbatim>\<open>for (us = 50; us <= 50000; us = min(us * 2, 50000))\<close>: a loop with no bound on the
  number of rounds, so it is a partial function; \<open>None\<close> is a loop that never ends.
\<close>

partial_function (option) vu_connect_loop :: "os \<Rightarrow> int \<Rightarrow> int \<Rightarrow> log \<Rightarrow> (bool \<times> log) option" where
  "vu_connect_loop w sock us tr =
     (if us \<le> 50000
      then if os_ret w tr (Connect sock) = 0 then Some (True, tr @ [Connect sock])
           else vu_connect_loop w sock (min (us * 2) 50000) (tr @ [Connect sock, Usleep us])
      else Some (False, tr))"

definition vu_connect :: "os \<Rightarrow> fs_dev \<Rightarrow> log \<Rightarrow> (bool \<times> fs_dev \<times> log) option" where
  "vu_connect w d tr =
     (let s = os_ret w tr Socket_unix; d1 = d\<lparr>vu_sock := s\<rparr>; tr1 = tr @ [Socket_unix]
      in if s < 0 then Some (False, d1, tr1)
         else map_option (\<lambda>(ok, tr2). (ok, d1, tr2)) (vu_connect_loop w s 50 tr1))"

section \<open>Lemmas\<close>

subsection \<open>Message format\<close>

lemma length_vu_msg [simp]: "length (vu_msg req payload) = VHOST_USER_HDR_SIZE + length payload"
  by (simp add: vu_msg_def VHOST_USER_HDR_SIZE_def)

lemma length_payloads [simp, byte_simps]:
  "length (u64_payload v) = 8"
  "length (vring_state_payload i n) = 8"
  "length (vring_addr_payload i a b c) = 40"
  "length (mem_table_payload s h) = 40"
  by (simp_all add: u64_payload_def vring_state_payload_def vring_addr_payload_def mem_table_payload_def)

lemma vu_msg_fields:
  "le_val (take 4 (vu_msg req p)) = req"
  "le_val (take 4 (drop 4 (vu_msg req p))) = VHOST_USER_VERSION"
  "le_val (take 4 (drop 8 (vu_msg req p))) = (of_nat (length p) :: u32)"
  "drop VHOST_USER_HDR_SIZE (vu_msg req p) = p"
  by (simp_all add: vu_msg_def VHOST_USER_HDR_SIZE_def)

lemma length_vu_recv: "vu_recv w sock tr = (Some m, tr') \<Longrightarrow> length m = VU_MSG_SIZE"
  by (auto simp: vu_recv_def Let_def split: if_splits)

subsection \<open>What a step sends\<close>

lemma vu_send_log: "snd (vu_send w sock req p fds tr) = tr @ [Sendmsg sock (vu_msg req p) fds]"
  by (simp add: vu_send_def Let_def)

lemma vu_send_eq:
  "vu_send w sock req p fds tr = (ok, tr') \<longleftrightarrow>
     ok = (0 < os_ret w tr (Sendmsg sock (vu_msg req p) fds)) \<and> tr' = tr @ [Sendmsg sock (vu_msg req p) fds]"
  by (auto simp: vu_send_def Let_def)

lemma vu_recv_log: "vu_recv w sock tr = (m, tr') \<Longrightarrow> tr' = tr @ [Recvmsg sock]"
  by (auto simp: vu_recv_def Let_def)

lemma vu_transact_sent:
  "vu_transact w sock req p fds tr = (m, tr') \<Longrightarrow> sent sock tr' = sent sock tr @ [(vu_msg req p, fds)]"
  by (auto simp: vu_transact_def vu_send_eq split: prod.splits bool.splits dest: vu_recv_log)

lemma vu_protocol_features_sent:
  assumes "vu_protocol_features w d tr = (ok, proto, d', tr')"
  shows "\<exists>answered pf. sent (vu_sock d) tr' =
           sent (vu_sock d) tr @ (vu_msg VU_GET_PROTOCOL_FEATURES [], []) #
             (if answered then [(vu_msg VU_SET_PROTOCOL_FEATURES (u64_payload proto), [])] else [])
         \<and> proto = (if answered then pf AND proto_mask else 0)
         \<and> d' = (if answered then d\<lparr>vu_proto_features := pf\<rparr> else d)"
proof (cases "vu_transact w (vu_sock d) VU_GET_PROTOCOL_FEATURES [] [] tr")
  case (Pair m tr1)
  note s = vu_transact_sent [OF Pair]
  show ?thesis
  proof (cases m)
    case None
    with Pair assms s show ?thesis
      by (intro exI [of _ False] exI) (auto simp: vu_protocol_features_def)
  next
    case (Some r)
    with Pair assms s show ?thesis
      by (intro exI [of _ True] exI [of _ "reply_u64 r"])
        (auto simp: vu_protocol_features_def Let_def vu_send_eq split: prod.splits)
  qed
qed

lemma vu_backend_channel_sent:
  assumes "vu_backend_channel w proto d tr = (d', tr')"
  shows "\<exists>sv1. sent (vu_sock d) tr' = sent (vu_sock d) tr @
             (if proto AND VU_PROTO_F_BACKEND_REQ \<noteq> 0 \<and> os_ret w tr Socketpair = 0
              then [(vu_msg VU_SET_BACKEND_REQ_FD [], [sv1])] else [])
         \<and> vu_features d' = vu_features d"
  using assms
  by (intro exI [of _ "snd (os_pair w tr Socketpair)"])
    (auto simp: vu_backend_channel_def Let_def vu_send_eq split: if_splits prod.splits)

lemma vu_share_memory_sent:
  assumes "vu_share_memory w hva ram_size fd proto d tr = (True, d', tr')"
  shows "\<exists>chan. sent (vu_sock d) tr' = sent (vu_sock d) tr @
             [(vu_msg VU_SET_OWNER [], []),
              (vu_msg VU_SET_MEM_TABLE (mem_table_payload ram_size hva), [fd])] @ chan
         \<and> (chan = [] \<or> (\<exists>sv1. chan = [(vu_msg VU_SET_BACKEND_REQ_FD [], [sv1])])
               \<and> proto AND VU_PROTO_F_BACKEND_REQ \<noteq> 0)
         \<and> vu_features d' = vu_features d"
proof -
  define tr2 where "tr2 = tr @ [Sendmsg (vu_sock d) (vu_msg VU_SET_OWNER []) [],
    Sendmsg (vu_sock d) (vu_msg VU_SET_MEM_TABLE (mem_table_payload ram_size hva)) [fd]]"
  have b: "vu_backend_channel w proto d tr2 = (d', tr')"
    using assms
    by (auto simp: vu_share_memory_def vu_send_eq tr2_def split: prod.splits bool.splits)
  from vu_backend_channel_sent [OF b] show ?thesis
    by (auto simp: tr2_def)
qed

text \<open>
  The early vhost-user handshake.  Whatever the backend does, if
  \<open>vu_early_init\<close> succeeds then the messages it sent are, in this order: GET\_FEATURES, an
  acknowledgement of exactly the offered features, GET\_PROTOCOL\_FEATURES, the supported part
  of the protocol features if the backend answered, SET\_OWNER, the one-region memory table carrying
  the RAM memfd, and the backend channel only if that feature was agreed; and the features
  shown to the guest are the offered ones plus VERSION\_1.
\<close>

lemma vu_early_init_messages:
  assumes "vu_early_init w hva ram_size fd d tr = (True, d', tr')"
  shows "\<exists>feats answered pf chan. sent (vu_sock d) tr' = sent (vu_sock d) tr @
      [(vu_msg VU_GET_FEATURES [], []),
       (vu_msg VU_SET_FEATURES (u64_payload feats), []),
       (vu_msg VU_GET_PROTOCOL_FEATURES [], [])] @
      (if answered then [(vu_msg VU_SET_PROTOCOL_FEATURES (u64_payload (pf AND proto_mask)), [])] else []) @
      [(vu_msg VU_SET_OWNER [], []),
       (vu_msg VU_SET_MEM_TABLE (mem_table_payload ram_size hva), [fd])] @ chan
    \<and> (chan = [] \<or> (\<exists>sv1. chan = [(vu_msg VU_SET_BACKEND_REQ_FD [], [sv1])])
          \<and> answered \<and> pf AND VU_PROTO_F_BACKEND_REQ \<noteq> 0)
    \<and> vu_features d' = feats OR VIRT_F_VERSION_1"
proof -
  obtain m tr1 where t: "vu_transact w (vu_sock d) VU_GET_FEATURES [] [] tr = (m, tr1)"
    by (cases "vu_transact w (vu_sock d) VU_GET_FEATURES [] [] tr")
  with assms obtain r where m: "m = Some r" by (cases m) (auto simp: vu_early_init_def)
  define feats where "feats = reply_u64 r"
  define d1 where "d1 = d\<lparr>vu_features := feats OR VIRT_F_VERSION_1\<rparr>"
  define tr2 where "tr2 = tr1 @ [Sendmsg (vu_sock d) (vu_msg VU_SET_FEATURES (u64_payload feats)) []]"
  obtain ok proto d2 tr3 where p: "vu_protocol_features w d1 tr2 = (ok, proto, d2, tr3)"
    by (cases "vu_protocol_features w d1 tr2") auto
  with assms t m have ok: "ok" and sh: "vu_share_memory w hva ram_size fd proto d2 tr3 = (True, d', tr')"
    by (auto simp: vu_early_init_def Let_def vu_send_eq feats_def d1_def tr2_def
        split: prod.splits bool.splits)
  have socks: "vu_sock d1 = vu_sock d" by (simp add: d1_def)
  from vu_protocol_features_sent [OF p] obtain answered pf where
    ps: "sent (vu_sock d) tr3 = sent (vu_sock d) tr2 @ (vu_msg VU_GET_PROTOCOL_FEATURES [], []) #
          (if answered then [(vu_msg VU_SET_PROTOCOL_FEATURES (u64_payload proto), [])] else [])"
    and pr: "proto = (if answered then pf AND proto_mask else 0)"
    and d2: "d2 = (if answered then d1\<lparr>vu_proto_features := pf\<rparr> else d1)"
    unfolding socks by blast
  have d2s: "vu_sock d2 = vu_sock d" "vu_features d2 = feats OR VIRT_F_VERSION_1"
    by (auto simp: d2 d1_def)
  have split: "(pf AND proto_mask) AND VU_PROTO_F_BACKEND_REQ = (pf AND VU_PROTO_F_BACKEND_REQ) AND proto_mask"
    by (simp only: and.assoc and.commute and.left_commute)
  have agreed: "answered \<and> pf AND VU_PROTO_F_BACKEND_REQ \<noteq> 0" if "proto AND VU_PROTO_F_BACKEND_REQ \<noteq> 0"
    using that by (cases answered) (simp_all only: pr split if_True if_False and_zero_eq zero_and_eq, auto)
  from vu_share_memory_sent [OF sh] obtain chan where
    c: "sent (vu_sock d) tr' = sent (vu_sock d) tr3 @
          [(vu_msg VU_SET_OWNER [], []),
           (vu_msg VU_SET_MEM_TABLE (mem_table_payload ram_size hva), [fd])] @ chan"
    and ch: "chan = [] \<or> (\<exists>sv1. chan = [(vu_msg VU_SET_BACKEND_REQ_FD [], [sv1])])
               \<and> proto AND VU_PROTO_F_BACKEND_REQ \<noteq> 0"
    and f: "vu_features d' = feats OR VIRT_F_VERSION_1"
    unfolding d2s by blast
  have s2: "sent (vu_sock d) tr2 = sent (vu_sock d) tr @
      [(vu_msg VU_GET_FEATURES [], []), (vu_msg VU_SET_FEATURES (u64_payload feats), [])]"
    by (simp add: tr2_def vu_transact_sent [OF t])
  have all: "sent (vu_sock d) tr' = sent (vu_sock d) tr @
      [(vu_msg VU_GET_FEATURES [], []),
       (vu_msg VU_SET_FEATURES (u64_payload feats), []),
       (vu_msg VU_GET_PROTOCOL_FEATURES [], [])] @
      (if answered then [(vu_msg VU_SET_PROTOCOL_FEATURES (u64_payload (pf AND proto_mask)), [])] else []) @
      [(vu_msg VU_SET_OWNER [], []),
       (vu_msg VU_SET_MEM_TABLE (mem_table_payload ram_size hva), [fd])] @ chan"
    by (cases answered) (simp_all add: c ps s2 pr)
  show ?thesis
    using all ch agreed f by blast
qed

definition demo_os :: os where
  "demo_os =
    \<lparr>os_ret = (\<lambda>tr c. case c of Recvmsg _ \<Rightarrow> 20 | Socketpair \<Rightarrow> 0 | Connect _ \<Rightarrow> 0 | Eventfd \<Rightarrow> 40 + int (length tr) | _ \<Rightarrow> 1),
     os_data = (\<lambda>tr c. vu_msg VU_GET_FEATURES (u64_payload 0x25)),
     os_pair = (\<lambda>tr c. (7, 8))\<rparr>"

lemma vu_early_init_demo:
  "fst (vu_early_init demo_os 0x7f0000000000 0x4000000 5 (init_fs_dev\<lparr>vu_sock := 3\<rparr>) [])"
  by (simp add: vu_early_init_def vu_transact_def vu_send_def vu_recv_def vu_protocol_features_def
      vu_share_memory_def Let_def demo_os_def VHOST_USER_HDR_SIZE_def case_prod_beta)

lemma vu_early_init_messages_witness:
  "\<exists>d' tr' feats answered pf chan.
     vu_early_init demo_os 0x7f0000000000 0x4000000 5 (init_fs_dev\<lparr>vu_sock := 3\<rparr>) [] = (True, d', tr') \<and>
     sent 3 tr' = [(vu_msg VU_GET_FEATURES [], []),
       (vu_msg VU_SET_FEATURES (u64_payload feats), []),
       (vu_msg VU_GET_PROTOCOL_FEATURES [], [])] @
      (if answered then [(vu_msg VU_SET_PROTOCOL_FEATURES (u64_payload (pf AND proto_mask)), [])] else []) @
      [(vu_msg VU_SET_OWNER [], []),
       (vu_msg VU_SET_MEM_TABLE (mem_table_payload 0x4000000 0x7f0000000000), [5])] @ chan"
proof -
  let ?d = "init_fs_dev\<lparr>vu_sock := 3\<rparr>"
  obtain b d' tr' where "vu_early_init demo_os 0x7f0000000000 0x4000000 5 ?d [] = (b, d', tr')"
    by (rule prod_cases3)
  with vu_early_init_demo have r: "vu_early_init demo_os 0x7f0000000000 0x4000000 5 ?d [] = (True, d', tr')"
    by simp
  have sock: "vu_sock ?d = 3" by simp
  from vu_early_init_messages [OF r, unfolded sock sent.simps append_Nil] r show ?thesis
    by blast
qed

subsection \<open>Ring set-up\<close>

text \<open>
  What the ring messages say about each ring, read off their bytes by the layout of
  \<^verbatim>\<open>VhostUserVringState\<close> and \<^verbatim>\<open>VhostUserVringAddr\<close>: the view a vhost-user backend has of the rings.
\<close>

record ring_view =
  rv_num :: u32
  rv_base :: u32
  rv_desc :: u64
  rv_used :: u64
  rv_avail :: u64
  rv_kick :: int
  rv_call :: int
  rv_enabled :: u32

definition ring_update :: "u8 list \<times> int list \<Rightarrow> (u32 \<Rightarrow> ring_view) \<Rightarrow> (u32 \<Rightarrow> ring_view)" where
  "ring_update mf rv =
     (let req = (le_val (take 4 (fst mf)) :: u32); p = drop VHOST_USER_HDR_SIZE (fst mf);
          i = (le_val (take 4 p) :: u32); num = (le_val (take 4 (drop 4 p)) :: u32);
          q = ucast ((le_val (take 8 p) :: u64) AND 0xFF)
      in if req = VU_SET_VRING_NUM then rv(i := (rv i)\<lparr>rv_num := num\<rparr>)
         else if req = VU_SET_VRING_BASE then rv(i := (rv i)\<lparr>rv_base := num\<rparr>)
         else if req = VU_SET_VRING_ADDR
         then rv(i := (rv i)\<lparr>rv_desc := le_val (take 8 (drop 8 p)), rv_used := le_val (take 8 (drop 16 p)),
                             rv_avail := le_val (take 8 (drop 24 p))\<rparr>)
         else if req = VU_SET_VRING_KICK then rv(q := (rv q)\<lparr>rv_kick := hd (snd mf)\<rparr>)
         else if req = VU_SET_VRING_CALL then rv(q := (rv q)\<lparr>rv_call := hd (snd mf)\<rparr>)
         else if req = VU_SET_VRING_ENABLE then rv(i := (rv i)\<lparr>rv_enabled := num\<rparr>)
         else rv)"

definition view_of :: "u64 \<Rightarrow> virtqueue \<Rightarrow> ring_view" where
  "view_of hva q =
     \<lparr>rv_num = vq_num q, rv_base = 0, rv_desc = hva + vq_desc q, rv_used = hva + vq_device q,
      rv_avail = hva + vq_driver q, rv_kick = kick_fd q, rv_call = call_fd q, rv_enabled = 1\<rparr>"

lemma ucast_and_ff:
  assumes "i < 256"
  shows "ucast ((ucast (i :: u32) :: u64) AND 0xFF) = i"
proof -
  have m: "(0xFF :: u64) = mask 8" by (simp add: mask_eq_exp_minus_1)
  have "ucast ((ucast i :: u64) AND mask 8) = i AND mask 8"
    by (rule bit_word_eqI) (auto simp: bit_simps)
  also have "\<dots> = i" using assms by (intro less_mask_eq) simp
  finally show ?thesis by (simp only: m)
qed

lemma sent_vring_calls:
  "sent sock (vring_calls sock hva i q) =
    [(vu_msg VU_SET_VRING_NUM (vring_state_payload i (vq_num q)), []),
     (vu_msg VU_SET_VRING_BASE (vring_state_payload i 0), []),
     (vu_msg VU_SET_VRING_ADDR
       (vring_addr_payload i (hva + vq_desc q) (hva + vq_device q) (hva + vq_driver q)), []),
     (vu_msg VU_SET_VRING_KICK (u64_payload (ucast i)), [kick_fd q]),
     (vu_msg VU_SET_VRING_CALL (u64_payload (ucast i)), [call_fd q]),
     (vu_msg VU_SET_VRING_ENABLE (vring_state_payload i 1), [])]"
  by (simp add: vring_calls_def)

lemma ring_update_state:
  "ring_update (vu_msg VU_SET_VRING_NUM (vring_state_payload i n), fds) rv = rv(i := (rv i)\<lparr>rv_num := n\<rparr>)"
  "ring_update (vu_msg VU_SET_VRING_BASE (vring_state_payload i n), fds) rv = rv(i := (rv i)\<lparr>rv_base := n\<rparr>)"
  "ring_update (vu_msg VU_SET_VRING_ENABLE (vring_state_payload i n), fds) rv = rv(i := (rv i)\<lparr>rv_enabled := n\<rparr>)"
  unfolding ring_update_def fst_conv vu_msg_fields Let_def
  by (simp_all add: vring_state_payload_def vu_requests)

lemma ring_update_addr:
  "ring_update (vu_msg VU_SET_VRING_ADDR (vring_addr_payload i a b c), fds) rv =
     rv(i := (rv i)\<lparr>rv_desc := a, rv_used := b, rv_avail := c\<rparr>)"
  unfolding ring_update_def fst_conv vu_msg_fields Let_def
  by (simp add: vring_addr_payload_def vu_requests)

lemma ring_update_fds:
  assumes "i < 256"
  shows "ring_update (vu_msg VU_SET_VRING_KICK (u64_payload (ucast i)), [fd]) rv = rv(i := (rv i)\<lparr>rv_kick := fd\<rparr>)"
    and "ring_update (vu_msg VU_SET_VRING_CALL (u64_payload (ucast i)), [fd]) rv = rv(i := (rv i)\<lparr>rv_call := fd\<rparr>)"
  unfolding ring_update_def fst_conv vu_msg_fields Let_def
  by (simp_all add: u64_payload_def vu_requests ucast_and_ff [OF assms] del: take_append)

lemma rings_after_queue:
  assumes "i < 256"
  shows "fold ring_update (sent sock (vring_calls sock hva i q)) rv = rv(i := view_of hva q)"
  by (cases "rv i")
    (simp add: sent_vring_calls ring_update_state ring_update_addr ring_update_fds [OF assms] view_of_def)

lemma vu_setup_queue_skip:
  "vq_num q = 0 \<or> vq_ready q = 0 \<Longrightarrow> vu_setup_queue w sock hva i q tr = (q, tr)"
  by (simp add: vu_setup_queue_def)

lemma vu_setup_queue_ready:
  assumes "vq_num q \<noteq> 0" and "vq_ready q \<noteq> 0" and "vu_setup_queue w sock hva i q tr = (q', tr')"
  shows "sent sock tr' = sent sock tr @ sent sock (vring_calls sock hva i q')" and "vq_regs q' = vq_regs q"
  using assms by (auto simp: vu_setup_queue_def Let_def vq_regs_def)

lemma vu_setup_queue_rings:
  assumes "i < 256" and "vu_setup_queue w sock hva i q tr = (q', tr')"
  shows "\<exists>ms. sent sock tr' = sent sock tr @ ms \<and>
    (\<forall>rv. fold ring_update ms rv = (if vq_num q = 0 \<or> vq_ready q = 0 then rv else rv(i := view_of hva q')))"
proof (cases "vq_num q = 0 \<or> vq_ready q = 0")
  case True
  with assms show ?thesis by (auto simp: vu_setup_queue_skip)
next
  case False
  with assms show ?thesis
    using vu_setup_queue_ready(1) rings_after_queue [OF assms(1)] by (metis (no_types, lifting))
qed

lemma vu_setup_queue_regs: "vq_regs (fst (vu_setup_queue w sock hva i q tr)) = vq_regs q"
  by (simp add: vu_setup_queue_def Let_def vq_regs_def)

lemma length_vu_setup_queues [simp]:
  "length (fst (vu_setup_queues w sock hva i qs tr)) = length qs"
  by (induction qs arbitrary: i tr) (simp_all add: Let_def case_prod_beta)

lemma vu_setup_queues_regs:
  "map vq_regs (fst (vu_setup_queues w sock hva i qs tr)) = map vq_regs qs"
  by (induction qs arbitrary: i tr) (simp_all add: Let_def case_prod_beta vu_setup_queue_regs)

lemma start_irq_thread_log:
  "start_irq_thread w d tr = (d', tr') \<Longrightarrow> sent sock tr' = sent sock tr \<and> vqs d' = vqs d \<and>
     virtio_active d' = virtio_active d"
  by (auto simp: start_irq_thread_def Let_def split: if_splits)


definition demo_ready_fs :: fs_dev where
  "demo_ready_fs = init_fs_dev\<lparr>vu_sock := 3,
     vqs := [empty_vq, empty_vq\<lparr>vq_num := 8, vq_ready := 1, vq_desc := 0x1000, vq_driver := 0x2000, vq_device := 0x3000\<rparr>]\<rparr>"


text \<open>
  A device that is already active is left alone: the set-up runs once per activation.
\<close>

lemma vu_setup_active [simp]: "virtio_active d \<Longrightarrow> vu_setup w hva d tr = (d, tr)"
  by (simp add: vu_setup_def)

lemma vu_setup_keeps:
  assumes "vu_setup w hva d tr = (d', tr')"
  shows "length (vqs d') = length (vqs d)" and "map vq_regs (vqs d') = map vq_regs (vqs d)"
    and "vdev_status d' = vdev_status d" and "vdrv_features d' = vdrv_features d"
    and "vqueue_sel d' = vqueue_sel d" and "virq_status d' = virq_status d"
    and "vdrv_features_sel d' = vdrv_features_sel d" and "vdev_features_sel d' = vdev_features_sel d"
    and "fs_config d' = fs_config d" and "vu_sock d' = vu_sock d"
  using assms
  by (auto simp: vu_setup_def start_irq_thread_def Let_def case_prod_beta vu_setup_queues_regs split: if_splits)

subsection \<open>The connection loop\<close>

text \<open>The log before attempt number \<open>k\<close> (from 0), every earlier attempt having failed.\<close>

fun connect_tries :: "int \<Rightarrow> int \<Rightarrow> log \<Rightarrow> nat \<Rightarrow> log" where
  "connect_tries sock us tr 0 = tr"
| "connect_tries sock us tr (Suc k) =
     connect_tries sock (min (us * 2) 50000) (tr @ [Connect sock, Usleep us]) k"

lemma vu_connect_loop_succeeds:
  assumes "us \<le> 50000" and "\<forall>j < k. os_ret w (connect_tries sock us tr j) (Connect sock) \<noteq> 0"
    and "os_ret w (connect_tries sock us tr k) (Connect sock) = 0"
  shows "vu_connect_loop w sock us tr = Some (True, connect_tries sock us tr k @ [Connect sock])"
  using assms
proof (induction k arbitrary: us tr)
  case 0
  then show ?case by (subst vu_connect_loop.simps) simp
next
  case (Suc k)
  from Suc.prems(2) have "os_ret w tr (Connect sock) \<noteq> 0" by force
  moreover have "vu_connect_loop w sock (min (us * 2) 50000) (tr @ [Connect sock, Usleep us]) =
      Some (True, connect_tries sock us tr (Suc k) @ [Connect sock])"
    using Suc.IH [of "min (us * 2) 50000" "tr @ [Connect sock, Usleep us]"] Suc.prems by force
  ultimately show ?case
    using Suc.prems(1) by (subst vu_connect_loop.simps) simp
qed

lemma vu_connect_loop_result:
  assumes "vu_connect_loop w sock us tr = Some (ok, tr')" and "us \<le> 50000"
  shows "ok \<and> (\<exists>k. os_ret w (connect_tries sock us tr k) (Connect sock) = 0)"
proof -
  have "us \<le> 50000 \<longrightarrow> fst (ok, tr') \<and> (\<exists>k. os_ret w (connect_tries sock us tr k) (Connect sock) = 0)"
  proof (rule vu_connect_loop.raw_induct [where
        P = "\<lambda>w sock us tr r. us \<le> 50000 \<longrightarrow> fst r \<and> (\<exists>k. os_ret w (connect_tries sock us tr k) (Connect sock) = 0)",
        OF _ assms(1)])
    fix f :: "os \<Rightarrow> int \<Rightarrow> int \<Rightarrow> log \<Rightarrow> (bool \<times> log) option"
    fix w sock us tr r
    assume IH: "\<And>w sock us tr r. f w sock us tr = Some r \<Longrightarrow>
        us \<le> 50000 \<longrightarrow> fst r \<and> (\<exists>k. os_ret w (connect_tries sock us tr k) (Connect sock) = 0)"
      and eq: "(if us \<le> 50000
        then if os_ret w tr (Connect sock) = 0 then Some (True, tr @ [Connect sock])
             else f w sock (min (us * 2) 50000) (tr @ [Connect sock, Usleep us])
        else Some (False, tr)) = Some r"
    show "us \<le> 50000 \<longrightarrow> fst r \<and> (\<exists>k. os_ret w (connect_tries sock us tr k) (Connect sock) = 0)"
    proof (intro impI)
      assume us: "us \<le> 50000"
      show "fst r \<and> (\<exists>k. os_ret w (connect_tries sock us tr k) (Connect sock) = 0)"
      proof (cases "os_ret w tr (Connect sock) = 0")
        case True
        with eq us show ?thesis by (auto intro: exI [of _ 0])
      next
        case False
        with eq us IH [of w sock "min (us * 2) 50000" "tr @ [Connect sock, Usleep us]" r]
        show ?thesis by (auto intro: exI [of _ "Suc _"])
      qed
    qed
  qed
  with assms(2) show ?thesis by simp
qed

text \<open>
  The connection loop never gives up: because the delay saturates at 50000 and the
  loop test is \<^verbatim>\<open>us <= 50000\<close>, \<open>vu_connect\<close>'s loop runs forever exactly when
  every attempt fails, and its failure exit (the \<^verbatim>\<open>perror\<close> and \<^verbatim>\<open>return false\<close> after
  the loop) is never taken.
\<close>

lemma vu_connect_never_gives_up:
  "(vu_connect_loop w sock 50 tr = None \<longleftrightarrow>
      \<not> (\<exists>k. os_ret w (connect_tries sock 50 tr k) (Connect sock) = 0)) \<and>
   vu_connect_loop w sock 50 tr \<noteq> Some (False, tr')"
proof (cases "\<exists>k. os_ret w (connect_tries sock 50 tr k) (Connect sock) = 0")
  case True
  define k where "k = (LEAST k. os_ret w (connect_tries sock 50 tr k) (Connect sock) = 0)"
  have "os_ret w (connect_tries sock 50 tr k) (Connect sock) = 0"
    unfolding k_def by (rule LeastI_ex [OF True])
  moreover have "\<forall>j < k. os_ret w (connect_tries sock 50 tr j) (Connect sock) \<noteq> 0"
    unfolding k_def by (blast dest: not_less_Least)
  ultimately have "vu_connect_loop w sock 50 tr = Some (True, connect_tries sock 50 tr k @ [Connect sock])"
    by (intro vu_connect_loop_succeeds) simp_all
  with True show ?thesis by simp
next
  case False
  then have "vu_connect_loop w sock 50 tr = None"
    using vu_connect_loop_result [of w sock 50 tr] by (cases "vu_connect_loop w sock 50 tr") auto
  with False show ?thesis by simp
qed

end
