(* ===== verification/Virtio_Fs.thy ===== *)
theory Virtio_Fs
  imports Vhost_User
begin

text \<open>
  The virtio-fs device of \<^verbatim>\<open>src/virtio.cpp\<close>: the MMIO register file that the guest driver
  sees (\<open>virtio_mmio_read\<close>, \<open>virtio_mmio_write\<close>), queue notification (\<open>virtio_kick\<close>), the
  injection of completions as interrupts (\<open>check_virtio_irqs\<close>) and one round of the
  background interrupt thread.  A run of the device is a sequence of guest accesses and
  interrupt checks, \<open>fs_step\<close>.
\<close>

definition VIRTIO_DEV_FS :: u32 where "VIRTIO_DEV_FS = 26"
definition VIRTIO_MMIO_IRQ :: u32 where "VIRTIO_MMIO_IRQ = 5"

section \<open>Configuration\<close>

definition fs_config_bytes :: "virtio_fs_config \<Rightarrow> u8 list" where
  "fs_config_bytes c = tag c @ le_bytes 4 (num_request_queues c)"

text \<open>\<^verbatim>\<open>strncpy(tag, "myfs", 36)\<close> into a zeroed struct.\<close>

definition myfs_tag :: "u8 list" where
  "myfs_tag = map of_char ''myfs'' @ replicate 32 0"

definition fs_set_config :: "fs_dev \<Rightarrow> fs_dev" where
  "fs_set_config d =
     d\<lparr>fs_config := \<lparr>tag = myfs_tag, num_request_queues = 1\<rparr>,
       vu_features := (if vu_features d = 0 then VIRT_F_VERSION_1 else vu_features d)\<rparr>"

definition VIRTIO_MMIO_GPA :: nat where "VIRTIO_MMIO_GPA = 0xd0001000"
definition VIRTIO_MMIO_SIZE :: nat where "VIRTIO_MMIO_SIZE = 0x1000"

definition setup_virtio_fs :: "bool \<Rightarrow> string \<times> fs_dev \<Rightarrow> string \<times> fs_dev" where
  "setup_virtio_fs add_cmdline s =
     (case s of (cmdline, d) \<Rightarrow>
       (if add_cmdline
        then strncat_cmdline cmdline (mmio_device_param VIRTIO_MMIO_SIZE VIRTIO_MMIO_GPA (unat VIRTIO_MMIO_IRQ))
        else cmdline, fs_set_config d))"

section \<open>Register reads\<close>

definition fs_read_val :: "nat \<Rightarrow> nat \<Rightarrow> fs_dev \<Rightarrow> u32 option" where
  "fs_read_val off len d =
     (case reg_at off of
        Some MAGIC_VALUE \<Rightarrow> Some 0x74726976
      | Some VERSION \<Rightarrow> Some 2
      | Some DEVICE_ID \<Rightarrow> Some VIRTIO_DEV_FS
      | Some VENDOR_ID \<Rightarrow> Some VIRTIO_VENDOR_ID
      | Some DEVICE_FEATURES \<Rightarrow> Some (half_of (vdev_features_sel d) (vu_features d))
      | Some QUEUE_NUM_MAX \<Rightarrow> Some 1024
      | Some QUEUE_READY \<Rightarrow> Some (sel_ready (vqueue_sel d) (vqs d))
      | Some INTERRUPT_STATUS \<Rightarrow> Some (virq_status d)
      | Some STATUS \<Rightarrow> Some (vdev_status d)
      | Some CONFIG_GEN \<Rightarrow> Some 0
      | Some SHM_LEN_LOW \<Rightarrow> Some 0xFFFFFFFF
      | Some SHM_LEN_HIGH \<Rightarrow> Some 0xFFFFFFFF
      | Some SHM_BASE_LOW \<Rightarrow> Some 0xFFFFFFFF
      | Some SHM_BASE_HIGH \<Rightarrow> Some 0xFFFFFFFF
      | _ \<Rightarrow> config_val (fs_config_bytes (fs_config d)) off len)"

definition virtio_mmio_read :: "nat \<Rightarrow> u8 list \<Rightarrow> nat \<Rightarrow> fs_dev \<Rightarrow> u8 list option" where
  "virtio_mmio_read off bs len d = map_option (mmio_reply bs len) (fs_read_val off len d)"

section \<open>Register writes\<close>

definition virtio_kick :: "u32 \<Rightarrow> fs_dev \<Rightarrow> log \<Rightarrow> log" where
  "virtio_kick qidx d tr =
     (if length (vqs d) \<le> unat qidx then tr
      else if 0 \<le> kick_fd (vqs d ! unat qidx) then tr @ [Eventfd_write (kick_fd (vqs d ! unat qidx))]
      else tr)"

definition fs_ack :: "u32 \<Rightarrow> fs_dev \<Rightarrow> log \<Rightarrow> fs_dev \<times> log" where
  "fs_ack v d tr =
     (let st = virq_status d AND NOT v
      in (d\<lparr>virq_status := st\<rparr>, if st = 0 then tr @ [Irq_line VIRTIO_MMIO_IRQ 0] else tr))"

definition fs_reset :: "fs_dev \<Rightarrow> fs_dev" where
  "fs_reset d = d\<lparr>vqs := map (\<lambda>_. empty_vq) (vqs d), vdrv_features := 0, virq_status := 0\<rparr>"

definition fs_set_status :: "os \<Rightarrow> u64 \<Rightarrow> u32 \<Rightarrow> fs_dev \<Rightarrow> log \<Rightarrow> fs_dev \<times> log" where
  "fs_set_status w hva v d tr =
     (let old = vdev_status d; d1 = d\<lparr>vdev_status := v\<rparr>;
          d2 = (if v = 0 then fs_reset d1 else d1)
      in if v AND 4 \<noteq> 0 \<and> old AND 4 = 0 then vu_setup w hva d2 tr else (d2, tr))"

definition upd_queue :: "(virtqueue \<Rightarrow> virtqueue) \<Rightarrow> fs_dev \<Rightarrow> fs_dev" where
  "upd_queue f d = d\<lparr>vqs := upd_sel (vqueue_sel d) f (vqs d)\<rparr>"

fun fs_write_reg :: "os \<Rightarrow> u64 \<Rightarrow> virtio_mmio_reg \<Rightarrow> u32 \<Rightarrow> fs_dev \<Rightarrow> log \<Rightarrow> fs_dev \<times> log" where
  "fs_write_reg w hva DEVICE_FEATURES_SEL v d tr = (d\<lparr>vdev_features_sel := v\<rparr>, tr)"
| "fs_write_reg w hva DRIVER_FEATURES_SEL v d tr = (d\<lparr>vdrv_features_sel := v\<rparr>, tr)"
| "fs_write_reg w hva DRIVER_FEATURES v d tr =
     (if vdrv_features_sel d = 0 then (d\<lparr>vdrv_features := set_lo (vdrv_features d) v\<rparr>, tr)
      else if vdrv_features_sel d = 1 then (d\<lparr>vdrv_features := set_hi (vdrv_features d) v\<rparr>, tr)
      else (d, tr))"
| "fs_write_reg w hva QUEUE_SEL v d tr = (d\<lparr>vqueue_sel := v\<rparr>, tr)"
| "fs_write_reg w hva QUEUE_NUM v d tr = (upd_queue (vq_num_update (\<lambda>_. v)) d, tr)"
| "fs_write_reg w hva QUEUE_READY v d tr = (upd_queue (vq_ready_update (\<lambda>_. v)) d, tr)"
| "fs_write_reg w hva QUEUE_NOTIFY v d tr = (d, virtio_kick v d tr)"
| "fs_write_reg w hva INTERRUPT_ACK v d tr = fs_ack v d tr"
| "fs_write_reg w hva STATUS v d tr = fs_set_status w hva v d tr"
| "fs_write_reg w hva QUEUE_DESC_LOW v d tr = (upd_queue (vq_desc_update (\<lambda>x. set_lo x v)) d, tr)"
| "fs_write_reg w hva QUEUE_DESC_HIGH v d tr = (upd_queue (vq_desc_update (\<lambda>x. set_hi x v)) d, tr)"
| "fs_write_reg w hva QUEUE_DRIVER_LOW v d tr = (upd_queue (vq_driver_update (\<lambda>x. set_lo x v)) d, tr)"
| "fs_write_reg w hva QUEUE_DRIVER_HIGH v d tr = (upd_queue (vq_driver_update (\<lambda>x. set_hi x v)) d, tr)"
| "fs_write_reg w hva QUEUE_DEVICE_LOW v d tr = (upd_queue (vq_device_update (\<lambda>x. set_lo x v)) d, tr)"
| "fs_write_reg w hva QUEUE_DEVICE_HIGH v d tr = (upd_queue (vq_device_update (\<lambda>x. set_hi x v)) d, tr)"
| "fs_write_reg w hva SHM_SEL v d tr = (d\<lparr>shm_sel := v\<rparr>, tr)"
| "fs_write_reg w hva _ v d tr = (d, tr)"

definition virtio_mmio_write ::
  "os \<Rightarrow> u64 \<Rightarrow> nat \<Rightarrow> u8 list \<Rightarrow> nat \<Rightarrow> fs_dev \<Rightarrow> log \<Rightarrow> fs_dev \<times> log" where
  "virtio_mmio_write w hva off bs len d tr =
     (case reg_at off of
        None \<Rightarrow> (d, tr)
      | Some r \<Rightarrow> fs_write_reg w hva r (mmio_val bs len) d tr)"

section \<open>Interrupts\<close>

fun poll_call_fds :: "os \<Rightarrow> virtqueue list \<Rightarrow> log \<Rightarrow> bool \<times> log" where
  "poll_call_fds w [] tr = (False, tr)"
| "poll_call_fds w (q # qs) tr =
     (if 0 \<le> call_fd q
      then (let c = Eventfd_read (call_fd q); (need, tr1) = poll_call_fds w qs (tr @ [c])
            in (0 < os_ret w tr c \<or> need, tr1))
      else poll_call_fds w qs tr)"

definition check_virtio_irqs :: "os \<Rightarrow> fs_dev \<Rightarrow> log \<Rightarrow> fs_dev \<times> log" where
  "check_virtio_irqs w d tr =
     (if \<not> virtio_active d then (d, tr)
      else (let (need, tr1) = poll_call_fds w (vqs d) tr
            in if need then (d\<lparr>virq_status := virq_status d OR 1\<rparr>, tr1 @ [Irq_line VIRTIO_MMIO_IRQ 1])
               else (d, tr1)))"

section \<open>Runs of the device\<close>

inductive fs_step :: "os \<Rightarrow> u64 \<Rightarrow> fs_dev \<times> log \<Rightarrow> fs_dev \<times> log \<Rightarrow> bool" for w hva where
  guest_write: "fs_step w hva (d, tr) (virtio_mmio_write w hva off bs len d tr)"
| irq_check: "fs_step w hva (d, tr) (check_virtio_irqs w d tr)"

inductive fs_reach :: "os \<Rightarrow> u64 \<Rightarrow> int \<Rightarrow> fs_dev \<times> log \<Rightarrow> bool" for w hva sock where
  fs_start: "fs_reach w hva sock (fs_set_config (init_fs_dev\<lparr>vu_sock := sock\<rparr>), [])"
| fs_next: "fs_reach w hva sock s \<Longrightarrow> fs_step w hva s s' \<Longrightarrow> fs_reach w hva sock s'"

inductive_cases fs_step_cases: "fs_step w hva s s'"

section \<open>Lemmas\<close>

lemma virtio_mmio_write_reg:
  "virtio_mmio_write w hva (reg_offset r) bs len d tr = fs_write_reg w hva r (mmio_val bs len) d tr"
  by (simp add: virtio_mmio_write_def)

text \<open>A 32-bit write to a register, its effect on the device only.\<close>

definition fs_wr :: "os \<Rightarrow> u64 \<Rightarrow> log \<Rightarrow> fs_dev \<Rightarrow> virtio_mmio_reg \<Rightarrow> u32 \<Rightarrow> fs_dev" where
  "fs_wr w hva tr d r v = fst (virtio_mmio_write w hva (reg_offset r) (le_bytes 4 v) 4 d tr)"

lemma fs_wr_eq: "fs_wr w hva tr d r v = fst (fs_write_reg w hva r v d tr)"
  by (simp add: fs_wr_def virtio_mmio_write_reg mmio_val_def)

lemma vu_setup_sel: "vqueue_sel (fst (vu_setup w hva d tr)) = vqueue_sel d"
  using vu_setup_keeps(5) [of w hva d tr] by (metis prod.collapse)

lemma vu_setup_length: "length (vqs (fst (vu_setup w hva d tr))) = length (vqs d)"
  using vu_setup_keeps(1) [of w hva d tr] by (metis prod.collapse)

lemma vu_setup_virq: "virq_status (fst (vu_setup w hva d tr)) = virq_status d"
  using vu_setup_keeps(6) [of w hva d tr] by (metis prod.collapse)

lemma fs_set_status_sel: "vqueue_sel (fst (fs_set_status w hva v d tr)) = vqueue_sel d"
  by (simp add: fs_set_status_def Let_def fs_reset_def vu_setup_sel)

interpretation fs: virtio_transport "fs_wr w hva tr" vqs vqueue_sel vdrv_features_sel vdrv_features
  for w hva tr
proof unfold_locales
  fix d v r
  show "r \<noteq> QUEUE_SEL \<Longrightarrow> vqueue_sel (fs_wr w hva tr d r v) = vqueue_sel d"
    by (cases r) (simp_all add: fs_wr_eq upd_queue_def fs_ack_def Let_def fs_set_status_sel)
qed (simp_all add: fs_wr_eq upd_queue_def)

text \<open>
  Queue programming of virtio-fs.  Whatever state the device is in, the register
  writes a driver makes to set up queue \<open>i\<close> (select, size, the three ring addresses as 32-bit
  halves, ready) leave that queue with exactly the programmed size and 64-bit addresses and
  the ready flag, and leave every other queue as it was.
\<close>

lemma fs_queue_programmed:
  assumes "unat i < length (vqs d)"
  shows "vq_regs (vqs (program (fs_wr w hva tr) (vq_program i num desc drv dev) d) ! unat i) =
           (num, 1, desc, drv, dev) \<and>
         (\<forall>j < length (vqs d). j \<noteq> unat i \<longrightarrow>
            vqs (program (fs_wr w hva tr) (vq_program i num desc drv dev) d) ! j = vqs d ! j)"
  using fs.vq_programmed_nth [OF assms] by (auto simp: fs.vq_programmed nth_upd_sel)

lemma fs_queue_programmed_witness:
  "vq_regs (vqs (program (fs_wr demo_os 0 []) (vq_program 1 8 0x100001000 0x2000 0x3000) init_fs_dev) ! 1) =
     (8, 1, 0x100001000, 0x2000, 0x3000)"
proof -
  have "unat (1 :: u32) < length (vqs init_fs_dev)" by (simp add: init_fs_dev_def NUM_QUEUES_def)
  from fs_queue_programmed [OF this] show ?thesis by simp
qed

lemma fs_features_negotiated:
  "vdrv_features (program (fs_wr w hva tr) (feature_program f) d) = f"
  by (rule fs.features_negotiated)

subsection \<open>Interrupt line and status\<close>

lemma irq_level_vring_calls [simp]: "irq_level irq l (vring_calls sock hva i q) = l"
  by (simp add: vring_calls_def)

lemma irq_level_setup_queue: "irq_level irq l (snd (vu_setup_queue w sock hva i q tr)) = irq_level irq l tr"
  by (simp add: vu_setup_queue_def Let_def)

lemma irq_level_setup_queues: "irq_level irq l (snd (vu_setup_queues w sock hva i qs tr)) = irq_level irq l tr"
  by (induction qs arbitrary: i tr) (simp_all add: Let_def case_prod_beta irq_level_setup_queue)

lemma irq_level_vu_setup: "irq_level irq l (snd (vu_setup w hva d tr)) = irq_level irq l tr"
  by (simp add: vu_setup_def start_irq_thread_def Let_def case_prod_beta irq_level_setup_queues)

lemma irq_level_poll: "irq_level irq l (snd (poll_call_fds w qs tr)) = irq_level irq l tr"
  by (induction qs arbitrary: tr) (simp_all add: Let_def case_prod_beta)

lemmas irq_level_simps = irq_level_vu_setup irq_level_poll

text \<open>
  The device keeps two queues; the status register holds at most the used-buffer bit; and
  while that bit is set the interrupt line is asserted.
\<close>

definition fs_inv :: "fs_dev \<times> log \<Rightarrow> bool" where
  "fs_inv s \<longleftrightarrow> length (vqs (fst s)) = NUM_QUEUES \<and> (virq_status (fst s) = 0 \<or> virq_status (fst s) = 1) \<and>
     (virq_status (fst s) \<noteq> 0 \<longrightarrow> irq_level VIRTIO_MMIO_IRQ 0 (snd s) = 1)"

lemma fs_inv_write: "fs_inv (d, tr) \<Longrightarrow> fs_inv (fs_write_reg w hva r v d tr)"
proof (cases r)
  case INTERRUPT_ACK
  assume i: "fs_inv (d, tr)"
  then have "virq_status d AND NOT v = 0 \<or> virq_status d AND NOT v = virq_status d"
    by (intro virq_and_not) (auto simp: fs_inv_def)
  with i INTERRUPT_ACK show ?thesis by (auto simp: fs_inv_def fs_ack_def Let_def)
next
  case STATUS
  assume "fs_inv (d, tr)"
  with STATUS show ?thesis
    by (auto simp: fs_inv_def fs_set_status_def fs_reset_def Let_def vu_setup_length vu_setup_virq irq_level_simps)
qed (auto simp: fs_inv_def upd_queue_def virtio_kick_def)

lemma fs_inv_check: "fs_inv (d, tr) \<Longrightarrow> fs_inv (check_virtio_irqs w d tr)"
  by (auto simp: fs_inv_def check_virtio_irqs_def Let_def case_prod_beta irq_level_simps)

lemma fs_inv_step: "fs_step w hva s s' \<Longrightarrow> fs_inv s \<Longrightarrow> fs_inv s'"
  by (erule fs_step_cases)
    (auto simp: virtio_mmio_write_def intro: fs_inv_write fs_inv_check split: option.splits)

lemma fs_reach_inv: "fs_reach w hva sock s \<Longrightarrow> fs_inv s"
proof (induction rule: fs_reach.induct)
  case fs_start
  show ?case by (simp add: fs_inv_def fs_set_config_def init_fs_dev_def)
next
  case (fs_next s s')
  then show ?case by (blast intro: fs_inv_step)
qed

text \<open>A sequence of 32-bit register writes, with the calls it makes.\<close>

fun fs_writes :: "os \<Rightarrow> u64 \<Rightarrow> (virtio_mmio_reg \<times> u32) list \<Rightarrow> fs_dev \<Rightarrow> log \<Rightarrow> fs_dev \<times> log" where
  "fs_writes w hva [] d tr = (d, tr)"
| "fs_writes w hva ((r, v) # ps) d tr =
     (let (d1, tr1) = virtio_mmio_write w hva (reg_offset r) (le_bytes 4 v) 4 d tr
      in fs_writes w hva ps d1 tr1)"

lemma fs_writes_Cons:
  "fs_writes w hva ((r, v) # ps) d tr =
     (let (d1, tr1) = fs_write_reg w hva r v d tr in fs_writes w hva ps d1 tr1)"
  by (simp add: virtio_mmio_write_reg mmio_val_def)

declare fs_writes.simps(2) [simp del]

lemma fs_reach_writes: "fs_reach w hva sock (d, tr) \<Longrightarrow> fs_reach w hva sock (fs_writes w hva ps d tr)"
proof (induction w hva ps d tr rule: fs_writes.induct)
  case (2 w hva r v ps d tr)
  have "fs_reach w hva sock (virtio_mmio_write w hva (reg_offset r) (le_bytes 4 v) 4 d tr)"
    by (rule fs_reach.fs_next [OF 2(2)]) (rule fs_step.guest_write)
  then show ?case
    using 2(1) by (auto simp: fs_writes.simps(2) split: prod.splits)
qed simp


definition demo_fs :: fs_dev where
  "demo_fs = fs_set_config (init_fs_dev\<lparr>vu_sock := 3\<rparr>)"

lemma demo_fs_programmed:
  "fs_writes one_os 0 [(QUEUE_SEL, 1), (QUEUE_NUM, 8), (QUEUE_READY, 1)] demo_fs [] =
     (demo_fs\<lparr>vqueue_sel := 1, vqs := [empty_vq, empty_vq\<lparr>vq_num := 8, vq_ready := 1\<rparr>]\<rparr>, [])"
  by (simp add: fs_writes_Cons upd_queue_def upd_sel_def demo_fs_def fs_set_config_def
      init_fs_dev_def NUM_QUEUES_def numeral_2_eq_2)

lemma demo_fs_activated:
  assumes "fs_write_reg one_os 0 STATUS 4
     (demo_fs\<lparr>vqueue_sel := 1, vqs := [empty_vq, empty_vq\<lparr>vq_num := 8, vq_ready := 1\<rparr>]\<rparr>) [] = (d, tr)"
  shows "virtio_active d \<and> map call_fd (vqs d) = [-1, 1] \<and> virq_status d = 0"
  using assms
  by (auto simp: fs_set_status_def vu_setup_def demo_fs_def fs_set_config_def init_fs_dev_def
      vu_setup_queue_def start_irq_thread_def one_os_def empty_vq_def Let_def)


lemma fs_writes_append:
  "fs_writes w hva (ps @ qs) d tr =
     (let (d1, tr1) = fs_writes w hva ps d tr in fs_writes w hva qs d1 tr1)"
  by (induction w hva ps d tr rule: fs_writes.induct) (auto simp: fs_writes.simps(2) split: prod.splits)

text \<open>Writes to the queue registers make no calls and never change the activation flag.\<close>

definition queue_regs :: "virtio_mmio_reg set" where
  "queue_regs = {QUEUE_SEL, QUEUE_NUM, QUEUE_READY, QUEUE_DESC_LOW, QUEUE_DESC_HIGH,
     QUEUE_DRIVER_LOW, QUEUE_DRIVER_HIGH, QUEUE_DEVICE_LOW, QUEUE_DEVICE_HIGH}"

lemma queue_regs_vq_program: "fst ` set (vq_program i num desc drv dev) \<subseteq> queue_regs"
  by (simp add: vq_program_def queue_regs_def)

lemma quiet_write:
  assumes "r \<in> queue_regs"
  shows "fs_write_reg w hva r v d tr = (fs_wr w hva tr d r v, tr)"
    and "virtio_active (fs_wr w hva tr d r v) = virtio_active d"
  using assms by (auto simp: queue_regs_def fs_wr_eq upd_queue_def)

lemma quiet_writes:
  assumes "fst ` set ps \<subseteq> queue_regs"
  shows "fs_writes w hva ps d tr = (program (fs_wr w hva tr) ps d, tr)"
    and "virtio_active (program (fs_wr w hva tr) ps d) = virtio_active d"
  using assms
  by (induction ps arbitrary: d) (auto simp: fs_writes_Cons quiet_write)

text \<open>
  A device that was active and is reset by the guest stays dead.  The reset
  forgets the eventfds of the queues but not \<open>virtio_active_\<close>, so \<open>vu_setup\<close> returns at once on the next
  DRIVER\_OK: after a reset, a complete queue set-up, DRIVER\_OK and a queue notification, the
  backend has been told nothing and nothing is signalled.
\<close>

lemma fs_reset_reinit_dead:
  assumes "virtio_active d" and "unat i < length (vqs d)"
  shows "snd (fs_writes w hva ((STATUS, 0) # vq_program i num desc drv dev @ [(STATUS, 4), (QUEUE_NOTIFY, i)]) d tr) = tr"
proof -
  let ?d0 = "fs_reset (d\<lparr>vdev_status := 0\<rparr>)"
  let ?d1 = "program (fs_wr w hva tr) (vq_program i num desc drv dev) ?d0"
  have s0: "fs_write_reg w hva STATUS 0 d tr = (?d0, tr)"
    by (simp add: fs_set_status_def Let_def)
  have act: "virtio_active ?d0" using assms(1) by (simp add: fs_reset_def)
  have d1: "fs_writes w hva (vq_program i num desc drv dev) ?d0 tr = (?d1, tr)" "virtio_active ?d1"
    using quiet_writes [OF queue_regs_vq_program] act by simp_all
  have "vqs ?d1 = upd_sel i (\<lambda>q. q\<lparr>vq_num := num, vq_ready := 1, vq_desc := desc, vq_driver := drv, vq_device := dev\<rparr>)
      (map (\<lambda>_. empty_vq) (vqs d))"
    by (simp add: fs.vq_programmed fs_reset_def)
  then have kick: "kick_fd (vqs ?d1 ! unat i) = -1"
    using assms(2) by (simp add: nth_upd_sel empty_vq_def)
  have "fs_writes w hva [(STATUS, 4), (QUEUE_NOTIFY, i)] ?d1 tr = (?d1\<lparr>vdev_status := 4\<rparr>, tr)"
    using d1(2) kick by (simp add: fs_writes_Cons fs_set_status_def virtio_kick_def Let_def)
  with d1(1) s0 show ?thesis by (simp add: fs_writes_append fs_writes_Cons del: fs_write_reg.simps)
qed

lemma fs_reset_reinit_dead_witness:
  "snd (fs_writes one_os 0 ((STATUS, 0) # vq_program 1 8 0x1000 0x2000 0x3000 @ [(STATUS, 4), (QUEUE_NOTIFY, 1)])
     (init_fs_dev\<lparr>virtio_active := True, vu_sock := 3\<rparr>) []) = []"
  by (rule fs_reset_reinit_dead) (simp_all add: init_fs_dev_def NUM_QUEUES_def)

subsection \<open>Reads\<close>

text \<open>
  Which register reads of virtio-fs are defined.  A read touches only device
  state except when it starts inside the 40-byte configuration struct and runs past its
  end: exactly those reads copy bytes beyond \<open>fs_config_\<close>.
\<close>

lemma fs_read_defined:
  assumes "length (tag (fs_config d)) = 36"
  shows "virtio_mmio_read off bs len d = None \<longleftrightarrow>
    reg_offset CONFIG \<le> off \<and> off < reg_offset CONFIG + 40 \<and> reg_offset CONFIG + 40 < off + min len 4"
proof -
  have len40: "length (fs_config_bytes (fs_config d)) = 40" by (simp add: fs_config_bytes_def assms)
  show ?thesis
  proof (cases "reg_at off")
    case None
    then show ?thesis
      by (auto simp: virtio_mmio_read_def fs_read_val_def config_val_def Let_def len40)
  next
    case (Some r)
    then have "off = reg_offset r" by (simp add: reg_at_Some)
    with Some show ?thesis
      by (cases r) (auto simp: virtio_mmio_read_def fs_read_val_def config_val_def Let_def len40 reg_offset.simps)
  qed
qed

lemma fs_read_defined_witness:
  "virtio_mmio_read (reg_offset CONFIG + 39) (replicate 8 0) 4 (fs_set_config init_fs_dev) = None \<and>
   virtio_mmio_read (reg_offset CONFIG + 36) (replicate 8 0) 4 (fs_set_config init_fs_dev) \<noteq> None"
proof -
  have "length (tag (fs_config (fs_set_config init_fs_dev))) = 36"
    by (simp add: fs_set_config_def myfs_tag_def)
  from fs_read_defined [OF this] show ?thesis by simp
qed

end
