(* ===== verification/Uart.thy ===== *)
theory Uart
  imports Host_Os
begin

text \<open>
  The 16550 serial port of \<^verbatim>\<open>src/vmm.cpp\<close> (\<open>serial_in\<close>, \<open>serial_out\<close>): the guest console, the
  line buffer behind it, the transmit interrupt, and the measurement of the time to the
  entrypoint that is triggered by a line of console output.
\<close>

section \<open>State\<close>

text \<open>A \<^verbatim>\<open>timespec\<close> is a pair of seconds and nanoseconds.\<close>

type_synonym timespec = "int \<times> int"

record uart =
  uart_ier :: u8
  uart_lcr :: u8
  uart_mcr :: u8
  uart_lsr :: u8
  uart_msr :: u8
  uart_scr :: u8
  uart_dll :: u8
  uart_dlh :: u8
  uart_fcr :: u8
  t_cmd_start :: timespec
  t_vcpu_start :: timespec
  timing_entrypoint :: bool
  entrypoint_measured :: bool
  serial_line_buf :: "u8 list"
  time_to_entrypoint_us :: int

definition init_uart :: uart where
  "init_uart = \<lparr>uart_ier = 0, uart_lcr = 3, uart_mcr = 0, uart_lsr = 0x60, uart_msr = 0xb0,
     uart_scr = 0, uart_dll = 1, uart_dlh = 0, uart_fcr = 0, t_cmd_start = (0, 0),
     t_vcpu_start = (0, 0), timing_entrypoint = False, entrypoint_measured = False,
     serial_line_buf = [], time_to_entrypoint_us = 0\<rparr>"

definition set_cmd_start :: "timespec \<Rightarrow> uart \<Rightarrow> uart" where
  "set_cmd_start ts u = u\<lparr>t_cmd_start := ts, timing_entrypoint := True\<rparr>"

definition set_vcpu_start :: "timespec \<Rightarrow> uart \<Rightarrow> uart" where
  "set_vcpu_start ts u = u\<lparr>t_vcpu_start := ts\<rparr>"

section \<open>Operations\<close>

definition dlab :: "uart \<Rightarrow> bool" where
  "dlab u \<longleftrightarrow> uart_lcr u AND 0x80 \<noteq> 0"

definition serial_in :: "u16 \<Rightarrow> uart \<Rightarrow> u8" where
  "serial_in port u =
     (if port = 0x3f8 then (if dlab u then uart_dll u else 0)
      else if port = 0x3f9 then (if dlab u then uart_dlh u else uart_ier u)
      else if port = 0x3fa then (if uart_ier u AND 2 \<noteq> 0 then 2 else 1)
      else if port = 0x3fb then uart_lcr u
      else if port = 0x3fc then uart_mcr u
      else if port = 0x3fd then uart_lsr u
      else if port = 0x3fe then uart_msr u
      else if port = 0x3ff then uart_scr u
      else 0)"

text \<open>\<^verbatim>\<open>c_str()\<close> as \<^verbatim>\<open>printf\<close> sees it, \<^verbatim>\<open>rfind(s, 0) == 0\<close> and \<^verbatim>\<open>find\<close>.\<close>

definition c_str :: "u8 list \<Rightarrow> u8 list" where
  "c_str s = takeWhile (\<lambda>b. b \<noteq> 0) s"

definition starts_with :: "u8 list \<Rightarrow> u8 list \<Rightarrow> bool" where
  "starts_with p s \<longleftrightarrow> take (length p) s = p"

fun contains :: "u8 list \<Rightarrow> u8 list \<Rightarrow> bool" where
  "contains p [] = (p = [])"
| "contains p (b # s) = (starts_with p (b # s) \<or> contains p s)"

definition us_diff :: "timespec \<Rightarrow> timespec \<Rightarrow> int" where
  "us_diff a b = (fst b - fst a) * 1000000 + c_div (snd b - snd a) 1000"

definition serial_print_line :: "uart \<Rightarrow> log \<Rightarrow> log" where
  "serial_print_line u tr =
     (if timing_entrypoint u \<and> starts_with (bytes ''VMTAINER:'') (serial_line_buf u)
      then tr @ (if fst (t_cmd_start u) = 0 then [] else [Clock_gettime]) @ [Print_stamped (c_str (serial_line_buf u))]
      else tr @ [Print_line (c_str (serial_line_buf u))])"

definition serial_measure :: "os \<Rightarrow> uart \<Rightarrow> log \<Rightarrow> uart \<times> log" where
  "serial_measure w u tr =
     (if timing_entrypoint u \<and> \<not> entrypoint_measured u \<and>
         contains (bytes ''VMTAINER: running entrypoint'') (serial_line_buf u)
      then (let now = os_pair w tr Clock_gettime;
                us_total = us_diff (t_cmd_start u) now;
                us_guest = us_diff (t_vcpu_start u) now;
                us_vmm = (if us_total > us_guest then us_total - us_guest else 0)
            in (u\<lparr>entrypoint_measured := True, time_to_entrypoint_us := us_total\<rparr>,
                tr @ [Clock_gettime, Print_timing us_total us_vmm us_guest]))
      else (u, tr))"

text \<open>\<^verbatim>\<open>serial_line_buf_.size() < 1024\<close>\<close>

definition SERIAL_LINE_MAX :: nat where "SERIAL_LINE_MAX = 1024"

definition serial_putc :: "os \<Rightarrow> u8 \<Rightarrow> uart \<Rightarrow> log \<Rightarrow> uart \<times> log" where
  "serial_putc w b u tr =
     (if b = 10
      then (let (u1, tr1) = serial_measure w u (serial_print_line u tr)
            in (u1\<lparr>serial_line_buf := []\<rparr>, tr1))
      else if length (serial_line_buf u) < SERIAL_LINE_MAX
      then (u\<lparr>serial_line_buf := serial_line_buf u @ [b]\<rparr>, tr)
      else (u, tr))"

definition serial_out :: "os \<Rightarrow> u16 \<Rightarrow> u8 \<Rightarrow> uart \<Rightarrow> log \<Rightarrow> uart \<times> log" where
  "serial_out w port b u tr =
     (if port = 0x3f8 then
        (if dlab u then (u\<lparr>uart_dll := b\<rparr>, tr)
         else (let (u1, tr1) = serial_putc w b u tr in (u1, tr1 @ [Irq_line 4 1, Irq_line 4 0])))
      else if port = 0x3f9 then
        (if dlab u then (u\<lparr>uart_dlh := b\<rparr>, tr) else (u\<lparr>uart_ier := b\<rparr>, tr))
      else if port = 0x3fa then (u\<lparr>uart_fcr := b\<rparr>, tr)
      else if port = 0x3fb then (u\<lparr>uart_lcr := b\<rparr>, tr)
      else if port = 0x3fc then (u\<lparr>uart_mcr := b\<rparr>, tr)
      else if port = 0x3ff then (u\<lparr>uart_scr := b\<rparr>, tr)
      else (u, tr))"

text \<open>The loop of the run loop over the bytes of a string output instruction.\<close>

fun serial_outs :: "os \<Rightarrow> u16 \<Rightarrow> u8 list \<Rightarrow> uart \<Rightarrow> log \<Rightarrow> uart \<times> log" where
  "serial_outs w port [] u tr = (u, tr)"
| "serial_outs w port (b # bs) u tr =
     (let (u1, tr1) = serial_out w port b u tr in serial_outs w port bs u1 tr1)"

section \<open>What the console shows\<close>

text \<open>The lines shown on the host's standard output, stamped or not, and the number of timing reports.\<close>

fun shown :: "log \<Rightarrow> u8 list list" where
  "shown [] = []"
| "shown (Print_line l # cs) = l # shown cs"
| "shown (Print_stamped l # cs) = l # shown cs"
| "shown (c # cs) = shown cs"

fun timing_reports :: "log \<Rightarrow> nat" where
  "timing_reports [] = 0"
| "timing_reports (Print_timing a b c # cs) = Suc (timing_reports cs)"
| "timing_reports (c # cs) = timing_reports cs"

lemma shown_append [simp]: "shown (xs @ ys) = shown xs @ shown ys"
  by (induction xs rule: shown.induct) auto

lemma timing_reports_append [simp]: "timing_reports (xs @ ys) = timing_reports xs + timing_reports ys"
  by (induction xs rule: timing_reports.induct) auto

abbreviation marker :: "u8 list" where
  "marker \<equiv> bytes ''VMTAINER: running entrypoint''"

lemma serial_outs_append:
  "serial_outs w port (xs @ ys) u tr =
     (let (u1, tr1) = serial_outs w port xs u tr in serial_outs w port ys u1 tr1)"
  by (induction xs arbitrary: u tr) (simp_all add: Let_def case_prod_beta)

lemma serial_measure_effect:
  "shown (snd (serial_measure w u tr)) = shown tr"
  "irq_level irq l (snd (serial_measure w u tr)) = irq_level irq l tr"
  "timing_reports (snd (serial_measure w u tr)) = timing_reports tr +
     of_bool (timing_entrypoint u \<and> \<not> entrypoint_measured u \<and> contains marker (serial_line_buf u))"
  "entrypoint_measured (fst (serial_measure w u tr)) \<longleftrightarrow>
     entrypoint_measured u \<or> timing_entrypoint u \<and> contains marker (serial_line_buf u)"
  "timing_entrypoint (fst (serial_measure w u tr)) = timing_entrypoint u"
  "dlab (fst (serial_measure w u tr)) = dlab u"
  "length (serial_line_buf (fst (serial_measure w u tr))) = length (serial_line_buf u)"
  by (auto simp: serial_measure_def dlab_def Let_def)

lemma serial_print_line_effect:
  "shown (serial_print_line u tr) = shown tr @ [c_str (serial_line_buf u)]"
  "irq_level irq l (serial_print_line u tr) = irq_level irq l tr"
  "timing_reports (serial_print_line u tr) = timing_reports tr"
  by (simp_all add: serial_print_line_def)

lemmas serial_effects = serial_measure_effect serial_print_line_effect

text \<open>Characters of a line accumulate up to the buffer's 1024 bytes.\<close>

lemma serial_outs_chars:
  assumes "\<not> dlab u" "10 \<notin> set bs" "length (serial_line_buf u) \<le> SERIAL_LINE_MAX"
  shows "\<exists>tr'. serial_outs w 0x3f8 bs u tr = (u\<lparr>serial_line_buf := take SERIAL_LINE_MAX (serial_line_buf u @ bs)\<rparr>, tr @ tr') \<and>
    shown tr' = [] \<and> timing_reports tr' = 0 \<and> (bs \<noteq> [] \<longrightarrow> (\<forall>l. irq_level 4 l tr' = 0)) \<and> (bs = [] \<longrightarrow> tr' = [])"
  using assms
proof (induction bs arbitrary: u tr)
  case Nil
  then show ?case by simp
next
  case (Cons b bs)
  let ?u = "u\<lparr>serial_line_buf := take SERIAL_LINE_MAX (serial_line_buf u @ [b])\<rparr>"
  have one: "serial_out w 0x3f8 b u tr = (?u, tr @ [Irq_line 4 1, Irq_line 4 0])"
    using Cons.prems by (auto simp: serial_out_def serial_putc_def)
  have "\<not> dlab ?u" "length (serial_line_buf ?u) \<le> SERIAL_LINE_MAX" "10 \<notin> set bs"
    using Cons.prems by (auto simp: dlab_def)
  from Cons.IH [OF this(1) this(3) this(2), of "tr @ [Irq_line 4 1, Irq_line 4 0]"]
  obtain tr' where tr': "serial_outs w 0x3f8 bs ?u (tr @ [Irq_line 4 1, Irq_line 4 0]) =
      (?u\<lparr>serial_line_buf := take SERIAL_LINE_MAX (serial_line_buf ?u @ bs)\<rparr>, (tr @ [Irq_line 4 1, Irq_line 4 0]) @ tr')"
    "shown tr' = []" "timing_reports tr' = 0" "bs \<noteq> [] \<longrightarrow> (\<forall>l. irq_level 4 l tr' = 0)" "bs = [] \<longrightarrow> tr' = []"
    by blast
  have buf: "take SERIAL_LINE_MAX (take SERIAL_LINE_MAX (serial_line_buf u @ [b]) @ bs) = take SERIAL_LINE_MAX (serial_line_buf u @ b # bs)"
    using take_take_append [of SERIAL_LINE_MAX "serial_line_buf u @ [b]" bs] by simp
  have "serial_outs w 0x3f8 (b # bs) u tr =
      (u\<lparr>serial_line_buf := take SERIAL_LINE_MAX (serial_line_buf u @ b # bs)\<rparr>, tr @ ([Irq_line 4 1, Irq_line 4 0] @ tr'))"
    unfolding buf [symmetric] serial_outs.simps one Let_def prod.case tr'(1) by simp
  moreover have "irq_level 4 l ([Irq_line 4 1, Irq_line 4 0] @ tr') = 0" for l
    using tr'(4,5) by (cases "bs = []") simp_all
  ultimately show ?case
    using tr'(2,3) by (intro exI [of _ "[Irq_line 4 1, Irq_line 4 0] @ tr'"]) simp
qed

text \<open>A whole line with its newline, from an empty buffer.\<close>

lemma serial_outs_line:
  assumes u: "\<not> dlab u" "serial_line_buf u = []" and l: "10 \<notin> set l"
    and out: "serial_outs w 0x3f8 (l @ [10]) u tr = (u', tr')"
  shows "\<not> dlab u'" "serial_line_buf u' = []" "timing_entrypoint u' = timing_entrypoint u"
    "shown tr' = shown tr @ [c_str (take SERIAL_LINE_MAX l)]" "irq_level 4 0 tr' = 0"
    "entrypoint_measured u' \<longleftrightarrow> entrypoint_measured u \<or> timing_entrypoint u \<and> contains marker (take SERIAL_LINE_MAX l)"
    "timing_reports tr' = timing_reports tr +
       of_bool (timing_entrypoint u \<and> \<not> entrypoint_measured u \<and> contains marker (take SERIAL_LINE_MAX l))"
proof -
  let ?u = "u\<lparr>serial_line_buf := take SERIAL_LINE_MAX l\<rparr>"
  obtain tr1 where tr1: "serial_outs w 0x3f8 l u tr = (?u, tr @ tr1)" "shown tr1 = []" "timing_reports tr1 = 0"
    using serial_outs_chars [of u l w tr] u l by auto
  let ?m = "serial_measure w ?u (serial_print_line ?u (tr @ tr1))"
  have "\<not> dlab ?u" using u by (simp add: dlab_def)
  then have "(u', tr') = ((fst ?m)\<lparr>serial_line_buf := []\<rparr>, snd ?m @ [Irq_line 4 1, Irq_line 4 0])"
    using out tr1 by (simp add: serial_outs_append serial_out_def serial_putc_def Let_def case_prod_beta)
  then have e: "u' = (fst ?m)\<lparr>serial_line_buf := []\<rparr>" "tr' = snd ?m @ [Irq_line 4 1, Irq_line 4 0]"
    by simp_all
  have d: "dlab (x\<lparr>serial_line_buf := y\<rparr>) = dlab x" for x y by (simp add: dlab_def)
  show "\<not> dlab u'" "serial_line_buf u' = []" "timing_entrypoint u' = timing_entrypoint u"
    "shown tr' = shown tr @ [c_str (take SERIAL_LINE_MAX l)]" "irq_level 4 0 tr' = 0"
    "entrypoint_measured u' \<longleftrightarrow> entrypoint_measured u \<or> timing_entrypoint u \<and> contains marker (take SERIAL_LINE_MAX l)"
    "timing_reports tr' = timing_reports tr +
       of_bool (timing_entrypoint u \<and> \<not> entrypoint_measured u \<and> contains marker (take SERIAL_LINE_MAX l))"
    using u tr1 by (simp_all add: e d serial_effects)
qed



text \<open>
  The time to the entrypoint is reported exactly once.  With timing enabled and
  nothing measured yet, a console output of complete lines produces one timing report if
  some line carries the entrypoint marker in its first 1024 bytes, however many such lines
  there are, and none otherwise; the measured flag says which.
\<close>

lemma serial_entrypoint_reported_once:
  assumes "\<not> dlab u" "serial_line_buf u = []" "\<forall>l \<in> set ls. 10 \<notin> set l"
    and "timing_entrypoint u"
    and "serial_outs w 0x3f8 (concat (map (\<lambda>l. l @ [10]) ls)) u tr = (u', tr')"
  shows "entrypoint_measured u' = (entrypoint_measured u \<or> (\<exists>l \<in> set ls. contains marker (take SERIAL_LINE_MAX l))) \<and>
    timing_reports tr' = timing_reports tr +
      of_bool (\<not> entrypoint_measured u \<and> (\<exists>l \<in> set ls. contains marker (take SERIAL_LINE_MAX l)))"
  using assms
proof (induction ls arbitrary: u tr)
  case (Cons l ls)
  obtain u1 tr1 where o1: "serial_outs w 0x3f8 (l @ [10]) u tr = (u1, tr1)" by fastforce
  have l: "10 \<notin> set l" using Cons.prems by simp
  note e = serial_outs_line [OF Cons.prems(1,2) l o1]
  have "serial_outs w 0x3f8 (concat (map (\<lambda>l. l @ [10]) ls)) u1 tr1 = (u', tr')"
    using Cons.prems(5) serial_outs_append [of w "0x3f8" "l @ [10]" "concat (map (\<lambda>l. l @ [10]) ls)" u tr] o1
    by simp
  from Cons.IH [OF e(1,2) _ _ this] Cons.prems(3,4) e(3,6,7) show ?case by auto
qed simp

lemma serial_entrypoint_reported_once_witness:
  "\<exists>u' tr'. serial_outs one_os 0x3f8 (marker @ [10] @ marker @ [10]) (set_cmd_start (1, 0) init_uart) [] = (u', tr') \<and>
     timing_reports tr' = 1"
proof -
  let ?u = "set_cmd_start (1, 0) init_uart"
  obtain u' tr' where r: "serial_outs one_os 0x3f8 (concat (map (\<lambda>l. l @ [10]) [marker, marker])) ?u [] = (u', tr')"
    by fastforce
  have "\<not> dlab ?u" "serial_line_buf ?u = []" "timing_entrypoint ?u" "\<not> entrypoint_measured ?u"
    by (simp_all add: dlab_def init_uart_def set_cmd_start_def)
  moreover have "10 \<notin> set marker" by (simp add: bytes_def)
  moreover have "contains marker (take SERIAL_LINE_MAX marker)" by (simp add: bytes_def starts_with_def SERIAL_LINE_MAX_def)
  ultimately have "timing_reports tr' = 1"
    using serial_entrypoint_reported_once [of ?u "[marker, marker]", OF _ _ _ _ r] by simp
  with r show ?thesis by simp
qed

end
