(* ===== verification/Snapshot.thy ===== *)
theory Snapshot
  imports Uffd Virtio_Fs Virtio_Net Uart
begin

text \<open>
  Saving and restoring a virtual machine: \<open>save_snapshot\<close>, \<open>restore_snapshot\<close>,
  \<open>save_snapshot_file\<close> and \<open>restore_snapshot_file\<close> of \<^verbatim>\<open>src/vmm.cpp\<close>.  The members of class \<open>Vmm\<close>
  that these operations read and write are the record \<open>vmm\<close>.
\<close>

section \<open>The machine\<close>

record vmm =
  ram :: guest_ram
  ram_mb :: nat
  fs :: fs_dev
  net :: net_dev
  serial :: uart
  ufd :: uffd_state
  vm_cpuid :: "u8 list"
  cpuid_nent :: u32
  msr_list :: "u32 list"
  copy_threads :: int
  ignore_next_signal :: bool
  cmdline :: string
  snap_fd :: int
  snap_mmap_sz :: nat

definition set_copy_threads :: "int \<Rightarrow> vmm \<Rightarrow> vmm" where
  "set_copy_threads n v = v\<lparr>copy_threads := (if 0 < n then n else 1)\<rparr>"

section \<open>Saving\<close>

text \<open>
  A KVM query fills a struct of \<open>n\<close> bytes that was cleared before.  The queries are made in
  order; the first that fails ends the save.
\<close>

fun kvm_gets :: "os \<Rightarrow> (kvm_item \<times> nat) list \<Rightarrow> log \<Rightarrow> u8 list list option \<times> log" where
  "kvm_gets w [] tr = (Some [], tr)"
| "kvm_gets w ((k, n) # ks) tr =
     (if os_ret w tr (Kvm_get k) < 0 then (None, tr @ [Kvm_get k])
      else (let (r, tr1) = kvm_gets w ks (tr @ [Kvm_get k])
            in (map_option (\<lambda>bs. fixed n (os_data w tr (Kvm_get k)) # bs) r, tr1)))"

definition hdr_items :: "(kvm_item \<times> nat) list" where
  "hdr_items = [(K_regs, 144), (K_sregs, 312), (K_lapic, 1024), (K_events, 64), (K_xcrs, 392), (K_mp_state, 4),
     (K_debugregs, 128), (K_clock, 48), (K_pit, 112), (K_pic_master, 520), (K_pic_slave, 520), (K_ioapic, 520)]"

definition save_vq :: "virtqueue \<Rightarrow> vq_state" where
  "save_vq q = \<lparr>vs_num = vq_num q, vs_ready = vq_ready q, vs_desc = vq_desc q, vs_driver = vq_driver q, vs_device = vq_device q\<rparr>"

definition make_header :: "vmm \<Rightarrow> u8 list list \<Rightarrow> int \<Rightarrow> snapshot_header" where
  "make_header v b tsc =
     \<lparr>h_magic = SNAP_MAGIC, h_version = SNAP_VERSION, h_ram_mb = of_nat (ram_mb v),
      h_regs = b ! 0, h_sregs = b ! 1, h_lapic = b ! 2, h_events = b ! 3, h_xcrs = b ! 4, h_mp_state = b ! 5,
      h_debugregs = b ! 6, h_clock = b ! 7, h_pit = b ! 8, h_pic_master = b ! 9, h_pic_slave = b ! 10, h_ioapic = b ! 11,
      h_tsc_khz = (if 0 < tsc then word_of_int tsc else 0),
      h_cpuid_nent = cpuid_nent v, h_num_msrs = of_nat (length (msr_list v)), h_xsave_size = of_nat XSAVE_SIZE,
      h_vdev_status = vdev_status (fs v), h_vdrv_features_lo = lo32 (vdrv_features (fs v)),
      h_vdrv_features_hi = hi32 (vdrv_features (fs v)), h_num_vqs = of_nat NUM_QUEUES,
      h_vq_state = map save_vq (vqs (fs v)),
      h_net_status = net_status (net v), h_net_drv_features_lo = lo32 (net_drv_features (net v)),
      h_net_drv_features_hi = hi32 (net_drv_features (net v)), h_net_num_vqs = of_nat NET_NUM_QUEUES,
      h_net_vq_state = map save_vq (net_vqs (net v)),
      h_net_mac = mac (net_config (net v)), h_net_pad = [0, 0], h_bitmap_bytes = 0, h_bitmap_pad = 0\<rparr>"

text \<open>\<open>KVM_GET_XSAVE2\<close> with the fall-back to \<open>KVM_GET_XSAVE\<close>, into the cleared 8192-byte buffer.\<close>

definition get_xsave :: "os \<Rightarrow> log \<Rightarrow> u8 list option \<times> log" where
  "get_xsave w tr =
     (if 0 \<le> os_ret w tr (Kvm_get K_xsave2)
      then (Some (fixed XSAVE_SIZE (os_data w tr (Kvm_get K_xsave2))), tr @ [Kvm_get K_xsave2])
      else (let tr1 = tr @ [Kvm_get K_xsave2]
            in if os_ret w tr1 (Kvm_get K_xsave) < 0 then (None, tr1 @ [Kvm_get K_xsave])
               else (Some (fixed XSAVE_SIZE (os_data w tr1 (Kvm_get K_xsave))), tr1 @ [Kvm_get K_xsave])))"

text \<open>The MSR indices are filled in before the call; the answer holds an entry per index.\<close>

definition msr_request :: "u32 list \<Rightarrow> u8 list" where
  "msr_request idx = concat (map (\<lambda>i. le_bytes 4 i @ replicate 12 0) idx)"

definition get_msrs :: "os \<Rightarrow> u32 list \<Rightarrow> log \<Rightarrow> u8 list \<times> log" where
  "get_msrs w idx tr =
     (let c = Kvm_get K_msrs; n = length idx * MSR_ENTRY; d = os_data w tr c
      in (take n (d @ drop (length d) (msr_request idx)), tr @ [c]))"

definition save_snapshot :: "os \<Rightarrow> vmm \<Rightarrow> log \<Rightarrow> snapshot option \<times> log" where
  "save_snapshot w v tr =
     (case kvm_gets w hdr_items tr of
        (None, tr1) \<Rightarrow> (None, tr1)
      | (Some b, tr1) \<Rightarrow>
          (let tsc = os_ret w tr1 (Kvm_get K_tsc_khz);
               h = make_header v b tsc
           in case get_xsave w (tr1 @ [Kvm_get K_tsc_khz]) of
                (None, tr2) \<Rightarrow> (None, tr2)
              | (Some xs, tr2) \<Rightarrow>
                  (let (ms, tr3) = get_msrs w (msr_list v) tr2; c = Mmap_anon (ram_bytes (ram v))
                   in if os_ret w tr3 c < 0 then (None, tr3 @ [c])
                      else (Some \<lparr>hdr = h, xsave = xs, cpuid = take (unat (cpuid_nent v) * CPUID_ENTRY) (vm_cpuid v),
                                  msrs = ms, snap_ram = ram_peek (ram v) 0 (ram_bytes (ram v)), dirty_bitmap = []\<rparr>,
                            tr3 @ [c]))))"

section \<open>Restoring\<close>

definition ram_of_list :: "u8 list \<Rightarrow> guest_ram" where
  "ram_of_list bs = \<lparr>ram_bytes = length bs, ram_mem = (\<lambda>i. if i < length bs then bs ! i else 0)\<rparr>"

text \<open>The eager engines, followed by the registration of the rest in midway mode.\<close>

definition restore_ram_eager :: "nat list \<Rightarrow> os \<Rightarrow> snapshot \<Rightarrow> vmm \<Rightarrow> log \<Rightarrow> (vmm \<times> log) option" where
  "restore_ram_eager sched w snap v tr =
     (let src = ram_of_list (snap_ram snap)
      in case (if dirty_bitmap snap \<noteq> [] then bitmap_copy sched (copy_threads v) (dirty_bitmap snap) src (ram v)
               else scan_copy src 0 (ram v)) of
           None \<Rightarrow> None
         | Some r \<Rightarrow>
             (if midway_uffd (ufd v)
              then (case init_uffd w (ufd v) tr of
                      (ok, u, tr1) \<Rightarrow>
                        (if ok then (let (u1, tr2) = start_uffd_thread u tr1 in Some (v\<lparr>ram := r, ufd := u1\<rparr>, tr2))
                         else Some (v\<lparr>ram := r, ufd := u\<rparr>, tr1)))
              else Some (v\<lparr>ram := r\<rparr>, tr)))"

definition restore_ram_uffd :: "snapshot \<Rightarrow> vmm \<Rightarrow> log \<Rightarrow> (vmm \<times> log) option" where
  "restore_ram_uffd snap v tr =
     (let n = ram_bytes (ram v); u = ufd v;
          u1 = (if uffd_ram u = None
                then u\<lparr>uffd_ram := Some (snap_ram snap), snap_bitmap_buf := dirty_bitmap snap, snap_total_pages := n div PAGE\<rparr>
                else u)
      in case prefault_rings n u1 (hdr snap) tr of
           None \<Rightarrow> None
         | Some tr1 \<Rightarrow> (let (u2, tr2) = start_uffd_thread u1 tr1 in Some (v\<lparr>ufd := u2\<rparr>, tr2)))"

definition restore_ram :: "nat list \<Rightarrow> os \<Rightarrow> snapshot \<Rightarrow> vmm \<Rightarrow> log \<Rightarrow> (vmm \<times> log) option" where
  "restore_ram sched w snap v tr =
     (if use_uffd (ufd v) \<and> \<not> midway_uffd (ufd v) \<and> 0 \<le> uffd (ufd v)
      then restore_ram_uffd snap v tr else restore_ram_eager sched w snap v tr)"

text \<open>
  The KVM state, in the order the code writes it.  The flag says whether a failure of the call
  ends the restore; the TSC frequency and the MSRs are written without looking at the result.
\<close>

definition kvm_sets_cpu :: "snapshot \<Rightarrow> (bool \<times> kvm_item \<times> u8 list) list" where
  "kvm_sets_cpu s =
     (let h = hdr s; n = unat (h_cpuid_nent h) * CPUID_ENTRY
      in (if 0 < h_tsc_khz h then [(False, K_tsc_khz, le_bytes 4 (h_tsc_khz h))] else []) @
         [(True, K_cpuid, le_bytes 4 (h_cpuid_nent h) @ replicate 4 0 @ take n (cpuid s)),
          (True, K_mp_state, h_mp_state h), (True, K_sregs, h_sregs h), (True, K_regs, h_regs h),
          (True, K_xcrs, h_xcrs h), (True, K_xsave, xsave s), (True, K_debugregs, h_debugregs h),
          (True, K_lapic, h_lapic h), (True, K_events, h_events h)])"

definition kvm_sets_vm :: "snapshot \<Rightarrow> (bool \<times> kvm_item \<times> u8 list) list" where
  "kvm_sets_vm s =
     (let h = hdr s; m = unat (h_num_msrs h) * MSR_ENTRY
      in [(False, K_msrs, le_bytes 4 (h_num_msrs h) @ replicate 4 0 @ take m (msrs s)),
          (True, K_pic_master, h_pic_master h), (True, K_pic_slave, h_pic_slave h), (True, K_ioapic, h_ioapic h),
          (True, K_clock, h_clock h), (True, K_pit, h_pit h)])"

fun kvm_apply :: "os \<Rightarrow> (bool \<times> kvm_item \<times> u8 list) list \<Rightarrow> log \<Rightarrow> bool \<times> log" where
  "kvm_apply w [] tr = (True, tr)"
| "kvm_apply w ((must, k, bs) # ks) tr =
     (if must \<and> os_ret w tr (Kvm_set k bs) < 0 then (False, tr @ [Kvm_set k bs])
      else kvm_apply w ks (tr @ [Kvm_set k bs]))"

definition load_vq :: "vq_state \<Rightarrow> virtqueue \<Rightarrow> virtqueue" where
  "load_vq s q = q\<lparr>vq_num := vs_num s, vq_ready := vs_ready s, vq_desc := vs_desc s, vq_driver := vs_driver s, vq_device := vs_device s\<rparr>"

text \<open>\<^verbatim>\<open>for (i = 0; i < NUM_QUEUES && i < h.num_vqs; i++)\<close>\<close>

definition load_vqs :: "nat \<Rightarrow> vq_state list \<Rightarrow> virtqueue list \<Rightarrow> virtqueue list" where
  "load_vqs n ss qs = map2 load_vq (take n ss) (take n qs) @ drop n qs"

definition restore_devices :: "os \<Rightarrow> u64 \<Rightarrow> snapshot_header \<Rightarrow> vmm \<Rightarrow> log \<Rightarrow> vmm \<times> log" where
  "restore_devices w hva h v tr =
     (let d1 = (fs v)\<lparr>vdev_status := h_vdev_status h,
                      vdrv_features := join32 (h_vdrv_features_lo h) (h_vdrv_features_hi h),
                      vqs := load_vqs (min NUM_QUEUES (unat (h_num_vqs h))) (h_vq_state h) (vqs (fs v))\<rparr>;
          n1 = (net v)\<lparr>net_status := h_net_status h,
                       net_drv_features := join32 (h_net_drv_features_lo h) (h_net_drv_features_hi h),
                       net_vqs := load_vqs (min NET_NUM_QUEUES (unat (h_net_num_vqs h))) (h_net_vq_state h) (net_vqs (net v))\<rparr>;
          (d2, tr1) = (if 0 \<le> vu_sock d1 \<and> vdev_status d1 AND 4 \<noteq> 0
                       then vu_setup w hva (d1\<lparr>virtio_active := False\<rparr>) tr else (d1, tr));
          (n2, tr2) = (if 0 \<le> tap_fd n1 \<and> net_status n1 AND 4 \<noteq> 0
                       then vhost_net_setup w (n1\<lparr>net_active := True\<rparr>) tr1 else (n1, tr1))
      in (v\<lparr>fs := d2, net := n2,
            serial := (serial v)\<lparr>uart_ier := 0x0f, uart_lsr := 0x60, uart_lcr := 0x03, uart_mcr := 0x0b\<rparr>\<rparr>, tr2))"

definition bad_snapshot :: "snapshot_header \<Rightarrow> vmm \<Rightarrow> bool" where
  "bad_snapshot h v \<longleftrightarrow> h_magic h \<noteq> SNAP_MAGIC \<or> h_version h \<noteq> SNAP_VERSION \<or> unat (h_ram_mb h) \<noteq> ram_mb v"

text \<open>
  \<open>snap.cpuid.data()\<close> and \<open>snap.msrs.data()\<close> are read for as many entries as the header says; a vector
  that is shorter is read past its end.
\<close>

definition restore_kvm :: "os \<Rightarrow> u64 \<Rightarrow> snapshot \<Rightarrow> vmm \<Rightarrow> log \<Rightarrow> (bool \<times> vmm \<times> log) option" where
  "restore_kvm w hva snap v tr =
     (let h = hdr snap
      in if length (cpuid snap) < unat (h_cpuid_nent h) * CPUID_ENTRY then None
         else (let v1 = v\<lparr>vm_cpuid := take (unat (h_cpuid_nent h) * CPUID_ENTRY) (cpuid snap), cpuid_nent := h_cpuid_nent h\<rparr>;
                   (ok, tr1) = kvm_apply w (kvm_sets_cpu snap) tr
               in if \<not> ok then Some (False, v1, tr1)
                  else if length (msrs snap) < unat (h_num_msrs h) * MSR_ENTRY then None
                  else (let (ok, tr2) = kvm_apply w (kvm_sets_vm snap) tr1
                        in if \<not> ok then Some (False, v1, tr2)
                           else (let (v2, tr3) = restore_devices w hva h v1 tr2
                                 in Some (True, v2\<lparr>ignore_next_signal := True\<rparr>, tr3)))))"

definition restore_snapshot :: "nat list \<Rightarrow> os \<Rightarrow> u64 \<Rightarrow> snapshot \<Rightarrow> vmm \<Rightarrow> log \<Rightarrow> (bool \<times> vmm \<times> log) option" where
  "restore_snapshot sched w hva snap v tr =
     (if bad_snapshot (hdr snap) v then Some (False, v, tr)
      else (case restore_ram sched w snap v tr of
              None \<Rightarrow> None
            | Some (v1, tr1) \<Rightarrow> restore_kvm w hva snap v1 tr1))"

section \<open>Files\<close>

text \<open>
  The results of the first five writes are not looked at; the RAM is written in a loop that ends
  with an error or with everything written.
\<close>

partial_function (option) write_ram :: "os \<Rightarrow> int \<Rightarrow> nat \<Rightarrow> u8 list \<Rightarrow> log \<Rightarrow> (bool \<times> log) option" where
  "write_ram w fd off bs tr =
     (if off < length bs
      then (let c = File_write fd (drop off bs); n = os_ret w tr c
            in if n < 0 then Some (False, tr @ [c]) else write_ram w fd (off + nat n) bs (tr @ [c]))
      else Some (True, tr))"

definition with_bitmap :: "guest_ram \<Rightarrow> snapshot \<Rightarrow> snapshot" where
  "with_bitmap r s =
     (let bm = fst (build_bitmap r)
      in s\<lparr>hdr := (hdr s)\<lparr>h_bitmap_bytes := of_nat (length bm)\<rparr>, dirty_bitmap := bm\<rparr>)"

definition save_snapshot_file :: "os \<Rightarrow> string \<Rightarrow> vmm \<Rightarrow> log \<Rightarrow> (bool \<times> log) option" where
  "save_snapshot_file w path v tr =
     (case save_snapshot w v tr of
        (None, tr1) \<Rightarrow> Some (False, tr1)
      | (Some s, tr1) \<Rightarrow>
          (let s1 = with_bitmap (ram v) s; fd = os_ret w tr1 (Open_write path); tr2 = tr1 @ [Open_write path]
           in if fd < 0 then Some (False, tr2)
              else map_option (\<lambda>(ok, tr4). (ok, tr4 @ [Close fd, Munmap (length (snap_ram s1))]))
                (write_ram w fd 0 (snap_ram s1)
                  (tr2 @ [File_write fd (hdr_bytes (hdr s1)), File_write fd (take (unat (h_xsave_size (hdr s1))) (xsave s1)),
                          File_write fd (cpuid s1), File_write fd (msrs s1), File_write fd (dirty_bitmap s1)]))))"

text \<open>
  The file is mapped; \<open>xbuf\<close> is what the uninitialised \<open>snap.xsave\<close> holds.  The mapping is kept while the
  fault handler needs it.
\<close>

definition keep_mapping :: "int \<Rightarrow> nat \<Rightarrow> snapshot \<Rightarrow> vmm \<Rightarrow> vmm" where
  "keep_mapping fd sz s v =
     v\<lparr>snap_fd := fd, snap_mmap_sz := sz,
       ufd := (ufd v)\<lparr>uffd_ram := Some (snap_ram s), snap_bitmap_buf := dirty_bitmap s,
                      snap_total_pages := length (snap_ram s) div PAGE\<rparr>\<rparr>"

definition release_mapping :: "int \<Rightarrow> nat \<Rightarrow> vmm \<Rightarrow> log \<Rightarrow> vmm \<times> log" where
  "release_mapping fd sz v tr =
     (if \<not> use_uffd (ufd v) \<and> \<not> midway_uffd (ufd v) \<or> uffd (ufd v) < 0
      then (v\<lparr>snap_fd := -1, snap_mmap_sz := 0\<rparr>, tr @ [Munmap sz, Close fd])
      else (v, tr))"

definition restore_snapshot_file ::
  "nat list \<Rightarrow> os \<Rightarrow> u64 \<Rightarrow> u8 list \<Rightarrow> string \<Rightarrow> vmm \<Rightarrow> log \<Rightarrow> (bool \<times> vmm \<times> log) option" where
  "restore_snapshot_file sched w hva xbuf path v tr =
     (let fd = os_ret w tr (Open_read path); tr1 = tr @ [Open_read path]
      in if fd < 0 then Some (False, v, tr1)
         else (let sz = os_ret w tr1 (Fstat fd); tr2 = tr1 @ [Fstat fd]
               in if sz < 0 then Some (False, v, tr2 @ [Close fd])
                  else (let c = Mmap_file fd (nat sz); tr3 = tr2 @ [c]; file = fixed (nat sz) (os_data w tr2 c)
                        in if os_ret w tr2 c < 0 then Some (False, v, tr3 @ [Close fd])
                           else (case parse_snapshot xbuf file of
                                   Inl Too_short \<Rightarrow> Some (False, v, tr3 @ [Munmap (nat sz), Close fd])
                                 | Inl Xsave_overflow \<Rightarrow> None
                                 | Inr s \<Rightarrow>
                                     (case restore_snapshot sched w hva s (keep_mapping fd (nat sz) s v) tr3 of
                                        None \<Rightarrow> None
                                      | Some (ok, v1, tr4) \<Rightarrow>
                                          (let (v2, tr5) = release_mapping fd (nat sz) v1 tr4 in Some (ok, v2, tr5)))))))"

section \<open>What a save produces\<close>

lemma kvm_gets_Some:
  assumes "kvm_gets w ks tr = (Some b, tr')"
  shows "tr' = tr @ map (Kvm_get \<circ> fst) ks" and "length b = length ks"
    and "i < length ks \<Longrightarrow>
      b ! i = fixed (snd (ks ! i)) (os_data w (tr @ map (Kvm_get \<circ> fst) (take i ks)) (Kvm_get (fst (ks ! i))))"
proof -
  have "tr' = tr @ map (Kvm_get \<circ> fst) ks \<and> length b = length ks \<and> (\<forall>i < length ks.
      b ! i = fixed (snd (ks ! i)) (os_data w (tr @ map (Kvm_get \<circ> fst) (take i ks)) (Kvm_get (fst (ks ! i)))))"
    using assms
  proof (induction ks arbitrary: tr b)
    case (Cons p ks)
    obtain k n where p: "p = (k, n)" by fastforce
    from Cons.prems obtain b1 where b: "b = fixed n (os_data w tr (Kvm_get k)) # b1"
      and r: "kvm_gets w ks (tr @ [Kvm_get k]) = (Some b1, tr')"
      by (auto simp: p Let_def split: if_splits prod.splits)
    show ?case using Cons.IH [OF r] by (auto simp: p b nth_Cons' less_Suc_eq_0_disj)
  qed simp
  then show "tr' = tr @ map (Kvm_get \<circ> fst) ks" and "length b = length ks"
    and "i < length ks \<Longrightarrow>
      b ! i = fixed (snd (ks ! i)) (os_data w (tr @ map (Kvm_get \<circ> fst) (take i ks)) (Kvm_get (fst (ks ! i))))"
    by blast+
qed

text \<open>A machine as it is after initialisation: the sizes of its parts agree.\<close>

definition vm_ok :: "vmm \<Rightarrow> bool" where
  "vm_ok v \<longleftrightarrow> ram_bytes (ram v) = ram_mb v * 1024 * 1024 \<and> 0 < ram_mb v \<and> ram_mb v < 2 ^ 27 \<and>
     length (vqs (fs v)) = NUM_QUEUES \<and> length (net_vqs (net v)) = NET_NUM_QUEUES \<and>
     length (mac (net_config (net v))) = 6 \<and> length (msr_list v) \<le> MAX_MSRS \<and>
     unat (cpuid_nent v) * CPUID_ENTRY \<le> length (vm_cpuid v)"

lemma save_snapshot_Some:
  assumes "save_snapshot w v tr = (Some s, tr')"
  shows "\<exists>b tsc xs ms. kvm_gets w hdr_items tr = (Some b, tr @ map (Kvm_get \<circ> fst) hdr_items) \<and>
    length xs = XSAVE_SIZE \<and> length ms = length (msr_list v) * MSR_ENTRY \<and>
    s = \<lparr>hdr = make_header v b tsc, xsave = xs, cpuid = take (unat (cpuid_nent v) * CPUID_ENTRY) (vm_cpuid v),
         msrs = ms, snap_ram = ram_peek (ram v) 0 (ram_bytes (ram v)), dirty_bitmap = []\<rparr>"
proof -
  from assms obtain b tr1 where g: "kvm_gets w hdr_items tr = (Some b, tr1)"
    by (auto simp: save_snapshot_def split: prod.splits option.splits)
  let ?tsc = "os_ret w tr1 (Kvm_get K_tsc_khz)"
  from assms g obtain xs tr2 where x: "get_xsave w (tr1 @ [Kvm_get K_tsc_khz]) = (Some xs, tr2)"
    by (auto simp: save_snapshot_def Let_def split: prod.splits option.splits)
  from assms g x have s: "s = \<lparr>hdr = make_header v b ?tsc, xsave = xs, cpuid = take (unat (cpuid_nent v) * CPUID_ENTRY) (vm_cpuid v),
       msrs = fst (get_msrs w (msr_list v) tr2), snap_ram = ram_peek (ram v) 0 (ram_bytes (ram v)), dirty_bitmap = []\<rparr>"
    by (auto simp: save_snapshot_def Let_def split: prod.splits if_splits)
  have "length (msr_request idx) = length idx * MSR_ENTRY" for idx
    by (induction idx) (simp_all add: msr_request_def MSR_ENTRY_def)
  then have "length (fst (get_msrs w (msr_list v) tr2)) = length (msr_list v) * MSR_ENTRY"
    by (simp add: get_msrs_def Let_def)
  moreover have "length xs = XSAVE_SIZE"
    using x by (auto simp: get_xsave_def Let_def split: if_splits)
  ultimately show ?thesis using s g kvm_gets_Some(1) [OF g] by blast
qed

lemma make_header_ok:
  assumes "vm_ok v" "kvm_gets w hdr_items tr = (Some b, tr')"
  shows "hdr_ok (make_header v b tsc)"
proof -
  note g = kvm_gets_Some [OF assms(2)]
  have "length (b ! i) = snd (hdr_items ! i)" if "i < 12" for i
    using g(3) [of i] that by (simp add: hdr_items_def)
  from this [of 0] this [of 1] this [of 2] this [of 3] this [of 4] this [of 5] this [of 6] this [of 7]
    this [of 8] this [of 9] this [of 10] this [of 11]
  show ?thesis
    using assms(1)
    by (simp add: hdr_ok_def make_header_def hdr_pieces_def vq_pieces_def hdr_sizes_def vm_ok_def hdr_items_def
        NUM_QUEUES_def NET_NUM_QUEUES_def)
qed

lemma hdr_ok_bitmap_bytes: "hdr_ok (h\<lparr>h_bitmap_bytes := n\<rparr>) = hdr_ok h"
  by (simp add: hdr_ok_def hdr_pieces_def)

lemma length_build_bitmap: "length (fst (build_bitmap r)) = (total_pages r + 7) div 8"
  using build_bitmap_marks [of r] by auto

lemma saved_snapshot_ok:
  assumes v: "vm_ok v" and s: "save_snapshot w v tr = (Some s, tr')"
  shows "snapshot_ok (with_bitmap (ram v) s)"
proof -
  from save_snapshot_Some [OF s] obtain b tsc xs ms where
    g: "kvm_gets w hdr_items tr = (Some b, tr @ map (Kvm_get \<circ> fst) hdr_items)" and
    l: "length xs = XSAVE_SIZE" "length ms = length (msr_list v) * MSR_ENTRY" and
    e: "s = \<lparr>hdr = make_header v b tsc, xsave = xs, cpuid = take (unat (cpuid_nent v) * CPUID_ENTRY) (vm_cpuid v),
         msrs = ms, snap_ram = ram_peek (ram v) 0 (ram_bytes (ram v)), dirty_bitmap = []\<rparr>" by blast
  have mb: "ram_mb v < 2 ^ 27" "ram_bytes (ram v) = ram_mb v * 1024 * 1024" using v by (simp_all add: vm_ok_def)
  have "(total_pages (ram v) + 7) div 8 < 2 ^ 32"
    using mb by (simp add: total_pages_def PAGE_def)
  then have bm: "unat (of_nat (length (fst (build_bitmap (ram v)))) :: u32) = length (fst (build_bitmap (ram v)))"
    by (simp add: length_build_bitmap unat_u32)
  have "unat (of_nat (ram_mb v) :: u32) = ram_mb v" using mb(1) by (simp add: unat_u32)
  moreover have "unat (of_nat (length (msr_list v)) :: u32) = length (msr_list v)"
    using v by (simp add: vm_ok_def MAX_MSRS_def unat_u32)
  moreover have "unat (of_nat XSAVE_SIZE :: u32) = XSAVE_SIZE" by (simp add: XSAVE_SIZE_def)
  ultimately show ?thesis
    using make_header_ok [OF v g, of tsc] l v bm mb(2)
    by (simp add: snapshot_ok_def with_bitmap_def Let_def e hdr_ok_bitmap_bytes vm_ok_def)
      (simp add: make_header_def mb_bytes_def)
qed

section \<open>What a restore leaves alone\<close>

lemma restore_devices_ram: "ram (fst (restore_devices w hva h v tr)) = ram v"
  by (simp add: restore_devices_def Let_def case_prod_beta)

lemma restore_kvm_ram: "restore_kvm w hva s v tr = Some (ok, v', tr') \<Longrightarrow> ram v' = ram v"
  using restore_devices_ram [of w hva "hdr s"]
  by (fastforce simp: restore_kvm_def Let_def case_prod_beta split: if_splits)

lemma release_mapping_ram: "ram (fst (release_mapping fd sz v tr)) = ram v"
  by (simp add: release_mapping_def)

lemma restore_kvm_defined:
  assumes "snapshot_ok s"
  shows "restore_kvm w hva s v tr \<noteq> None"
  using assms by (auto simp: snapshot_ok_def restore_kvm_def Let_def case_prod_beta split: if_splits)

text \<open>The eager engines never read outside a well-formed snapshot.\<close>

lemma ram_of_list_peek: "ram_of_list (ram_peek r 0 (ram_bytes r)) = \<lparr>ram_bytes = ram_bytes r, ram_mem = (\<lambda>i. if i < ram_bytes r then ram_mem r i else 0)\<rparr>"
  by (auto simp: ram_of_list_def nth_ram_peek)

lemma total_pages_cong: "ram_bytes r = ram_bytes r' \<Longrightarrow> total_pages r = total_pages r'"
  by (simp add: total_pages_def)

lemma copy_ok_saved:
  assumes "PAGE dvd ram_bytes r" "ram_bytes dst = ram_bytes r"
  shows "copy_ok (ram_of_list (ram_peek r 0 (ram_bytes r))) (fst (build_bitmap r)) dst"
  using assms by (simp add: copy_ok_def ram_of_list_peek length_build_bitmap total_pages_def)

lemma saved_bits:
  assumes "pg < total_pages r"
  shows "bitmap_bit (fst (build_bitmap r)) pg \<longleftrightarrow> page_dirty (ram_mem r) pg"
proof -
  obtain bm c where b: "build_bitmap r = (bm, c)" "length bm = (total_pages r + 7) div 8"
    "\<forall>pg. bitmap_test bm pg = (if pg < 8 * length bm then Some (pg < total_pages r \<and> page_dirty (ram_mem r) pg) else None)"
    using build_bitmap_marks [of r] by blast
  have "pg < 8 * length bm" using assms b(2) by simp
  with b assms bitmap_test_Some [of pg bm] show ?thesis by simp
qed

lemma page_dirty_cong:
  assumes "pg < total_pages r" "\<And>i. i < ram_bytes r \<Longrightarrow> m i = ram_mem r i"
  shows "page_dirty m pg \<longleftrightarrow> page_dirty (ram_mem r) pg"
proof -
  have "pg * PAGE + i < ram_bytes r" if "i < PAGE" for i
  proof -
    have "pg * PAGE + i < (pg + 1) * PAGE" using that by simp
    also have "\<dots> \<le> total_pages r * PAGE" using assms(1) by (intro mult_le_mono1) simp
    also have "\<dots> \<le> ram_bytes r" by (simp add: total_pages_def)
    finally show ?thesis .
  qed
  with assms(2) show ?thesis by (auto simp: page_dirty_iff)
qed

lemma eager_restores_saved:
  assumes size: "PAGE dvd ram_bytes r"
    and copy: "bitmap_copy sched t (fst (build_bitmap r)) (ram_of_list (ram_peek r 0 (ram_bytes r))) (fresh_ram (ram_bytes r)) = Some res"
    and j: "j < ram_bytes r"
  shows "ram_mem res j = ram_mem r j"
proof -
  let ?src = "ram_of_list (ram_peek r 0 (ram_bytes r))" and ?dst = "fresh_ram (ram_bytes r)"
  have sz: "ram_bytes ?dst = ram_bytes r" "total_pages ?dst = total_pages r"
    by (simp_all add: fresh_ram_def total_pages_def)
  have "copy_ok ?src (fst (build_bitmap r)) ?dst \<and> (\<exists>sched. bitmap_copy sched t (fst (build_bitmap r)) ?src ?dst = Some res)"
    using copy_ok_saved [OF size sz(1)] copy by blast
  then have "ram_mem res j = ram_mem ?src j"
  proof (rule bitmap.restored)
    show "j < ram_bytes ?dst" "PAGE dvd ram_bytes ?dst" using j size sz by simp_all
    fix pg
    assume pg: "pg < total_pages ?dst" and d: "page_dirty (ram_mem ?src) pg"
    from page_dirty_cong [of pg r "ram_mem ?src"] pg d sz have "page_dirty (ram_mem r) pg" by (simp add: ram_of_list_peek)
    then show "bitmap_bit (fst (build_bitmap r)) pg" using saved_bits pg sz by simp
  qed (simp add: fresh_ram_def)
  then show ?thesis using j by (simp add: ram_of_list_peek)
qed

section \<open>Restoring from a file\<close>

text \<open>A file that can be opened, measured and mapped.\<close>

definition file_there :: "os \<Rightarrow> string \<Rightarrow> u8 list \<Rightarrow> log \<Rightarrow> bool" where
  "file_there w path file tr \<longleftrightarrow>
     (let fd = os_ret w tr (Open_read path); tr1 = tr @ [Open_read path]; tr2 = tr1 @ [Fstat fd]; c = Mmap_file fd (length file)
      in 0 \<le> fd \<and> os_ret w tr1 (Fstat fd) = int (length file) \<and> 0 \<le> os_ret w tr2 c \<and> os_data w tr2 c = file)"

lemma restore_file_parsed:
  assumes "file_there w path file tr" "parse_snapshot xbuf file = Inr s"
    and "restore_snapshot sched w hva s (keep_mapping (os_ret w tr (Open_read path)) (length file) s v)
      (tr @ [Open_read path, Fstat (os_ret w tr (Open_read path)), Mmap_file (os_ret w tr (Open_read path)) (length file)]) = Some (ok, v1, tr1)"
  shows "restore_snapshot_file sched w hva xbuf path v tr =
    (case release_mapping (os_ret w tr (Open_read path)) (length file) v1 tr1 of (v2, tr2) \<Rightarrow> Some (ok, v2, tr2))"
  using assms by (simp add: restore_snapshot_file_def file_there_def Let_def)

lemma restore_eager_defined:
  assumes s: "snapshot_ok s" and m: "\<not> bad_snapshot (hdr s) v" and u: "\<not> use_uffd (ufd v)" and bm: "dirty_bitmap s \<noteq> []"
    and copy: "bitmap_copy sched (copy_threads v) (dirty_bitmap s) (ram_of_list (snap_ram s)) (ram v) = Some r"
  shows "\<exists>ok v' tr'. restore_snapshot sched w hva s v tr = Some (ok, v', tr') \<and> ram v' = r"
proof -
  obtain i u1 t1 where i: "init_uffd w (ufd v) tr = (i, u1, t1)" by (rule prod_cases3)
  obtain u2 t2 where st: "start_uffd_thread u1 t1 = (u2, t2)" by fastforce
  have "\<exists>v1 tr1. restore_ram sched w s v tr = Some (v1, tr1) \<and> ram v1 = r"
    using u bm copy by (simp add: restore_ram_def restore_ram_eager_def Let_def i st)
  then obtain v1 tr1 where e: "restore_ram sched w s v tr = Some (v1, tr1)" "ram v1 = r" by blast
  from restore_kvm_defined [OF s] obtain ok v' tr' where k: "restore_kvm w hva s v1 tr1 = Some (ok, v', tr')" by fastforce
  show ?thesis using e k m restore_kvm_ram [OF k] by (simp add: restore_snapshot_def)
qed

text \<open>
  Claim C1.  A snapshot file restores guest RAM.  Save a machine to a file and restore the
  file into a new machine of the same size by the eager engine: for every number of copy
  threads and every schedule that gives each of them its turns the restore returns, and
  every byte of guest RAM is the byte the saved machine had.
\<close>

theorem snapshot_file_restores_ram:
  assumes "vm_ok v" and "save_snapshot w v tr = (Some s, tr1)"
    and "file_there w' path (snapshot_bytes (with_bitmap (ram v) s)) t" and "length xbuf = XSAVE_SIZE"
    and "ram v' = fresh_ram (ram_bytes (ram v))" and "ram_mb v' = ram_mb v" and "\<not> use_uffd (ufd v')"
    and "fair_rounds (copy_threads v') (total_pages (ram v)) rounds"
  shows "\<exists>ok v'' t''. restore_snapshot_file (concat rounds) w' hva xbuf path v' t = Some (ok, v'', t'') \<and>
    (\<forall>j < ram_bytes (ram v). ram_mem (ram v'') j = ram_mem (ram v) j)"
proof -
  let ?s = "with_bitmap (ram v) s" and ?r = "ram v"
  have ok: "snapshot_ok ?s" by (rule saved_snapshot_ok [OF assms(1,2)])
  have parse: "parse_snapshot xbuf (snapshot_bytes ?s) = Inr ?s"
    using snapshot_parsed [OF ok assms(4)] .
  have mb: "0 < ram_mb v" "ram_bytes ?r = ram_mb v * 1024 * 1024" "ram_mb v < 2 ^ 27" using assms(1) by (simp_all add: vm_ok_def)
  have size: "PAGE dvd ram_bytes ?r" unfolding mb(2) PAGE_def by (auto intro: dvd_mult)
  from save_snapshot_Some [OF assms(2)] obtain b tsc where
    f: "hdr s = make_header v b tsc" "snap_ram ?s = ram_peek ?r 0 (ram_bytes ?r)" "dirty_bitmap ?s = fst (build_bitmap ?r)"
    by (auto simp: with_bitmap_def Let_def)
  have "0 < total_pages ?r" using mb by (simp add: total_pages_def PAGE_def)
  then have ne: "dirty_bitmap ?s \<noteq> []" using length_build_bitmap [of ?r] f(3) by auto
  let ?v = "\<lambda>fd. keep_mapping fd (length (snapshot_bytes ?s)) ?s v'"
  have tp: "total_pages (fresh_ram (ram_bytes ?r)) = total_pages ?r" by (simp add: fresh_ram_def total_pages_def)
  have "ram_bytes (fresh_ram (ram_bytes ?r)) = ram_bytes ?r" by (simp add: fresh_ram_def)
  from bitmap_copy_defined [OF copy_ok_saved [OF size this], unfolded tp, OF assms(8)] obtain res where
    c: "bitmap_copy (concat rounds) (copy_threads v') (fst (build_bitmap ?r)) (ram_of_list (ram_peek ?r 0 (ram_bytes ?r))) (fresh_ram (ram_bytes ?r)) = Some res"
    by blast
  have h: "h_magic (hdr ?s) = SNAP_MAGIC" "h_version (hdr ?s) = SNAP_VERSION" "h_ram_mb (hdr ?s) = of_nat (ram_mb v)"
    by (simp_all add: with_bitmap_def Let_def f(1) make_header_def)
  have nb: "\<not> bad_snapshot (hdr ?s) (?v fd)" for fd
    using mb(3) assms(6) by (simp add: bad_snapshot_def keep_mapping_def h unat_u32)
  have "\<exists>ok v'' tr''. restore_snapshot (concat rounds) w' hva ?s (?v fd) t' = Some (ok, v'', tr'') \<and> ram v'' = res" for fd t'
    by (rule restore_eager_defined [OF ok nb _ ne]) (use assms(5,7) c f in \<open>simp_all add: keep_mapping_def\<close>)
  then obtain ok' v1 t1 where r: "restore_snapshot (concat rounds) w' hva ?s (?v (os_ret w' t (Open_read path)))
      (t @ [Open_read path, Fstat (os_ret w' t (Open_read path)), Mmap_file (os_ret w' t (Open_read path)) (length (snapshot_bytes ?s))]) =
      Some (ok', v1, t1)" "ram v1 = res" by blast
  obtain v2 t2 where rel: "release_mapping (os_ret w' t (Open_read path)) (length (snapshot_bytes ?s)) v1 t1 = (v2, t2)" by fastforce
  then have "ram v2 = res" using release_mapping_ram r(2) by (metis fst_conv)
  with restore_file_parsed [OF assms(3) parse r(1)] rel eager_restores_saved [OF size c] show ?thesis by auto
qed

section \<open>The KVM state\<close>

fun kvm_written :: "log \<Rightarrow> (kvm_item \<times> u8 list) list" where
  "kvm_written [] = []"
| "kvm_written (Kvm_set k bs # cs) = (k, bs) # kvm_written cs"
| "kvm_written (c # cs) = kvm_written cs"

lemma kvm_written_append [simp]: "kvm_written (xs @ ys) = kvm_written xs @ kvm_written ys"
  by (induction xs rule: kvm_written.induct) auto

lemma kvm_apply_True:
  assumes "kvm_apply w ks tr = (True, tr')"
  shows "kvm_written tr' = kvm_written tr @ map snd ks"
  using assms by (induction ks arbitrary: tr) (auto split: if_splits)

lemma kvm_written_vu_setup_queue: "kvm_written (snd (vu_setup_queue w sock hva i q tr)) = kvm_written tr"
  by (simp add: vu_setup_queue_def Let_def vring_calls_def)

lemma kvm_written_vu_setup_queues: "kvm_written (snd (vu_setup_queues w sock hva i qs tr)) = kvm_written tr"
  by (induction qs arbitrary: i tr) (simp_all add: Let_def case_prod_beta kvm_written_vu_setup_queue)

lemma kvm_written_vu_setup: "kvm_written (snd (vu_setup w hva d tr)) = kvm_written tr"
  by (simp add: vu_setup_def start_irq_thread_def Let_def case_prod_beta kvm_written_vu_setup_queues)

lemma kvm_written_net_setup: "kvm_written (snd (vhost_net_setup w d tr)) = kvm_written tr"
  by (simp add: vhost_net_setup_def)

lemma kvm_written_devices: "kvm_written (snd (restore_devices w hva h v tr)) = kvm_written tr"
  by (simp add: restore_devices_def Let_def case_prod_beta kvm_written_vu_setup kvm_written_net_setup)

lemma kvm_written_prefault: "prefault_all n u gs tr = Some tr' \<Longrightarrow> kvm_written tr' = kvm_written tr"
proof (induction gs arbitrary: tr)
  case (Cons g gs)
  have "kvm_written tr1 = kvm_written tr" if "prefault_gpa n u g tr = Some tr1" for tr1
    using that by (auto simp: prefault_gpa_def fill_call_def split: if_splits)
  with Cons show ?case by (auto split: option.splits)
qed simp

lemma kvm_written_start_uffd: "kvm_written (snd (start_uffd_thread u tr)) = kvm_written tr"
  by (simp add: start_uffd_thread_def)

lemma kvm_written_init_uffd: "init_uffd w u tr = (ok, u', tr') \<Longrightarrow> kvm_written tr' = kvm_written tr"
  by (auto simp: init_uffd_def Let_def split: if_splits)

lemmas kvm_written_simps = kvm_written_devices kvm_written_start_uffd

lemma kvm_written_restore_ram:
  assumes "restore_ram sched w s v tr = Some (v', tr')"
  shows "kvm_written tr' = kvm_written tr"
proof (cases "use_uffd (ufd v) \<and> \<not> midway_uffd (ufd v) \<and> 0 \<le> uffd (ufd v)")
  case True
  with assms obtain u1 tr1 where "prefault_rings (ram_bytes (ram v)) u1 (hdr s) tr = Some tr1"
    "tr' = snd (start_uffd_thread u1 tr1)"
    by (auto simp: restore_ram_def restore_ram_uffd_def Let_def case_prod_beta split: option.splits)
  then show ?thesis
    by (auto simp: prefault_rings_all kvm_written_simps dest: kvm_written_prefault)
next
  case False
  obtain i u1 t1 where i: "init_uffd w (ufd v) tr = (i, u1, t1)" by (rule prod_cases3)
  obtain u2 t2 where st: "start_uffd_thread u1 t1 = (u2, t2)" by fastforce
  have "kvm_written t1 = kvm_written tr" "kvm_written t2 = kvm_written t1"
    using kvm_written_init_uffd [OF i] kvm_written_start_uffd [of u1 t1] st by simp_all
  moreover have "restore_ram sched w s v tr = restore_ram_eager sched w s v tr"
    using False by (simp only: restore_ram_def if_False)
  ultimately show ?thesis
    using assms by (auto simp: restore_ram_eager_def Let_def i st split: option.splits if_splits)
qed

lemma restore_snapshot_True:
  assumes "restore_snapshot sched w hva s v tr = Some (True, v', tr')"
  shows "kvm_written tr' = kvm_written tr @ map snd (kvm_sets_cpu s @ kvm_sets_vm s)"
    and "\<exists>v1 t1. restore_ram sched w s v tr = Some (v1, t1) \<and>
      (\<exists>t2. v' = (fst (restore_devices w hva (hdr s)
        (v1\<lparr>vm_cpuid := take (unat (h_cpuid_nent (hdr s)) * CPUID_ENTRY) (cpuid s), cpuid_nent := h_cpuid_nent (hdr s)\<rparr>) t2))\<lparr>ignore_next_signal := True\<rparr>)"
proof -
  from assms obtain v1 t1 where r: "restore_ram sched w s v tr = Some (v1, t1)"
    and k: "restore_kvm w hva s v1 t1 = Some (True, v', tr')"
    by (auto simp: restore_snapshot_def split: if_splits option.splits)
  let ?v = "v1\<lparr>vm_cpuid := take (unat (h_cpuid_nent (hdr s)) * CPUID_ENTRY) (cpuid s), cpuid_nent := h_cpuid_nent (hdr s)\<rparr>"
  from k obtain t2 t3 where
    a: "kvm_apply w (kvm_sets_cpu s) t1 = (True, t2)" "kvm_apply w (kvm_sets_vm s) t2 = (True, t3)" and
    d: "restore_devices w hva (hdr s) ?v t3 = (v'\<lparr>ignore_next_signal := ignore_next_signal (fst (restore_devices w hva (hdr s) ?v t3))\<rparr>, tr')"
      "v' = (fst (restore_devices w hva (hdr s) ?v t3))\<lparr>ignore_next_signal := True\<rparr>"
    by (auto simp: restore_kvm_def Let_def case_prod_beta prod_eq_iff split: if_splits)
  have "kvm_written tr' = kvm_written t3"
    using kvm_written_devices [of w hva "hdr s" ?v t3] d(1) by (metis snd_conv)
  then show "kvm_written tr' = kvm_written tr @ map snd (kvm_sets_cpu s @ kvm_sets_vm s)"
    using kvm_apply_True [OF a(1)] kvm_apply_True [OF a(2)] kvm_written_restore_ram [OF r] by simp
  show "\<exists>v1 t1. restore_ram sched w s v tr = Some (v1, t1) \<and>
      (\<exists>t2. v' = (fst (restore_devices w hva (hdr s)
        (v1\<lparr>vm_cpuid := take (unat (h_cpuid_nent (hdr s)) * CPUID_ENTRY) (cpuid s), cpuid_nent := h_cpuid_nent (hdr s)\<rparr>) t2))\<lparr>ignore_next_signal := True\<rparr>)"
    using r d(2) by blast
qed

text \<open>What the kernel answered to the query of header item \<open>i\<close> during the save.\<close>

definition read_back :: "os \<Rightarrow> log \<Rightarrow> nat \<Rightarrow> u8 list" where
  "read_back w tr i = fixed (snd (hdr_items ! i))
     (os_data w (tr @ map (Kvm_get \<circ> fst) (take i hdr_items)) (Kvm_get (fst (hdr_items ! i))))"

lemma saved_items:
  assumes "save_snapshot w v tr = (Some s, tr1)"
  shows "h_regs (hdr s) = read_back w tr 0" "h_sregs (hdr s) = read_back w tr 1" "h_lapic (hdr s) = read_back w tr 2"
    "h_events (hdr s) = read_back w tr 3" "h_xcrs (hdr s) = read_back w tr 4" "h_mp_state (hdr s) = read_back w tr 5"
    "h_debugregs (hdr s) = read_back w tr 6" "h_clock (hdr s) = read_back w tr 7" "h_pit (hdr s) = read_back w tr 8"
    "h_pic_master (hdr s) = read_back w tr 9" "h_pic_slave (hdr s) = read_back w tr 10" "h_ioapic (hdr s) = read_back w tr 11"
proof -
  from save_snapshot_Some [OF assms] obtain b tsc where
    g: "kvm_gets w hdr_items tr = (Some b, tr @ map (Kvm_get \<circ> fst) hdr_items)" and h: "hdr s = make_header v b tsc" by auto
  have len: "length hdr_items = 12" by (simp add: hdr_items_def)
  have "b ! i = read_back w tr i" if "i < 12" for i
    using kvm_gets_Some(3) [OF g, of i] that unfolding read_back_def len by blast
  then show "h_regs (hdr s) = read_back w tr 0" "h_sregs (hdr s) = read_back w tr 1" "h_lapic (hdr s) = read_back w tr 2"
    "h_events (hdr s) = read_back w tr 3" "h_xcrs (hdr s) = read_back w tr 4" "h_mp_state (hdr s) = read_back w tr 5"
    "h_debugregs (hdr s) = read_back w tr 6" "h_clock (hdr s) = read_back w tr 7" "h_pit (hdr s) = read_back w tr 8"
    "h_pic_master (hdr s) = read_back w tr 9" "h_pic_slave (hdr s) = read_back w tr 10" "h_ioapic (hdr s) = read_back w tr 11"
    by (simp_all add: h make_header_def)
qed


lemma load_vqs_save:
  assumes "length qs = n" "length qs' = n"
  shows "map vq_regs (load_vqs n (map save_vq qs) qs') = map vq_regs qs"
  using assms by (intro nth_equalityI) (simp_all add: load_vqs_def load_vq_def save_vq_def vq_regs_def)

lemma restore_ram_devices:
  assumes "restore_ram sched w s v tr = Some (v', tr')"
  shows "fs v' = fs v" "net v' = net v" "serial v' = serial v"
  using assms
  by (auto simp: restore_ram_def restore_ram_uffd_def restore_ram_eager_def Let_def case_prod_beta
      split: if_splits option.splits prod.splits)


section \<open>What a saved file holds\<close>

text \<open>The bytes that the calls of a log have put into the file open as \<open>fd\<close>: of each write, as many as it reported.\<close>

fun file_content :: "os \<Rightarrow> int \<Rightarrow> log \<Rightarrow> log \<Rightarrow> u8 list" where
  "file_content w fd tr [] = []"
| "file_content w fd tr (c # cs) =
     (case c of File_write fd' bs \<Rightarrow> if fd' = fd then take (nat (os_ret w tr c)) bs else [] | _ \<Rightarrow> []) @
     file_content w fd (tr @ [c]) cs"

lemma file_content_append [simp]: "file_content w fd tr (xs @ ys) = file_content w fd tr xs @ file_content w fd (tr @ xs) ys"
  by (induction xs arbitrary: tr) simp_all

lemma length_file_content: "length (file_content w fd tr (map (File_write fd) bss)) \<le> length (concat bss)"
  by (induction bss arbitrary: tr) (simp_all add: add_le_mono)

lemma length_file_content_short:
  assumes "os_ret w tr (File_write fd bs) < int (length bs)" and "0 < length bs"
  shows "length (file_content w fd tr (map (File_write fd) (bs # bss))) < length (concat (bs # bss))"
proof -
  have "nat (os_ret w tr (File_write fd bs)) < length bs" using assms by linarith
  then show ?thesis using length_file_content [of w fd "tr @ [File_write fd bs]" bss] by simp
qed

lemma take_min_length: "take (min (length xs) n) xs = take n xs"
  by (simp add: min_def)

lemma write_ram_at_once:
  assumes "\<And>t. os_ret w t (File_write fd bs) = int (length bs)"
  shows "write_ram w fd 0 bs t = Some (True, t @ (if bs = [] then [] else [File_write fd bs]))"
  by (subst write_ram.simps, simp add: assms Let_def, subst write_ram.simps, simp)

lemma save_file_log:
  assumes "save_snapshot w v tr = (Some s, tr1)" and "os_ret w tr1 (Open_write path) = fd" and "0 \<le> fd"
    and "\<And>t. os_ret w t (File_write fd (snap_ram s)) = int (length (snap_ram s))"
  shows "save_snapshot_file w path v tr = Some (True, tr1 @ [Open_write path] @
    (let s1 = with_bitmap (ram v) s
     in map (File_write fd) ([hdr_bytes (hdr s1), take (unat (h_xsave_size (hdr s1))) (xsave s1), cpuid s1, msrs s1, dirty_bitmap s1] @
          (if snap_ram s = [] then [] else [snap_ram s]))) @ [Close fd, Munmap (length (snap_ram s))])"
  using assms by (auto simp: save_snapshot_file_def Let_def write_ram_at_once with_bitmap_def)

lemma saved_file_content:
  assumes "save_snapshot w v tr = (Some s, tr1)" and "os_ret w tr1 (Open_write path) = fd" and "0 \<le> fd"
    and "\<forall>t bs. os_ret w t (File_write fd bs) = int (length bs)"
  shows "\<exists>ws. save_snapshot_file w path v tr = Some (True, tr1 @ [Open_write path] @ ws) \<and>
    file_content w fd (tr1 @ [Open_write path]) ws = snapshot_bytes (with_bitmap (ram v) s)"
  using save_file_log [OF assms(1-3)] assms(4) take_min_length
  by (auto simp: snapshot_bytes_def Let_def with_bitmap_def)

text \<open>
  Claim C11.  A save to a file that succeeds leaves the whole snapshot in the file.  If the kernel
  takes every write completely, \<open>save_snapshot_file\<close> succeeds, and what it has written to the file is the
  byte image of the saved machine with its bitmap of pages in use, as \<open>restore_snapshot_file\<close> reads it.
\<close>

theorem save_file_complete:
  assumes "save_snapshot w v tr = (Some s, tr1)" and "os_ret w tr1 (Open_write path) = fd" and "0 \<le> fd"
    and "\<forall>t bs. os_ret w t (File_write fd bs) = int (length bs)"
  shows "\<exists>ws. save_snapshot_file w path v tr = Some (True, tr1 @ [Open_write path] @ ws) \<and>
    file_content w fd (tr1 @ [Open_write path]) ws = snapshot_bytes (with_bitmap (ram v) s)"
  by (rule saved_file_content [OF assms])

text \<open>
  A short write goes unnoticed.  The results of the writes of header, XSAVE, CPUID, MSRs
  and bitmap are thrown away: whatever they are, as long as the RAM can be written, the save reports success.
  When the header is cut short the file is shorter than the snapshot.
\<close>

lemma save_short_write_unnoticed:
  assumes "save_snapshot w v tr = (Some s, tr1)" and "os_ret w tr1 (Open_write path) = fd" and "0 \<le> fd"
    and "\<forall>t. os_ret w t (File_write fd (snap_ram s)) = int (length (snap_ram s))"
    and "os_ret w (tr1 @ [Open_write path]) (File_write fd (hdr_bytes (hdr (with_bitmap (ram v) s)))) < int HDR_SIZE"
    and "vm_ok v"
  shows "\<exists>ws. save_snapshot_file w path v tr = Some (True, tr1 @ [Open_write path] @ ws) \<and>
    length (file_content w fd (tr1 @ [Open_write path]) ws) < length (snapshot_bytes (with_bitmap (ram v) s))"
proof -
  let ?s = "with_bitmap (ram v) s" and ?t = "tr1 @ [Open_write path]"
  have len: "length (hdr_bytes (hdr ?s)) = HDR_SIZE"
    using saved_snapshot_ok [OF assms(6,1)] by (simp add: snapshot_ok_def length_hdr_bytes)
  have sr: "snap_ram ?s = snap_ram s" by (simp add: with_bitmap_def Let_def)
  let ?bss = "[take (unat (h_xsave_size (hdr ?s))) (xsave ?s), cpuid ?s, msrs ?s, dirty_bitmap ?s] @ (if snap_ram s = [] then [] else [snap_ram s])"
  let ?ws = "map (File_write fd) (hdr_bytes (hdr ?s) # ?bss) @ [Close fd, Munmap (length (snap_ram s))]"
  have "save_snapshot_file w path v tr = Some (True, ?t @ ?ws)"
    using save_file_log [OF assms(1-3)] assms(4) by (simp add: Let_def)
  moreover have "concat (hdr_bytes (hdr ?s) # ?bss) = snapshot_bytes ?s" by (simp add: snapshot_bytes_def sr Let_def)
  moreover have "file_content w fd ?t ?ws = file_content w fd ?t (map (File_write fd) (hdr_bytes (hdr ?s) # ?bss))"
    unfolding file_content_append by simp
  moreover have "0 < length (hdr_bytes (hdr ?s))" unfolding len HDR_SIZE_def by simp
  moreover have "os_ret w ?t (File_write fd (hdr_bytes (hdr ?s))) < int (length (hdr_bytes (hdr ?s)))" unfolding len by (rule assms(5))
  ultimately show ?thesis
    using length_file_content_short [of w ?t fd "hdr_bytes (hdr ?s)" ?bss] by (intro exI [of _ ?ws]) (simp only: append_assoc simp_thms)
qed


section \<open>Concrete machines\<close>

definition demo_vm :: vmm where
  "demo_vm = \<lparr>ram = \<lparr>ram_bytes = 1048576, ram_mem = (\<lambda>i. if i = 5000 then 7 else 0)\<rparr>, ram_mb = 1,
     fs = demo_fs, net = demo_net, serial = init_uart, ufd = init_uffd_state, vm_cpuid = [], cpuid_nent = 0,
     msr_list = [0x10, 0x174], copy_threads = 2, ignore_next_signal = False, cmdline = '''', snap_fd = -1, snap_mmap_sz = 0\<rparr>"

definition demo_new :: vmm where
  "demo_new = demo_vm\<lparr>ram := fresh_ram 1048576, fs := init_fs_dev, net := init_net_dev\<rparr>"

text \<open>An environment in which every call succeeds and one file can be read.\<close>

definition file_os :: "u8 list \<Rightarrow> os" where
  "file_os file = \<lparr>os_ret = (\<lambda>_ c. case c of Fstat _ \<Rightarrow> int (length file) | _ \<Rightarrow> 1),
     os_data = (\<lambda>_ c. case c of Mmap_file _ _ \<Rightarrow> file | _ \<Rightarrow> []), os_pair = (\<lambda>_ _. (1, 1))\<rparr>"

lemma demo_vm_ok: "vm_ok demo_vm"
  by (simp add: vm_ok_def demo_vm_def demo_fs_def fs_set_config_def init_fs_dev_def demo_net_def net_set_config_def
      init_net_dev_def MAX_MSRS_def)

lemma kvm_gets_calm:
  assumes "\<And>t k. 0 \<le> os_ret w t (Kvm_get k)"
  shows "\<exists>b tr'. kvm_gets w ks tr = (Some b, tr')"
proof (induction ks arbitrary: tr)
  case (Cons p ks)
  obtain k n where p: "p = (k, n)" by fastforce
  from Cons.IH [of "tr @ [Kvm_get k]"] obtain b tr' where "kvm_gets w ks (tr @ [Kvm_get k]) = (Some b, tr')" by blast
  then show ?case using assms by (auto simp: p not_less)
qed simp

lemma save_calm:
  assumes "\<And>t k. 0 \<le> os_ret w t (Kvm_get k)" "\<And>t n. 0 \<le> os_ret w t (Mmap_anon n)"
  shows "\<exists>s tr1. save_snapshot w v tr = (Some s, tr1)"
proof -
  obtain b tr1 where b: "kvm_gets w hdr_items tr = (Some b, tr1)" using kvm_gets_calm [OF assms(1)] by blast
  have x: "get_xsave w t = (Some (fixed XSAVE_SIZE (os_data w t (Kvm_get K_xsave2))), t @ [Kvm_get K_xsave2])" for t
    using assms(1) by (simp add: get_xsave_def)
  show ?thesis using assms(2) by (simp add: save_snapshot_def b x Let_def case_prod_beta not_less)
qed

lemma demo_saved: "\<exists>s tr1. save_snapshot one_os demo_vm [] = (Some s, tr1)"
  by (rule save_calm) (simp_all add: one_os_def)

lemma file_os_there: "file_there (file_os file) path file tr"
  by (simp add: file_there_def file_os_def Let_def)

lemma demo_fair_rounds: "fair_rounds (copy_threads demo_new) (total_pages (ram demo_vm)) (replicate 260 [0..<num_copy_threads (copy_threads demo_new)])"
  by (rule fair_rounds_replicate)
    (simp add: demo_new_def demo_vm_def total_pages_def PAGE_def num_chunks_def CHUNK_PAGES_def num_copy_threads_def)

theorem snapshot_file_restores_ram_witness:
  "\<exists>s tr1 ok v t. save_snapshot one_os demo_vm [] = (Some s, tr1) \<and>
     restore_snapshot_file (concat (replicate 260 [0..<num_copy_threads (copy_threads demo_new)]))
       (file_os (snapshot_bytes (with_bitmap (ram demo_vm) s))) 0 (replicate XSAVE_SIZE 0) ''snap'' demo_new [] = Some (ok, v, t) \<and>
     ram_mem (ram v) 5000 = 7 \<and> ram_mem (ram v) 4999 = 0"
proof -
  obtain s tr1 where s: "save_snapshot one_os demo_vm [] = (Some s, tr1)" using demo_saved by blast
  have *: "ram demo_new = fresh_ram (ram_bytes (ram demo_vm))" "ram_mb demo_new = ram_mb demo_vm" "\<not> use_uffd (ufd demo_new)"
    by (simp_all add: demo_new_def demo_vm_def init_uffd_state_def)
  have x: "length (replicate XSAVE_SIZE (0 :: u8)) = XSAVE_SIZE" by simp
  note there = file_os_there [where path = "''snap''" and tr = "[]"]
  from snapshot_file_restores_ram [OF demo_vm_ok s there x * demo_fair_rounds, where hva = 0] obtain ok v t where
    r: "restore_snapshot_file (concat (replicate 260 [0..<num_copy_threads (copy_threads demo_new)]))
       (file_os (snapshot_bytes (with_bitmap (ram demo_vm) s))) 0 (replicate XSAVE_SIZE 0) ''snap'' demo_new [] = Some (ok, v, t)"
    and m: "\<forall>j < ram_bytes (ram demo_vm). ram_mem (ram v) j = ram_mem (ram demo_vm) j" by blast
  have "ram_mem (ram v) 5000 = 7" "ram_mem (ram v) 4999 = 0" using m by (simp_all add: demo_vm_def)
  with s r show ?thesis by blast
qed

text \<open>A successful restore of the saved machine into the new one.\<close>

lemma kvm_apply_one_os: "\<exists>tr'. kvm_apply one_os ks tr = (True, tr')"
  by (induction ks arbitrary: tr) (auto simp: one_os_def)

lemma restored_calm:
  assumes "vm_ok v" and s: "save_snapshot w v tr = (Some s, tr1)" and calm: "\<And>ks t. \<exists>t'. kvm_apply w' ks t = (True, t')"
    and new: "ram v' = fresh_ram (ram_bytes (ram v))" "ram_mb v' = ram_mb v" "\<not> use_uffd (ufd v')" "\<not> midway_uffd (ufd v')"
    and fair: "fair_rounds (copy_threads v') (total_pages (ram v)) rounds"
  shows "\<exists>v'' t''. restore_snapshot (concat rounds) w' hva (with_bitmap (ram v) s) v' t = Some (True, v'', t'')"
proof -
  let ?s = "with_bitmap (ram v) s" and ?r = "ram v"
  have ok: "snapshot_ok ?s" by (rule saved_snapshot_ok [OF assms(1,2)])
  have mb: "0 < ram_mb v" "ram_bytes ?r = ram_mb v * 1024 * 1024" "ram_mb v < 2 ^ 27" using assms(1) by (simp_all add: vm_ok_def)
  have size: "PAGE dvd ram_bytes ?r" unfolding mb(2) PAGE_def by (auto intro: dvd_mult)
  have "ram_bytes (ram v') = ram_bytes ?r" by (simp add: new fresh_ram_def)
  note cok = copy_ok_saved [OF size this]
  have "total_pages (ram v') = total_pages ?r" by (rule total_pages_cong) (simp add: new fresh_ram_def)
  with fair bitmap_copy_defined [OF cok] obtain res where
    c: "bitmap_copy (concat rounds) (copy_threads v') (fst (build_bitmap ?r)) (ram_of_list (ram_peek ?r 0 (ram_bytes ?r))) (ram v') = Some res"
    by fastforce
  from save_snapshot_Some [OF s] obtain b tsc where
    f: "hdr s = make_header v b tsc" "snap_ram ?s = ram_peek ?r 0 (ram_bytes ?r)" "dirty_bitmap ?s = fst (build_bitmap ?r)"
    by (auto simp: with_bitmap_def Let_def)
  have "0 < total_pages ?r" using mb by (simp add: total_pages_def PAGE_def)
  then have ne: "fst (build_bitmap ?r) \<noteq> []" using length_build_bitmap [of ?r] by auto
  have r: "restore_ram (concat rounds) w' ?s v' t = Some (v'\<lparr>ram := res\<rparr>, t)"
    using new c ne f by (simp add: restore_ram_def restore_ram_eager_def Let_def)
  obtain t1 where k1: "kvm_apply w' (kvm_sets_cpu ?s) t = (True, t1)" using calm by blast
  obtain t2 where k2: "kvm_apply w' (kvm_sets_vm ?s) t1 = (True, t2)" using calm by blast
  have nb: "\<not> bad_snapshot (hdr ?s) v'"
    using mb by (simp add: bad_snapshot_def with_bitmap_def Let_def f(1) make_header_def new unat_u32)
  have "\<exists>v'' t''. restore_kvm w' hva ?s (v'\<lparr>ram := res\<rparr>) t = Some (True, v'', t'')"
    using ok k1 k2 by (simp add: restore_kvm_def Let_def case_prod_beta snapshot_ok_def)
  then show ?thesis using r nb by (simp add: restore_snapshot_def)
qed

lemma demo_restored:
  assumes s: "save_snapshot one_os demo_vm [] = (Some s, tr1)"
  shows "\<exists>v' t'. restore_snapshot (concat (replicate 260 [0..<num_copy_threads (copy_threads demo_new)])) one_os 0
    (with_bitmap (ram demo_vm) s) demo_new [] = Some (True, v', t')"
  by (rule restored_calm [OF demo_vm_ok s kvm_apply_one_os _ _ _ _ demo_fair_rounds])
    (simp_all add: demo_new_def demo_vm_def init_uffd_state_def)



text \<open>A disk that takes every write, except those of \<open>k\<close> bytes.\<close>

definition disk_os :: "nat \<Rightarrow> os" where
  "disk_os k = one_os\<lparr>os_ret := (\<lambda>_ c. case c of File_write _ bs \<Rightarrow> if length bs = k then 0 else int (length bs) | _ \<Rightarrow> 1)\<rparr>"

lemma disk_saved: "\<exists>s tr1. save_snapshot (disk_os k) demo_vm [] = (Some s, tr1)"
  by (rule save_calm) (simp_all add: disk_os_def)

theorem save_file_complete_witness:
  "\<exists>s tr1 ws. save_snapshot (disk_os 0) demo_vm [] = (Some s, tr1) \<and>
     save_snapshot_file (disk_os 0) ''snap'' demo_vm [] = Some (True, tr1 @ [Open_write ''snap''] @ ws) \<and>
     file_content (disk_os 0) 1 (tr1 @ [Open_write ''snap'']) ws = snapshot_bytes (with_bitmap (ram demo_vm) s)"
proof -
  obtain s tr1 where s: "save_snapshot (disk_os 0) demo_vm [] = (Some s, tr1)" using disk_saved by blast
  have "os_ret (disk_os 0) tr1 (Open_write ''snap'') = 1" "\<forall>t bs. os_ret (disk_os 0) t (File_write 1 bs) = int (length bs)"
    by (simp_all add: disk_os_def)
  from save_file_complete [OF s this(1) _ this(2)] s show ?thesis by auto
qed

lemma save_short_write_unnoticed_witness:
  "\<exists>s tr1 ws. save_snapshot (disk_os HDR_SIZE) demo_vm [] = (Some s, tr1) \<and>
     save_snapshot_file (disk_os HDR_SIZE) ''snap'' demo_vm [] = Some (True, tr1 @ [Open_write ''snap''] @ ws) \<and>
     length (file_content (disk_os HDR_SIZE) 1 (tr1 @ [Open_write ''snap'']) ws) < length (snapshot_bytes (with_bitmap (ram demo_vm) s))"
proof -
  obtain s tr1 where s: "save_snapshot (disk_os HDR_SIZE) demo_vm [] = (Some s, tr1)" using disk_saved by blast
  have "length (snap_ram s) = 1048576" using save_snapshot_Some [OF s] by (auto simp: demo_vm_def)
  then have r: "os_ret (disk_os HDR_SIZE) tr1 (Open_write ''snap'') = 1" "(0 :: int) \<le> 1"
    "\<forall>t. os_ret (disk_os HDR_SIZE) t (File_write 1 (snap_ram s)) = int (length (snap_ram s))"
    by (simp_all add: disk_os_def HDR_SIZE_def)
  have "length (hdr_bytes (hdr (with_bitmap (ram demo_vm) s))) = HDR_SIZE"
    using saved_snapshot_ok [OF demo_vm_ok s] by (simp add: snapshot_ok_def length_hdr_bytes)
  then have "os_ret (disk_os HDR_SIZE) (tr1 @ [Open_write ''snap'']) (File_write 1 (hdr_bytes (hdr (with_bitmap (ram demo_vm) s)))) < int HDR_SIZE"
    by (simp add: disk_os_def HDR_SIZE_def)
  from save_short_write_unnoticed [OF s r this demo_vm_ok] s show ?thesis by auto
qed


end
