(* ===== verification/Lifecycle.thy ===== *)
theory Lifecycle
  imports Snapshot Config "HOL-Library.Multiset"
begin

text \<open>
  Creation and destruction of a machine: the constructor of \<open>Vmm\<close>, \<open>init\<close>, \<open>start_virtiofsd\<close> and \<open>cleanup\<close>.  The record
  \<open>machine\<close> adds to \<open>vmm\<close> the descriptors and mappings that only these operations touch.
\<close>

record machine =
  vm :: vmm
  kvm_fd :: int
  vm_fd :: int
  vcpu_fd :: int
  ram_memfd :: int
  ram_mapped :: bool
  kvm_run_set :: bool
  run_mmap_sz :: nat
  use_hugetlb :: bool
  virtiofsd_pid :: int

definition default_cmdline :: string where
  "default_cmdline = ''console=ttyS0,115200n8 earlyprintk=serial,0x3f8,115200 nokaslr tsc=reliable clocksource=tsc lpj=3392000 pci=off''"

text \<open>The constructor; \<^verbatim>\<open>ram_mb << 20\<close> has 64 bits.\<close>

definition new_vmm :: "nat \<Rightarrow> vmm" where
  "new_vmm mb = \<lparr>ram = fresh_ram (mb * 2 ^ 20 mod 2 ^ 64), ram_mb = mb, fs = init_fs_dev, net = init_net_dev, serial = init_uart,
     ufd = init_uffd_state, vm_cpuid = [], cpuid_nent = 0, msr_list = [], copy_threads = 2, ignore_next_signal = False,
     cmdline = default_cmdline, snap_fd = -1, snap_mmap_sz = 0\<rparr>"

definition new_machine :: "nat \<Rightarrow> machine" where
  "new_machine mb = \<lparr>vm = new_vmm mb, kvm_fd = -1, vm_fd = -1, vcpu_fd = -1, ram_memfd = -1, ram_mapped = False,
     kvm_run_set = False, run_mmap_sz = 0, use_hugetlb = False, virtiofsd_pid = -1\<rparr>"

definition set_hugetlb :: "bool \<Rightarrow> machine \<Rightarrow> machine" where
  "set_hugetlb b m = m\<lparr>use_hugetlb := b\<rparr>"

definition set_uffd :: "bool \<Rightarrow> machine \<Rightarrow> machine" where
  "set_uffd b m = m\<lparr>vm := (vm m)\<lparr>ufd := (ufd (vm m))\<lparr>use_uffd := b\<rparr>\<rparr>\<rparr>"

definition set_midway_uffd :: "bool \<Rightarrow> machine \<Rightarrow> machine" where
  "set_midway_uffd b m = m\<lparr>vm := (vm m)\<lparr>ufd := (ufd (vm m))\<lparr>midway_uffd := b\<rparr>\<rparr>\<rparr>"

section \<open>Creation\<close>

text \<open>The steps of \<open>init\<close> return whether to go on.\<close>

type_synonym step = "machine \<Rightarrow> log \<Rightarrow> bool \<times> machine \<times> log"

definition and_then :: "bool \<times> machine \<times> log \<Rightarrow> step \<Rightarrow> bool \<times> machine \<times> log" where
  "and_then r f = (case r of (ok, m, tr) \<Rightarrow> if ok then f m tr else (False, m, tr))"

text \<open>\<open>KVM_GET_MSR_INDEX_LIST\<close>: a count and as many indices.\<close>

definition query_msr_list :: "os \<Rightarrow> step" where
  "query_msr_list w m tr =
     (let tr1 = tr @ [Kvm_msr_index_list]
      in if os_ret w tr Kvm_msr_index_list < 0 then (False, m, tr1)
         else (let l = fixed (4 + MAX_MSRS * 4) (os_data w tr Kvm_msr_index_list);
                   n = min MAX_MSRS (unat (le_val (take 4 l) :: u32))
               in (True, m\<lparr>vm := (vm m)\<lparr>msr_list := map (\<lambda>i. le_val (take 4 (drop (4 + 4 * i) l))) [0..<n]\<rparr>\<rparr>, tr1)))"

definition open_kvm :: "os \<Rightarrow> step" where
  "open_kvm w m tr =
     (let fd = os_ret w tr Open_kvm; m1 = m\<lparr>kvm_fd := fd\<rparr>; tr1 = tr @ [Open_kvm]
      in if fd < 0 then (False, m1, tr1)
         else (os_ret w tr1 Kvm_api_version = 12, m1, tr1 @ [Kvm_api_version]))"

definition create_vm :: "os \<Rightarrow> step" where
  "create_vm w m tr =
     (let fd = os_ret w tr Create_vm; m1 = m\<lparr>vm_fd := fd\<rparr>; tr1 = tr @ [Create_vm]
      in if fd < 0 then (False, m1, tr1)
         else if os_ret w tr1 Create_irqchip < 0 then (False, m1, tr1 @ [Create_irqchip])
         else (0 \<le> os_ret w (tr1 @ [Create_irqchip]) Create_pit2, m1, tr1 @ [Create_irqchip, Create_pit2]))"

text \<open>The RAM: with huge pages if asked for, otherwise or if that fails with ordinary ones.\<close>

definition memfd_huge :: "os \<Rightarrow> step" where
  "memfd_huge w m tr =
     (if use_hugetlb m
      then (let fd = os_ret w tr (Memfd_create True)
            in (True, m\<lparr>ram_memfd := fd, use_hugetlb := 0 \<le> fd\<rparr>, tr @ [Memfd_create True]))
      else (True, m, tr))"

definition memfd_plain :: "os \<Rightarrow> step" where
  "memfd_plain w m tr =
     (if ram_memfd m < 0
      then (let fd = os_ret w tr (Memfd_create False) in (0 \<le> fd, m\<lparr>ram_memfd := fd\<rparr>, tr @ [Memfd_create False]))
      else (True, m, tr))"

text \<open>A new memory file reads as zeroes, so RAM is the same whether \<open>zero_ram\<close> asks for it to be cleared or not.\<close>

definition map_ram :: "os \<Rightarrow> bool \<Rightarrow> step" where
  "map_ram w zero_ram m tr =
     (let n = ram_bytes (ram (vm m)); t = Ftruncate (ram_memfd m) n; tr1 = tr @ [t]; c = Mmap_shared (ram_memfd m) n
      in if os_ret w tr t < 0 then (False, m, tr1)
         else if os_ret w tr1 c < 0 then (False, m, tr1 @ [c])
         else (True, m\<lparr>ram_mapped := True, vm := (vm m)\<lparr>ram := fresh_ram n\<rparr>\<rparr>, tr1 @ [c]))"

definition try_uffd :: "os \<Rightarrow> step" where
  "try_uffd w m tr =
     (let u = ufd (vm m)
      in if use_uffd u \<and> \<not> midway_uffd u
         then (let (ok, u1, tr1) = init_uffd w u tr
               in (True, m\<lparr>vm := (vm m)\<lparr>ufd := (if ok then u1 else u1\<lparr>use_uffd := False\<rparr>)\<rparr>\<rparr>, tr1))
         else (True, m, tr))"

definition set_memslot :: "os \<Rightarrow> u32 \<Rightarrow> u64 \<Rightarrow> nat \<Rightarrow> log \<Rightarrow> bool \<times> log" where
  "set_memslot w slot gpa len tr = (0 \<le> os_ret w tr (Set_memslot slot gpa len), tr @ [Set_memslot slot gpa len])"

definition create_vcpu :: "os \<Rightarrow> step" where
  "create_vcpu w m tr =
     (let fd = os_ret w tr Create_vcpu; m1 = m\<lparr>vcpu_fd := fd\<rparr>; tr1 = tr @ [Create_vcpu]
      in if fd < 0 then (False, m1, tr1)
         else (let sz = nat (os_ret w tr1 Vcpu_mmap_size mod 2 ^ 64); tr2 = tr1 @ [Vcpu_mmap_size]; c = Mmap_shared fd sz
               in (0 \<le> os_ret w tr2 c, m1\<lparr>kvm_run_set := True, run_mmap_sz := sz\<rparr>, tr2 @ [c])))"

definition CPUID_CAPACITY :: nat where "CPUID_CAPACITY = 256"

definition get_cpuid :: "os \<Rightarrow> step" where
  "get_cpuid w m tr =
     (let r = fixed (8 + CPUID_CAPACITY * CPUID_ENTRY) (os_data w tr Supported_cpuid)
      in if os_ret w tr Supported_cpuid < 0 then (False, m, tr @ [Supported_cpuid])
         else (True, m\<lparr>vm := (vm m)\<lparr>cpuid_nent := le_val (take 4 r), vm_cpuid := drop 8 r\<rparr>\<rparr>, tr @ [Supported_cpuid]))"

definition init :: "os \<Rightarrow> bool \<Rightarrow> step" where
  "init w zero_ram m tr =
     and_then (and_then (and_then (and_then (and_then (and_then (and_then (and_then (and_then
       (open_kvm w m tr) (query_msr_list w)) (create_vm w)) (memfd_huge w)) (memfd_plain w)) (map_ram w zero_ram)) (try_uffd w))
       (\<lambda>m tr. let (ok, tr1) = set_memslot w 0 0 (ram_bytes (ram (vm m))) tr in (ok, m, tr1)))
       (create_vcpu w)) (get_cpuid w)"

section \<open>The file system process\<close>

datatype proc = Done bool | Child

definition virtiofsd_args :: "string \<Rightarrow> string \<Rightarrow> string list" where
  "virtiofsd_args sock dir = [''virtiofsd'', ''--socket-path'', sock, ''--shared-dir'', dir, ''--sandbox'', ''none'', ''--cache'', ''auto'']"

definition virtiofsd_child :: "os \<Rightarrow> string \<Rightarrow> string \<Rightarrow> machine \<Rightarrow> log \<Rightarrow> log" where
  "virtiofsd_child w sock dir m tr =
     (let tr1 = tr @ map Close (filter (\<lambda>fd. 0 \<le> fd) [kvm_fd m, vm_fd m, vcpu_fd m, ram_memfd m]) @ [Setenv ''RUST_LOG'' ''error''];
          c = Exec ''/usr/libexec/virtiofsd'' (virtiofsd_args sock dir)
      in if os_ret w tr1 c < 0 then tr1 @ [c, Exit 1] else tr1 @ [c])"

definition start_virtiofsd :: "os \<Rightarrow> u64 \<Rightarrow> string \<Rightarrow> machine \<Rightarrow> log \<Rightarrow> (proc \<times> machine \<times> log) option" where
  "start_virtiofsd w hva dir m tr =
     (let sock = cut_to 256 (''/tmp/vmtainer-vhost-'' @ show_dec (nat (os_ret w tr Getpid)) @ ''.sock'');
          tr1 = tr @ [Getpid, Unlink sock, Unlink (cut_to 270 (sock @ ''.pid''))]; pid = os_ret w tr1 Fork; m1 = m\<lparr>virtiofsd_pid := pid\<rparr>;
          tr2 = tr1 @ [Fork]
      in if pid < 0 then Some (Done False, m1, tr2)
         else if pid = 0 then Some (Child, m1, virtiofsd_child w sock dir m1 tr2)
         else (case vu_connect w (fs (vm m)) tr2 of
                 None \<Rightarrow> None
               | Some (ok, d1, tr3) \<Rightarrow>
                   (if \<not> ok then Some (Done False, m1\<lparr>vm := (vm m)\<lparr>fs := d1\<rparr>\<rparr>, tr3)
                    else (let (ok, d2, tr4) = vu_early_init w hva (of_nat (ram_bytes (ram (vm m)))) (ram_memfd m) d1 tr3
                          in if \<not> ok then Some (Done False, m1\<lparr>vm := (vm m)\<lparr>fs := d2\<rparr>\<rparr>, tr4)
                             else Some (Done True, m1\<lparr>vm := (vm m)\<lparr>fs := fs_set_config d2\<rparr>\<rparr>, tr4)))))"

section \<open>Destruction\<close>

text \<open>
  The destructor is the only caller of \<open>cleanup\<close>, so what counts of it is the calls it makes.  The member
  \<open>vhost_fd_\<close>, which nothing ever opens, is left out.
\<close>

definition close_if :: "int \<Rightarrow> log" where
  "close_if fd = (if 0 \<le> fd then [Close fd] else [])"

definition close_queues :: "virtqueue list \<Rightarrow> log" where
  "close_queues qs = concat (map (\<lambda>q. close_if (kick_fd q) @ close_if (call_fd q)) qs)"

definition stop_net :: "net_dev \<Rightarrow> log" where
  "stop_net d =
     (if 0 \<le> net_wakeup_fd d
      then [Eventfd_write (net_wakeup_fd d)] @ (if net_thread_running d then [Thread_join Net_thread] else []) @ [Close (net_wakeup_fd d)]
      else []) @ close_if (tap_fd d) @ close_queues (net_vqs d)"

definition stop_irq :: "fs_dev \<Rightarrow> log" where
  "stop_irq d =
     (if irq_thread_running d
      then (if 0 \<le> irq_wakeup_fd d then [Eventfd_write (irq_wakeup_fd d)] else []) @ [Thread_join Irq_thread] else []) @
     close_if (irq_wakeup_fd d)"

definition stop_uffd :: "uffd_state \<Rightarrow> log" where
  "stop_uffd u =
     (if uffd_running u
      then (if 0 \<le> uffd_wakeup_fd u then [Eventfd_write (uffd_wakeup_fd u)] else []) @ [Thread_join Uffd_thread] else []) @
     close_if (uffd_wakeup_fd u) @ close_if (uffd u)"

definition cleanup :: "machine \<Rightarrow> log" where
  "cleanup m =
     (let v = vm m; d = fs v
      in stop_net (net v) @ stop_irq d @ stop_uffd (ufd v) @
         (if 0 < snap_mmap_sz v then [Munmap (snap_mmap_sz v)] else []) @ close_if (snap_fd v) @
         (if kvm_run_set m then [Munmap (run_mmap_sz m)] else []) @
         close_if (vcpu_fd m) @ close_if (vm_fd m) @ close_if (kvm_fd m) @
         (if ram_mapped m then [Munmap (ram_bytes (ram v))] else []) @ close_if (ram_memfd m) @
         close_if (vu_sock d) @ close_if (vu_backend_sock d) @ close_queues (vqs d) @
         (if 0 < virtiofsd_pid m then [Kill (virtiofsd_pid m), Waitpid (virtiofsd_pid m)] else []))"

section \<open>Descriptors\<close>

text \<open>The descriptors that a call opens, those that a log opens and closes, and those that a machine holds.\<close>

fun opens :: "os \<Rightarrow> log \<Rightarrow> host_call \<Rightarrow> int list" where
  "opens w t Socketpair = (if os_ret w t Socketpair = 0 then [fst (os_pair w t Socketpair), snd (os_pair w t Socketpair)] else [])"
| "opens w t c =
     (if c \<in> {Open_kvm, Create_vm, Create_vcpu, Memfd_create True, Memfd_create False, Uffd_open, Eventfd, Socket_unix, Open_tun}
      then [os_ret w t c] else [])"

fun closes :: "host_call \<Rightarrow> int list" where
  "closes (Close fd) = [fd]"
| "closes _ = []"

definition valid_fds :: "int list \<Rightarrow> int multiset" where
  "valid_fds fds = mset (filter (\<lambda>fd. 0 \<le> fd) fds)"

fun opened :: "os \<Rightarrow> log \<Rightarrow> log \<Rightarrow> int multiset" where
  "opened w pre [] = {#}"
| "opened w pre (c # cs) = valid_fds (opens w pre c) + opened w (pre @ [c]) cs"

definition closed :: "log \<Rightarrow> int multiset" where
  "closed cs = valid_fds (concat (map closes cs))"

definition queue_fds :: "virtqueue list \<Rightarrow> int list" where
  "queue_fds qs = concat (map (\<lambda>q. [kick_fd q, call_fd q]) qs)"

definition net_fds :: "net_dev \<Rightarrow> int list" where
  "net_fds d = [net_wakeup_fd d, tap_fd d] @ queue_fds (net_vqs d)"

definition fs_fds :: "fs_dev \<Rightarrow> int list" where
  "fs_fds d = [irq_wakeup_fd d, vu_sock d, vu_backend_sock d] @ queue_fds (vqs d)"

definition uffd_fds :: "uffd_state \<Rightarrow> int list" where
  "uffd_fds u = [uffd_wakeup_fd u, uffd u]"

definition held :: "machine \<Rightarrow> int multiset" where
  "held m = valid_fds (net_fds (net (vm m)) @ fs_fds (fs (vm m)) @ uffd_fds (ufd (vm m)) @
     [snap_fd (vm m), vcpu_fd m, vm_fd m, kvm_fd m, ram_memfd m])"

text \<open>Every descriptor that has been opened is either closed or held by the machine.\<close>

definition accounted :: "os \<Rightarrow> machine \<Rightarrow> log \<Rightarrow> bool" where
  "accounted w m tr \<longleftrightarrow> opened w [] tr = closed tr + held m"

lemma valid_fds_simps [simp]:
  "valid_fds [] = {#}" "valid_fds (fd # fds) = (if 0 \<le> fd then {#fd#} else {#}) + valid_fds fds"
  "valid_fds (xs @ ys) = valid_fds xs + valid_fds ys"
  by (simp_all add: valid_fds_def)

lemma opened_append [simp]: "opened w pre (xs @ ys) = opened w pre xs + opened w (pre @ xs) ys"
  by (induction xs arbitrary: pre) (simp_all add: ac_simps)

lemma closed_simps [simp]: "closed [] = {#}" "closed (c # cs) = valid_fds (closes c) + closed cs" "closed (xs @ ys) = closed xs + closed ys"
  by (simp_all add: closed_def)

text \<open>Closing.\<close>

lemma closed_close_if: "closed (close_if fd) = valid_fds [fd]" "opened w pre (close_if fd) = {#}"
  by (simp_all add: close_if_def)

lemma closed_queues: "closed (close_queues qs) = valid_fds (queue_fds qs)"
  by (induction qs) (simp_all add: close_queues_def queue_fds_def closed_close_if ac_simps)

lemma opened_close: "(\<forall>c \<in> set cs. \<forall>t. opens w t c = []) \<Longrightarrow> opened w pre cs = {#}"
  by (induction cs arbitrary: pre) auto

lemma cleanup_opens_nothing: "opened w pre (cleanup m) = {#}"
  by (rule opened_close)
     (auto simp: cleanup_def stop_net_def stop_irq_def stop_uffd_def close_queues_def close_if_def Let_def split: if_splits)

lemma closed_cleanup: "closed (cleanup m) = held m"
  by (simp add: cleanup_def Let_def stop_net_def stop_irq_def stop_uffd_def closed_close_if closed_queues held_def net_fds_def fs_fds_def uffd_fds_def ac_simps)

text \<open>Opening.\<close>

lemma accounted_new: "accounted w (new_machine mb) []"
  by (simp add: accounted_def held_def new_machine_def new_vmm_def net_fds_def fs_fds_def uffd_fds_def init_net_dev_def init_fs_dev_def
      init_uffd_state_def queue_fds_def empty_vq_def NUM_QUEUES_def NET_NUM_QUEUES_def numeral_2_eq_2)

text \<open>
  What a step promises: from a machine and log with \<open>P\<close> it goes on with \<open>Q\<close> or fails with \<open>R\<close>.
\<close>

definition step_ok :: "(machine \<Rightarrow> log \<Rightarrow> bool) \<Rightarrow> step \<Rightarrow> (machine \<Rightarrow> log \<Rightarrow> bool) \<Rightarrow> (machine \<Rightarrow> log \<Rightarrow> bool) \<Rightarrow> bool" where
  "step_ok P f Q R \<longleftrightarrow> (\<forall>m tr ok m' tr'. P m tr \<longrightarrow> f m tr = (ok, m', tr') \<longrightarrow> (if ok then Q m' tr' else R m' tr'))"

lemma step_okI: "(\<And>m tr. P m tr \<Longrightarrow> case f m tr of (ok, m', tr') \<Rightarrow> if ok then Q m' tr' else R m' tr') \<Longrightarrow> step_ok P f Q R"
  by (fastforce simp: step_ok_def)

lemma step_ok_then:
  assumes "step_ok P f Q R" and "step_ok Q g S R"
  shows "step_ok P (\<lambda>m tr. and_then (f m tr) g) S R"
proof (rule step_okI)
  fix m tr assume "P m tr"
  obtain ok m' tr' where f: "f m tr = (ok, m', tr')" using prod_cases3 by blast
  with assms(1) \<open>P m tr\<close> have q: "if ok then Q m' tr' else R m' tr'" by (auto simp: step_ok_def)
  show "case and_then (f m tr) g of (ok, m', tr') \<Rightarrow> if ok then S m' tr' else R m' tr'"
  proof (cases ok)
    case True
    with q assms(2) f show ?thesis by (auto simp: and_then_def step_ok_def split: prod.splits)
  next
    case False
    with q f show ?thesis by (simp add: and_then_def)
  qed
qed

text \<open>Accounting with some descriptors still unset.\<close>

definition unset :: "(machine \<Rightarrow> int) list \<Rightarrow> machine \<Rightarrow> bool" where
  "unset ps m \<longleftrightarrow> (\<forall>p \<in> set ps. p m < 0)"

abbreviation uffd_of :: "machine \<Rightarrow> int" where "uffd_of m \<equiv> uffd (ufd (vm m))"
abbreviation uffd_wakeup_of :: "machine \<Rightarrow> int" where "uffd_wakeup_of m \<equiv> uffd_wakeup_fd (ufd (vm m))"

abbreviation sock_of :: "machine \<Rightarrow> int" where "sock_of m \<equiv> vu_sock (fs (vm m))"
abbreviation backend_of :: "machine \<Rightarrow> int" where "backend_of m \<equiv> vu_backend_sock (fs (vm m))"

definition acc :: "os \<Rightarrow> (machine \<Rightarrow> int) list \<Rightarrow> machine \<Rightarrow> log \<Rightarrow> bool" where
  "acc w ps m tr \<longleftrightarrow> accounted w m tr \<and> unset ps m"

lemmas acc_simps = acc_def accounted_def unset_def held_def uffd_fds_def Let_def

lemma init_steps:
  "step_ok (acc w [kvm_fd, vm_fd, vcpu_fd, ram_memfd, uffd_of, uffd_wakeup_of, sock_of, backend_of]) (open_kvm w) (acc w [vm_fd, vcpu_fd, ram_memfd, uffd_of, uffd_wakeup_of, sock_of, backend_of]) (accounted w)"
  "step_ok (acc w [vm_fd, vcpu_fd, ram_memfd, uffd_of, uffd_wakeup_of, sock_of, backend_of]) (query_msr_list w) (acc w [vm_fd, vcpu_fd, ram_memfd, uffd_of, uffd_wakeup_of, sock_of, backend_of]) (accounted w)"
  "step_ok (acc w [vm_fd, vcpu_fd, ram_memfd, uffd_of, uffd_wakeup_of, sock_of, backend_of]) (create_vm w) (acc w [vcpu_fd, ram_memfd, uffd_of, uffd_wakeup_of, sock_of, backend_of]) (accounted w)"
  "step_ok (acc w [vcpu_fd, ram_memfd, uffd_of, uffd_wakeup_of, sock_of, backend_of]) (memfd_huge w) (acc w [vcpu_fd, uffd_of, uffd_wakeup_of, sock_of, backend_of]) (accounted w)"
  "step_ok (acc w [vcpu_fd, uffd_of, uffd_wakeup_of, sock_of, backend_of]) (memfd_plain w) (acc w [vcpu_fd, uffd_of, uffd_wakeup_of, sock_of, backend_of]) (accounted w)"
  "step_ok (acc w [vcpu_fd, uffd_of, uffd_wakeup_of, sock_of, backend_of]) (map_ram w z) (acc w [vcpu_fd, uffd_of, uffd_wakeup_of, sock_of, backend_of]) (accounted w)"
  "step_ok (acc w [vcpu_fd, uffd_of, uffd_wakeup_of, sock_of, backend_of]) (try_uffd w) (acc w [vcpu_fd, sock_of, backend_of]) (accounted w)"
  "step_ok (acc w [vcpu_fd, sock_of, backend_of]) (\<lambda>m tr. let (ok, tr1) = set_memslot w a b (n m) tr in (ok, m, tr1)) (acc w [vcpu_fd, sock_of, backend_of]) (accounted w)"
  "step_ok (acc w [vcpu_fd, sock_of, backend_of]) (create_vcpu w) (acc w [sock_of, backend_of]) (accounted w)"
  "step_ok (acc w [sock_of, backend_of]) (get_cpuid w) (acc w [sock_of, backend_of]) (accounted w)"
  by (rule step_okI; simp add: acc_simps open_kvm_def query_msr_list_def create_vm_def memfd_huge_def memfd_plain_def map_ram_def
      try_uffd_def set_memslot_def create_vcpu_def get_cpuid_def init_uffd_def ac_simps)+

lemma init_accounted: "step_ok (acc w [kvm_fd, vm_fd, vcpu_fd, ram_memfd, uffd_of, uffd_wakeup_of, sock_of, backend_of]) (init w z) (acc w [sock_of, backend_of]) (accounted w)"
  using step_ok_then [OF step_ok_then [OF step_ok_then [OF step_ok_then [OF step_ok_then [OF step_ok_then [OF step_ok_then [OF step_ok_then [OF step_ok_then [OF init_steps(1) [of w] init_steps(2) [of w]] init_steps(3) [of w]] init_steps(4) [of w]] init_steps(5) [of w]] init_steps(6) [of w z]] init_steps(7) [of w]] init_steps(8) [of w 0 0 "\<lambda>m. ram_bytes (ram (vm m))"]] init_steps(9) [of w]] init_steps(10) [of w]]
  unfolding init_def [abs_def] .

text \<open>A stretch of a log between two sets of held descriptors.\<close>

definition moves :: "os \<Rightarrow> log \<Rightarrow> int multiset \<Rightarrow> log \<Rightarrow> int multiset \<Rightarrow> bool" where
  "moves w tr X tr' Y \<longleftrightarrow> (\<exists>cs. tr' = tr @ cs \<and> opened w tr cs + X = closed cs + Y)"

lemma moves_refl [simp]: "moves w tr X tr X"
  by (simp add: moves_def)

lemma moves_trans:
  assumes "moves w tr X tr1 Y" and "moves w tr1 Y tr2 Z"
  shows "moves w tr X tr2 Z"
proof -
  from assms obtain c1 c2 where c: "tr1 = tr @ c1" "opened w tr c1 + X = closed c1 + Y" "tr2 = tr1 @ c2" "opened w tr1 c2 + Y = closed c2 + Z"
    by (auto simp: moves_def)
  have "opened w tr (c1 @ c2) + X = (opened w tr c1 + X) + opened w tr1 c2" using c(1) by (simp add: ac_simps)
  also have "\<dots> = closed c1 + (opened w tr1 c2 + Y)" using c(2) by (simp add: ac_simps)
  also have "\<dots> = closed (c1 @ c2) + Z" using c(4) by (simp add: ac_simps)
  finally show ?thesis using c(1,3) unfolding moves_def by (intro exI [of _ "c1 @ c2"]) simp
qed

lemma moves_call: "opened w tr [c] = {#} \<Longrightarrow> closed [c] = {#} \<Longrightarrow> moves w tr X (tr @ [c]) X"
  by (simp add: moves_def)

lemma accounted_moves:
  assumes "accounted w m tr" and "moves w tr X tr' Y" and "held m = X + H" and "held m' = Y + H"
  shows "accounted w m' tr'"
proof -
  from assms(2) obtain cs where c: "tr' = tr @ cs" "opened w tr cs + X = closed cs + Y" by (auto simp: moves_def)
  have "opened w [] tr' = closed tr + (opened w tr cs + X) + H" using assms(1,3) c(1) by (simp add: accounted_def ac_simps)
  also have "\<dots> = closed tr' + held m'" using assms(4) c by (simp add: ac_simps)
  finally show ?thesis by (simp add: accounted_def)
qed

text \<open>The handshake with the file system process.\<close>

lemma vu_connect_loop_log:
  assumes "vu_connect_loop w s us tr = Some r"
  shows "\<exists>cs. snd r = tr @ cs \<and> opened w tr cs = {#} \<and> closed cs = {#}"
proof (rule vu_connect_loop.raw_induct [where P = "\<lambda>w s us tr r. \<exists>cs. snd r = tr @ cs \<and> opened w tr cs = {#} \<and> closed cs = {#}", OF _ assms])
  fix loop :: "os \<Rightarrow> int \<Rightarrow> int \<Rightarrow> log \<Rightarrow> (bool \<times> log) option" and w s us tr r
  assume IH: "\<And>w s us tr r. loop w s us tr = Some r \<Longrightarrow> \<exists>cs. snd r = tr @ cs \<and> opened w tr cs = {#} \<and> closed cs = {#}"
    and eq: "(if us \<le> 50000
        then if os_ret w tr (Connect s) = 0 then Some (True, tr @ [Connect s])
             else loop w s (min (us * 2) 50000) (tr @ [Connect s, Usleep us])
        else Some (False, tr)) = Some r"
  show "\<exists>cs. snd r = tr @ cs \<and> opened w tr cs = {#} \<and> closed cs = {#}"
  proof (cases "us \<le> 50000 \<and> os_ret w tr (Connect s) \<noteq> 0")
    case True
    with eq have "loop w s (min (us * 2) 50000) (tr @ [Connect s, Usleep us]) = Some r" by simp
    from IH [OF this] obtain cs where "snd r = (tr @ [Connect s, Usleep us]) @ cs" "opened w (tr @ [Connect s, Usleep us]) cs = {#}" "closed cs = {#}" by blast
    then show ?thesis by (intro exI [of _ "[Connect s, Usleep us] @ cs"]) simp
  next
    case False
    with eq show ?thesis by (cases "us \<le> 50000") auto
  qed
qed

lemma vu_connect_moves:
  assumes "vu_connect w d tr = Some (ok, d', tr')" and "vu_sock d < 0"
  shows "moves w tr (valid_fds (fs_fds d)) tr' (valid_fds (fs_fds d'))" and "vu_backend_sock d' = vu_backend_sock d"
proof -
  let ?s = "os_ret w tr Socket_unix" and ?t = "tr @ [Socket_unix]"
  have 1: "moves w tr (valid_fds (fs_fds d)) ?t (valid_fds (fs_fds (d\<lparr>vu_sock := ?s\<rparr>)))"
    using assms(2) by (simp add: moves_def fs_fds_def)
  show "moves w tr (valid_fds (fs_fds d)) tr' (valid_fds (fs_fds d'))"
  proof (cases "?s < 0")
    case True
    with assms(1) 1 show ?thesis by (simp add: vu_connect_def)
  next
    case False
    with assms(1) obtain r where r: "vu_connect_loop w ?s 50 ?t = Some r" "d' = d\<lparr>vu_sock := ?s\<rparr>" "tr' = snd r"
      by (auto simp: vu_connect_def Let_def)
    from vu_connect_loop_log [OF r(1)] have "moves w ?t X (snd r) X" for X by (auto simp: moves_def)
    with 1 r(2,3) show ?thesis using moves_trans by blast
  qed
  show "vu_backend_sock d' = vu_backend_sock d" using assms(1) by (auto simp: vu_connect_def Let_def split: if_splits)
qed

lemma vu_send_moves: "vu_send w s q p fds tr = (ok, tr') \<Longrightarrow> moves w tr X tr' X"
  by (auto simp: vu_send_def Let_def intro: moves_call)

lemma vu_transact_moves:
  assumes "vu_transact w s q p fds tr = (r, tr')"
  shows "moves w tr X tr' X"
proof -
  obtain b t1 where 1: "vu_send w s q p fds tr = (b, t1)" by fastforce
  have "moves w t1 X (t1 @ [Recvmsg s]) X" by (rule moves_call) simp_all
  with vu_send_moves [OF 1, of X] have "moves w tr X t1 X" "moves w tr X (t1 @ [Recvmsg s]) X" using moves_trans by blast+
  then show ?thesis using assms 1 by (cases b) (auto simp: vu_transact_def vu_recv_def Let_def)
qed

lemma vu_backend_moves:
  assumes "vu_backend_channel w proto d tr = (d', tr')" and "vu_backend_sock d < 0"
  shows "moves w tr (valid_fds (fs_fds d)) tr' (valid_fds (fs_fds d'))"
  using assms by (auto simp: vu_backend_channel_def vu_send_def moves_def fs_fds_def Let_def split: if_splits)

lemma vu_protocol_moves:
  assumes "vu_protocol_features w d tr = (ok, proto, d', tr')"
  shows "moves w tr X tr' X" and "fs_fds d' = fs_fds d" and "vu_backend_sock d' = vu_backend_sock d"
  using assms vu_transact_moves vu_send_moves moves_trans
  by (fastforce simp: vu_protocol_features_def fs_fds_def Let_def split: prod.splits option.splits)+

lemma vu_share_moves:
  assumes "vu_share_memory w hva n mfd proto d tr = (ok, d', tr')" and "vu_backend_sock d < 0"
  shows "moves w tr (valid_fds (fs_fds d)) tr' (valid_fds (fs_fds d'))"
proof -
  obtain b1 t1 where 1: "vu_send w (vu_sock d) VU_SET_OWNER [] [] tr = (b1, t1)" by fastforce
  obtain b2 t2 where 2: "vu_send w (vu_sock d) VU_SET_MEM_TABLE (mem_table_payload n hva) [mfd] t1 = (b2, t2)" by fastforce
  note m1 = vu_send_moves [OF 1] and m2 = vu_send_moves [OF 2]
  show ?thesis
  proof (cases "b1 \<and> b2")
    case True
    with assms(1) 1 2 have "vu_backend_channel w proto d t2 = (d', tr')" by (simp add: vu_share_memory_def)
    from vu_backend_moves [OF this assms(2)] show ?thesis using m1 m2 moves_trans by blast
  next
    case False
    with assms(1) 1 2 show ?thesis using m1 moves_trans [OF m1 m2] by (cases b1) (auto simp: vu_share_memory_def)
  qed
qed

lemma vu_early_init_moves:
  assumes "vu_early_init w hva n mfd d tr = (ok, d', tr')" and "vu_backend_sock d < 0"
  shows "moves w tr (valid_fds (fs_fds d)) tr' (valid_fds (fs_fds d'))"
proof -
  obtain r t1 where 1: "vu_transact w (vu_sock d) VU_GET_FEATURES [] [] tr = (r, t1)" by fastforce
  note m1 = vu_transact_moves [OF 1]
  show ?thesis
  proof (cases r)
    case None
    with assms(1) 1 m1 show ?thesis by (simp add: vu_early_init_def)
  next
    case (Some reply)
    obtain b2 t2 where 2: "vu_send w (vu_sock d) VU_SET_FEATURES (u64_payload (reply_u64 reply)) [] t1 = (b2, t2)" by fastforce
    note m2 = moves_trans [OF m1 vu_send_moves [OF 2]]
    let ?d = "d\<lparr>vu_features := reply_u64 reply OR VIRT_F_VERSION_1\<rparr>"
    obtain b3 proto d3 t3 where 3: "vu_protocol_features w ?d t2 = (b3, proto, d3, t3)" using prod_cases4 by blast
    note m3 = moves_trans [OF m2 vu_protocol_moves(1) [OF 3]] and k3 = vu_protocol_moves(2,3) [OF 3]
    have f: "fs_fds d3 = fs_fds d" "vu_backend_sock d3 < 0" using k3 assms(2) by (simp_all add: fs_fds_def)
    show ?thesis
    proof (cases "b2 \<and> b3")
      case True
      with assms(1) 1 2 3 Some have "vu_share_memory w hva n mfd proto d3 t3 = (ok, d', tr')" by (simp add: vu_early_init_def)
      from vu_share_moves [OF this f(2)] show ?thesis using m3 f(1) moves_trans by metis
    next
      case False
      with assms(1) 1 2 3 Some have "(\<not> b2 \<and> tr' = t2 \<and> fs_fds d' = fs_fds d) \<or> (b2 \<and> tr' = t3 \<and> d' = d3)"
        by (cases b2) (auto simp: vu_early_init_def fs_fds_def)
      then show ?thesis using m2 m3 f(1) by auto
    qed
  qed
qed

lemma start_virtiofsd_accounted:
  assumes "acc w [sock_of, backend_of] m tr" and "start_virtiofsd w hva dir m tr = Some (Done b, m', tr')"
  shows "accounted w m' tr'"
proof -
  let ?sock = "cut_to 256 (''/tmp/vmtainer-vhost-'' @ show_dec (nat (os_ret w tr Getpid)) @ ''.sock'')"
  let ?t0 = "tr @ [Getpid, Unlink ?sock, Unlink (cut_to 270 (?sock @ ''.pid''))]"
  let ?pid = "os_ret w ?t0 Fork" and ?t1 = "?t0 @ [Fork]" and ?d = "fs (vm m)"
  have a: "accounted w m ?t1" "vu_sock ?d < 0" "vu_backend_sock ?d < 0" using assms(1) by (simp_all add: acc_def accounted_def unset_def)
  note run = assms(2) [unfolded start_virtiofsd_def Let_def]
  obtain H where H: "\<And>m1 d. m1 = m\<lparr>virtiofsd_pid := ?pid, vm := (vm m)\<lparr>fs := d\<rparr>\<rparr> \<Longrightarrow> held m1 = valid_fds (fs_fds d) + H"
    "held m = valid_fds (fs_fds ?d) + H" by (simp add: held_def ac_simps)
  show ?thesis
  proof (cases "0 < ?pid")
    case False
    with run have "m' = m\<lparr>virtiofsd_pid := ?pid\<rparr>" "tr' = ?t1" by (auto split: if_splits)
    with a(1) show ?thesis by (simp add: accounted_def held_def)
  next
    case True
    with run obtain ok d1 t2 where c: "vu_connect w ?d ?t1 = Some (ok, d1, t2)" by (auto split: if_splits option.splits)
    note m1 = vu_connect_moves [OF c a(2)]
    obtain ok2 d2 t3 where e: "vu_early_init w hva (of_nat (ram_bytes (ram (vm m)))) (ram_memfd m) d1 t2 = (ok2, d2, t3)" using prod_cases3 by blast
    have m2: "moves w ?t1 (valid_fds (fs_fds ?d)) t3 (valid_fds (fs_fds d2))"
      using moves_trans [OF m1(1) vu_early_init_moves [OF e]] m1(2) a(3) by simp
    from run True c e have "\<exists>d. m' = m\<lparr>virtiofsd_pid := ?pid, vm := (vm m)\<lparr>fs := d\<rparr>\<rparr> \<and>
        (tr' = t2 \<and> fs_fds d = fs_fds d1 \<or> tr' = t3 \<and> fs_fds d = fs_fds d2)"
      by (auto simp: fs_fds_def fs_set_config_def split: if_splits)
    then obtain d where d: "m' = m\<lparr>virtiofsd_pid := ?pid, vm := (vm m)\<lparr>fs := d\<rparr>\<rparr>"
      "moves w ?t1 (valid_fds (fs_fds ?d)) tr' (valid_fds (fs_fds d))" using m1(1) m2 by auto
    from accounted_moves [OF a(1) d(2) H(2) H(1) [OF d(1)]] show ?thesis .
  qed
qed

text \<open>
  Claim C24.  No descriptor is lost or closed twice.  Whatever the options and wherever \<open>init\<close> fails or stops, the destructor
  closes exactly the descriptors that have been opened and not yet closed; the same holds after \<open>start_virtiofsd\<close>,
  whether the connection to the file system process succeeds or not.
\<close>

theorem descriptors_closed:
  assumes "init w z (set_hugetlb h (set_uffd u (set_midway_uffd mw (new_machine mb)))) [] = (ok, m, tr)"
  shows "opened w [] (tr @ cleanup m) = closed (tr @ cleanup m) \<and>
    (ok \<and> start_virtiofsd w hva dir m tr = Some (Done b, m', tr') \<longrightarrow>
      opened w [] (tr' @ cleanup m') = closed (tr' @ cleanup m'))"
proof -
  let ?m = "set_hugetlb h (set_uffd u (set_midway_uffd mw (new_machine mb)))"
  have "acc w [kvm_fd, vm_fd, vcpu_fd, ram_memfd, uffd_of, uffd_wakeup_of, sock_of, backend_of] ?m []"
    using accounted_new [of w mb]
    by (simp add: acc_def accounted_def held_def unset_def set_hugetlb_def set_uffd_def set_midway_uffd_def new_machine_def new_vmm_def
        init_fs_dev_def init_uffd_state_def uffd_fds_def)
  with init_accounted [of w z] assms have i: "if ok then acc w [sock_of, backend_of] m tr else accounted w m tr" by (auto simp: step_ok_def)
  have done_: "opened w [] (t @ cleanup n) = closed (t @ cleanup n)" if "accounted w n t" for n t
    using that by (simp add: accounted_def cleanup_opens_nothing closed_cleanup)
  from i have "accounted w m tr" by (auto simp: acc_def split: if_splits)
  moreover have "accounted w m' tr'" if "ok" "start_virtiofsd w hva dir m tr = Some (Done b, m', tr')"
    using start_virtiofsd_accounted [OF _ that(2)] i that(1) by simp
  ultimately show ?thesis using done_ by blast
qed

text \<open>A host on which every step of \<open>init\<close> succeeds.\<close>

definition kvm_os :: os where
  "kvm_os = \<lparr>os_ret = (\<lambda>t c. case c of Kvm_api_version \<Rightarrow> 12 | Connect _ \<Rightarrow> 0 | _ \<Rightarrow> 3 + int (length t)),
     os_data = (\<lambda>_ _. []), os_pair = (\<lambda>_ _. (1, 1))\<rparr>"

lemma no_fds: "valid_fds (net_fds init_net_dev) = {#}" "valid_fds (fs_fds init_fs_dev) = {#}"
  by (simp_all add: net_fds_def fs_fds_def init_net_dev_def init_fs_dev_def queue_fds_def empty_vq_def NUM_QUEUES_def NET_NUM_QUEUES_def numeral_2_eq_2 valid_fds_def)

lemma init_kvm_os:
  "\<exists>m tr. init kvm_os False (set_hugetlb False (set_uffd True (set_midway_uffd False (new_machine 64)))) [] = (True, m, tr) \<and>
     closed (tr @ cleanup m) = {#3, 6, 9, 12, 15, 17#}"
  by (simp add: init_def and_then_def open_kvm_def query_msr_list_def create_vm_def memfd_huge_def memfd_plain_def map_ram_def
      try_uffd_def set_memslot_def create_vcpu_def get_cpuid_def init_uffd_def kvm_os_def set_hugetlb_def set_uffd_def set_midway_uffd_def
      new_machine_def new_vmm_def init_uffd_state_def closed_cleanup held_def uffd_fds_def no_fds Let_def)

theorem descriptors_closed_witness:
  "\<exists>m tr. init kvm_os False (set_hugetlb False (set_uffd True (set_midway_uffd False (new_machine 64)))) [] = (True, m, tr) \<and>
     closed (tr @ cleanup m) = {#3, 6, 9, 12, 15, 17#} \<and> opened kvm_os [] (tr @ cleanup m) = closed (tr @ cleanup m)"
proof -
  let ?m = "set_hugetlb False (set_uffd True (set_midway_uffd False (new_machine 64)))"
  obtain m tr where r: "init kvm_os False ?m [] = (True, m, tr)" "closed (tr @ cleanup m) = {#3, 6, 9, 12, 15, 17#}"
    using init_kvm_os by blast
  from descriptors_closed [OF r(1)] r show ?thesis by blast
qed

text \<open>What the steps leave of the machine.\<close>

definition made :: "nat \<Rightarrow> bool \<Rightarrow> machine \<Rightarrow> log \<Rightarrow> bool" where
  "made mb eager m tr \<longleftrightarrow> (eager \<longrightarrow> \<not> use_uffd (ufd (vm m))) \<and> ram (vm m) = fresh_ram (mb * 2 ^ 20 mod 2 ^ 64) \<and> ram_mb (vm m) = mb \<and> fs (vm m) = init_fs_dev \<and> net (vm m) = init_net_dev \<and>
     length (msr_list (vm m)) \<le> MAX_MSRS"

definition made_cpuid :: "os \<Rightarrow> machine \<Rightarrow> bool" where
  "made_cpuid w m \<longleftrightarrow> (\<exists>t. cpuid_nent (vm m) = le_val (take 4 (fixed (8 + CPUID_CAPACITY * CPUID_ENTRY) (os_data w t Supported_cpuid)))) \<and>
     length (vm_cpuid (vm m)) = CPUID_CAPACITY * CPUID_ENTRY"

lemma made_steps:
  "step_ok (made mb e) (open_kvm w) (made mb e) (\<lambda>_ _. True)" "step_ok (made mb e) (query_msr_list w) (made mb e) (\<lambda>_ _. True)"
  "step_ok (made mb e) (create_vm w) (made mb e) (\<lambda>_ _. True)" "step_ok (made mb e) (memfd_huge w) (made mb e) (\<lambda>_ _. True)"
  "step_ok (made mb e) (memfd_plain w) (made mb e) (\<lambda>_ _. True)" "step_ok (made mb e) (map_ram w z) (made mb e) (\<lambda>_ _. True)"
  "step_ok (made mb e) (try_uffd w) (made mb e) (\<lambda>_ _. True)"
  "step_ok (made mb e) (\<lambda>m tr. let (ok, tr1) = set_memslot w a b (n m) tr in (ok, m, tr1)) (made mb e) (\<lambda>_ _. True)"
  "step_ok (made mb e) (create_vcpu w) (made mb e) (\<lambda>_ _. True)"
  by (rule step_okI; auto simp: made_def open_kvm_def query_msr_list_def create_vm_def memfd_huge_def memfd_plain_def map_ram_def
      try_uffd_def set_memslot_def create_vcpu_def init_uffd_def Let_def fresh_ram_def)+

lemma made_get_cpuid: "step_ok (made mb e) (get_cpuid w) (\<lambda>m tr. made mb e m tr \<and> made_cpuid w m) (\<lambda>_ _. True)"
  by (rule step_okI) (auto simp: made_def made_cpuid_def get_cpuid_def Let_def fixed_def)

lemma init_made: "step_ok (made mb e) (init w z) (\<lambda>m tr. made mb e m tr \<and> made_cpuid w m) (\<lambda>_ _. True)"
  using step_ok_then [OF step_ok_then [OF step_ok_then [OF step_ok_then [OF step_ok_then [OF step_ok_then [OF step_ok_then [OF step_ok_then [OF step_ok_then [OF made_steps(1) [of mb e w] made_steps(2) [of mb e w]] made_steps(3) [of mb e w]] made_steps(4) [of mb e w]] made_steps(5) [of mb e w]] made_steps(6) [of mb e w z]] made_steps(7) [of mb e w]] made_steps(8) [of mb e w 0 0 "\<lambda>m. ram_bytes (ram (vm m))"]] made_steps(9) [of mb e w]] made_get_cpuid [of mb e w]]
  unfolding init_def [abs_def] .

lemma take_fixed: "k \<le> n \<Longrightarrow> take k (fixed n bs) = fixed k bs"
  by (auto simp: fixed_def min_def take_append)

lemma init_sizes:
  assumes "init w z m0 tr0 = (True, m, tr)" and "made mb e m0 tr0"
    and "\<forall>t. (le_val (take 4 (fixed 4 (os_data w t Supported_cpuid))) :: u32) \<le> of_nat CPUID_CAPACITY"
  shows "made mb e m tr" and "unat (cpuid_nent (vm m)) * CPUID_ENTRY \<le> length (vm_cpuid (vm m))"
proof -
  from init_made [of mb e w z] assms(1,2) have i: "made mb e m tr" "made_cpuid w m" by (auto simp: step_ok_def)
  then obtain t where t: "cpuid_nent (vm m) = le_val (fixed 4 (os_data w t Supported_cpuid))" "length (vm_cpuid (vm m)) = CPUID_CAPACITY * CPUID_ENTRY"
    by (auto simp: made_cpuid_def take_fixed)
  have "unat (cpuid_nent (vm m)) \<le> CPUID_CAPACITY"
    using assms(3) [rule_format, of t] by (simp add: t(1) take_fixed word_le_nat_alt CPUID_CAPACITY_def)
  then show "unat (cpuid_nent (vm m)) * CPUID_ENTRY \<le> length (vm_cpuid (vm m))" by (simp add: t(2))
  show "made mb e m tr" by (rule i)
qed

text \<open>
  Claim C25.  A machine that has been created can be saved.  With between 1 MB and 2 to the 27th MB of RAM and a kernel that reports
  no more CPUID entries than it was offered room for, a successful \<open>init\<close> followed by the set-up of both devices leaves a machine that meets
  the conditions under which saving and restoring are correct: sizes agree, the queues are there, and
  the lists of registers fit the file format.
\<close>

theorem init_machine_ok:
  assumes "init w z (set_hugetlb h (set_uffd u (set_midway_uffd mw (new_machine mb)))) [] = (True, m, tr)"
    and "0 < mb" and "mb < 2 ^ 27" and "length a = 6"
    and "\<forall>t. (le_val (take 4 (fixed 4 (os_data w t Supported_cpuid))) :: u32) \<le> of_nat CPUID_CAPACITY"
  shows "vm_ok ((vm m)\<lparr>fs := fs_set_config (fs (vm m)), net := net_set_config a (net (vm m))\<rparr>) \<and> ram (vm m) = fresh_ram (mb * 2 ^ 20)"
proof -
  let ?m = "set_hugetlb h (set_uffd u (set_midway_uffd mw (new_machine mb)))"
  have "made mb False ?m []" by (simp add: made_def set_hugetlb_def set_uffd_def set_midway_uffd_def new_machine_def new_vmm_def)
  note i = init_sizes [OF assms(1) this assms(5)]
  have r: "mb * 2 ^ 20 mod 2 ^ 64 = mb * 2 ^ 20" using assms(3) by simp
  then show ?thesis using i assms(2-4)
    by (simp add: vm_ok_def made_def fs_set_config_def net_set_config_def init_fs_dev_def init_net_dev_def fresh_ram_def)
qed

theorem init_machine_ok_witness:
  "\<exists>m tr. init kvm_os False (set_hugetlb False (set_uffd True (set_midway_uffd False (new_machine 64)))) [] = (True, m, tr) \<and>
     vm_ok ((vm m)\<lparr>fs := fs_set_config (fs (vm m)), net := net_set_config [0x52, 0x54, 0, 0x12, 0x34, 0x56] (net (vm m))\<rparr>)"
proof -
  obtain m tr where r: "init kvm_os False (set_hugetlb False (set_uffd True (set_midway_uffd False (new_machine 64)))) [] = (True, m, tr)"
    using init_kvm_os by blast
  have "\<forall>t. (le_val (take 4 (fixed 4 (os_data kvm_os t Supported_cpuid))) :: u32) \<le> of_nat CPUID_CAPACITY"
    by (simp add: kvm_os_def fixed_def CPUID_CAPACITY_def eval_nat_numeral)
  with init_machine_ok [OF r, of "[0x52, 0x54, 0, 0x12, 0x34, 0x56]"] r show ?thesis by auto
qed

end
