(* ===== verification/Copies.thy ===== *)
theory Copies
  imports Guest_Ram "HOL-Library.Monad_Syntax"
begin

text \<open>
  Sequences of copies into guest RAM, which the boot loaders of both monitors consist of, and what they leave: a range
  that no later copy meets holds what was copied there.
\<close>

section \<open>Sequences of copies\<close>

text \<open>Copies into guest RAM, in order; \<open>memset\<close> copies a constant.\<close>

fun pokes :: "guest_ram \<Rightarrow> (nat \<times> u8 list) list \<Rightarrow> guest_ram option" where
  "pokes r [] = Some r"
| "pokes r ((a, bs) # ws) = (case ram_put r a bs of None \<Rightarrow> None | Some r1 \<Rightarrow> pokes r1 ws)"

definition filled :: "nat \<Rightarrow> nat \<Rightarrow> nat \<times> u8 list" where
  "filled a n = (a, replicate n 0)"

section \<open>What a sequence of copies leaves\<close>

text \<open>No copy of the list meets the \<open>n\<close> bytes at \<open>b\<close>.\<close>

definition clear_of :: "(nat \<times> u8 list) list \<Rightarrow> nat \<Rightarrow> nat \<Rightarrow> bool" where
  "clear_of ws b n \<longleftrightarrow> list_all (\<lambda>(a, bs). b + n \<le> a \<or> a + length bs \<le> b) ws"

definition fits :: "nat \<Rightarrow> (nat \<times> u8 list) list \<Rightarrow> bool" where
  "fits n ws \<longleftrightarrow> list_all (\<lambda>(a, bs). a + length bs \<le> n) ws"

lemma clear_of_simps [simp]:
  "clear_of [] b n" "clear_of ((a, bs) # ws) b n \<longleftrightarrow> (b + n \<le> a \<or> a + length bs \<le> b) \<and> clear_of ws b n"
  by (simp_all add: clear_of_def)

lemma fits_simps [simp]: "fits n []" "fits n ((a, bs) # ws) \<longleftrightarrow> a + length bs \<le> n \<and> fits n ws"
  by (simp_all add: fits_def)

lemma pokes_append: "pokes r (xs @ ys) = (case pokes r xs of None \<Rightarrow> None | Some r1 \<Rightarrow> pokes r1 ys)"
  by (induction xs arbitrary: r) (auto split: option.splits)

lemma pokes_append_Some: "pokes r (xs @ ys) = Some r' \<longleftrightarrow> (\<exists>r1. pokes r xs = Some r1 \<and> pokes r1 ys = Some r')"
  by (simp add: pokes_append split: option.splits)

lemma pokes_defined: "fits (ram_bytes r) ws \<Longrightarrow> \<exists>r'. pokes r ws = Some r'"
proof (induction ws arbitrary: r)
  case (Cons w ws)
  obtain a bs where w: "w = (a, bs)" by fastforce
  with Cons.prems guest.put_defined [of a bs r] obtain r1 where r1: "ram_put r a bs = Some r1" by auto
  with Cons.prems Cons.IH [of r1] guest.put_size [OF r1] show ?case by (simp add: w)
qed simp

lemma pokes_bytes: "pokes r ws = Some r' \<Longrightarrow> ram_bytes r' = ram_bytes r"
  by (induction ws arbitrary: r) (auto simp: guest.put_size split: option.splits)

lemma pokes_clear: "pokes r ws = Some r' \<Longrightarrow> clear_of ws b n \<Longrightarrow> ram_get r' b n = ram_get r b n"
proof (induction ws arbitrary: r)
  case (Cons w ws)
  obtain a bs where w: "w = (a, bs)" by fastforce
  with Cons.prems obtain r1 where r1: "ram_put r a bs = Some r1" "pokes r1 ws = Some r'" by (auto split: option.splits)
  with Cons.IH [OF r1(2)] guest.get_put_other [OF r1(1), of b n] Cons.prems(2) show ?case by (simp add: w)
qed simp

lemma pokes_last:
  assumes "pokes r (xs @ (a, bs) # ys) = Some r'" and "clear_of ys a (length bs)"
  shows "ram_get r' a (length bs) = Some bs"
proof -
  from assms(1) obtain r1 r2 where "ram_put r1 a bs = Some r2" "pokes r2 ys = Some r'"
    by (auto simp: pokes_append split: option.splits)
  then show ?thesis using pokes_clear assms(2) guest.get_put_same by metis
qed

lemma ram_get_sub:
  assumes "ram_get r a n = Some bs" and "a \<le> b" and "b + m \<le> a + n"
  shows "ram_get r b m = Some (take m (drop (b - a) bs))"
proof -
  have "take m (drop (b - a) (ram_peek r a n)) = ram_peek r b m"
    using assms(2,3) by (intro nth_equalityI) (auto simp: ram_peek_def)
  then show ?thesis using assms by (auto simp: ram_get_Some ram_ok_def)
qed

lemma ram_get_append:
  "ram_get r a n = Some x \<Longrightarrow> ram_get r (a + n) m = Some y \<Longrightarrow> ram_get r a (n + m) = Some (x @ y)"
  by (simp add: ram_get_Some ram_ok_def ram_peek_def map_upt_append add.assoc)

lemma put_same: "ram_get r a (length bs) = Some bs \<Longrightarrow> ram_put r a bs = Some r"
proof -
  assume g: "ram_get r a (length bs) = Some bs"
  then have "bs ! (i - a) = ram_mem r i" if "a \<le> i" "i < a + length bs" for i
    using that nth_ram_peek [of "i - a" "length bs" r a] by (auto simp: ram_get_Some)
  then have "mem_poke (ram_mem r) a bs = ram_mem r" by (auto simp: mem_poke_def)
  with g show ?thesis by (simp add: ram_get_Some ram_put_Some)
qed

lemma block_nth:
  assumes "\<And>x. length (f x) = k" and "i < length xs"
  shows "take k (drop (k * i) (concat (map f xs))) = f (xs ! i)"
  using assms(2)
proof (induction xs arbitrary: i)
  case (Cons x xs)
  then show ?case by (cases i) (simp_all add: assms(1))
qed simp

lemma pokes_nth:
  assumes "pokes r ws = Some r'" and "k < length ws" and "ws ! k = (a, bs)" and "clear_of (drop (Suc k) ws) a (length bs)"
  shows "ram_get r' a (length bs) = Some bs"
proof -
  have "ws = take k ws @ (a, bs) # drop (Suc k) ws" using assms(2,3) id_take_nth_drop by fastforce
  with assms(1,4) show ?thesis using pokes_last by metis
qed

lemma pokes_nth_sub:
  assumes "pokes r ws = Some r'" and "k < length ws" and "ws ! k = (a, bs)" and "clear_of (drop (Suc k) ws) b n"
    and "a \<le> b" and "b + n \<le> a + length bs"
  shows "ram_get r' b n = Some (take n (drop (b - a) bs))"
proof -
  have w: "ws = take k ws @ (a, bs) # drop (Suc k) ws" using assms(2,3) id_take_nth_drop by fastforce
  from assms(1) have "pokes r (take k ws @ (a, bs) # drop (Suc k) ws) = Some r'" using w by simp
  then obtain r1 r2 where "ram_put r1 a bs = Some r2" "pokes r2 (drop (Suc k) ws) = Some r'"
    by (auto simp: pokes_append_Some split: option.splits)
  then show ?thesis using pokes_clear [OF _ assms(4)] ram_get_sub [OF guest.get_put_same assms(5,6)] by metis
qed

lemma ram_get_defined: "a + n \<le> ram_bytes r \<Longrightarrow> \<exists>bs. ram_get r a n = Some bs"
  using guest.get_defined by blast

section \<open>Blocks\<close>

lemma mem_poke_Nil [simp]: "mem_poke m a [] = m"
  by (rule ext) (auto simp: mem_poke_def)

lemma ram_put_append:
  assumes "a + length xs + length ys \<le> ram_bytes r"
  shows "(case ram_put r a xs of None \<Rightarrow> None | Some r1 \<Rightarrow> ram_put r1 (a + length xs) ys) = ram_put r a (xs @ ys)"
proof -
  have "mem_poke (mem_poke (ram_mem r) a xs) (a + length xs) ys = mem_poke (ram_mem r) a (xs @ ys)"
    by (auto simp: mem_poke_def nth_append fun_eq_iff)
  then show ?thesis using assms by (simp add: ram_put_def ram_ok_def)
qed

lemma pokes_blocks:
  assumes "\<And>i. length (f i) = k" and "a + n * k \<le> ram_bytes r"
  shows "pokes r (map (\<lambda>i. (a + i * k, f i)) [0..<n]) = ram_put r a (concat (map f [0..<n]))"
  using assms(2)
proof (induction n)
  case 0
  then show ?case by (simp add: ram_put_def ram_ok_def)
next
  case (Suc n)
  have len: "length (concat (map f [0..<n])) = n * k" by (induction n) (simp_all add: assms(1))
  from Suc show ?case
    using ram_put_append [of a "concat (map f [0..<n])" "f n" r]
    by (auto simp: pokes_append len assms(1) split: option.splits)
qed

lemma pokes_touches: "pokes r ws = Some r' \<Longrightarrow> list_all (\<lambda>(a, bs). lo \<le> a \<and> a + length bs \<le> hi) ws \<Longrightarrow> touches r r' {lo..<hi}"
proof (induction ws arbitrary: r)
  case (Cons w ws)
  obtain a bs where w: "w = (a, bs)" by fastforce
  with Cons.prems obtain r1 where r1: "ram_put r a bs = Some r1" "pokes r1 ws = Some r'" by (auto split: option.splits)
  have "touches r r1 {lo..<hi}" by (rule touches_mono [OF touches_put [OF r1(1)]]) (use Cons.prems(2) w in auto)
  with Cons.IH [OF r1(2)] Cons.prems(2) show ?case by (auto intro: touches_trans)
qed simp

lemma pokes_block_mid:
  assumes "\<And>i. length (f i) = k" and "a + n * k \<le> ram_bytes r"
  shows "pokes r (xs @ map (\<lambda>i. (a + i * k, f i)) [0..<n] @ ys) = pokes r (xs @ (a, concat (map f [0..<n])) # ys)"
proof (cases "pokes r xs")
  case None
  then show ?thesis by (simp only: pokes_append [of r xs] option.case)
next
  case (Some r1)
  then have "pokes r1 (map (\<lambda>i. (a + i * k, f i)) [0..<n]) = ram_put r1 a (concat (map f [0..<n]))"
    using assms by (intro pokes_blocks) (simp_all add: pokes_bytes)
  then show ?thesis by (simp add: pokes_append [of r xs] Some pokes_append [of r1])
qed

lemma ram_get_append3:
  "ram_get r a n = Some x \<Longrightarrow> ram_get r (a + n) m = Some y \<Longrightarrow> ram_get r (a + n + m) k = Some z \<Longrightarrow> ram_get r a (n + m + k) = Some (x @ y @ z)"
  using ram_get_append [of r a n x m y] ram_get_append [of r a "n + m" "x @ y" k z] by (simp add: add.assoc)

lemma pokes_bind: "Option.bind (pokes r xs) (\<lambda>r1. pokes r1 ys) = pokes r (xs @ ys)"
  by (cases "pokes r xs") (simp_all add: pokes_append)

lemma pokes_touches_set: "pokes r ws = Some r' \<Longrightarrow> list_all (\<lambda>(a, bs). {a..<a + length bs} \<subseteq> A) ws \<Longrightarrow> touches r r' A"
proof (induction ws arbitrary: r)
  case (Cons w ws)
  obtain a bs where w: "w = (a, bs)" by fastforce
  with Cons.prems obtain r1 where r1: "ram_put r a bs = Some r1" "pokes r1 ws = Some r'" by (auto split: option.splits)
  have "touches r r1 A" by (rule touches_mono [OF touches_put [OF r1(1)]]) (use Cons.prems(2) w in simp)
  with Cons.IH [OF r1(2)] Cons.prems(2) show ?case by (auto intro: touches_trans)
qed simp

lemma pokes_touches2:
  assumes "pokes r ws = Some r'" and "list_all (\<lambda>(a, bs). lo \<le> a \<and> a + length bs \<le> hi \<or> lo' \<le> a \<and> a + length bs \<le> hi') ws"
  shows "touches r r' ({lo..<hi} \<union> {lo'..<hi'})"
  by (rule pokes_touches_set [OF assms(1)]) (use assms(2) in \<open>fastforce simp: list_all_iff\<close>)

lemma mem_poke_append: "mem_poke (mem_poke m a xs) (a + length xs) ys = mem_poke m a (xs @ ys)"
  by (auto simp: mem_poke_def nth_append fun_eq_iff)

end
