(* ===== verification/Boot.thy ===== *)
theory Boot
  imports Snapshot Copies
begin

text \<open>
  Booting a kernel: \<open>setup_bios\<close>, \<open>load_bzimage\<close>, \<open>load_initrd\<close> and \<open>setup_cpu\<close> of \<^verbatim>\<open>src/vmm.cpp\<close> with the
  constants of \<^verbatim>\<open>src/boot.hpp\<close>, \<^verbatim>\<open>src/bios_offsets.h\<close> and \<^verbatim>\<open>src/bios_rom.h\<close>.  The code copies into guest RAM
  without looking at its size; a copy that leaves the mapping is undefined (\<open>None\<close>).

  The offsets of the fields of \<open>struct boot_params\<close> are those of the Linux x86 boot protocol, the layouts of
  \<open>kvm_regs\<close> and \<open>kvm_sregs\<close> those of the KVM interface.
\<close>

section \<open>Constants\<close>

definition BZ_DEFAULT_SETUP_SECTS :: nat where "BZ_DEFAULT_SETUP_SECTS = 4"
definition BZ_KERNEL_START :: nat where "BZ_KERNEL_START = 0x100000"
definition BOOT_CMDLINE_OFFSET :: nat where "BOOT_CMDLINE_OFFSET = 0x20000"
definition BOOT_LOADER_SELECTOR :: nat where "BOOT_LOADER_SELECTOR = 0x1000"
definition BOOT_LOADER_SP :: nat where "BOOT_LOADER_SP = 0x8000"

text \<open>The addresses of the BIOS areas.\<close>

datatype boot_const = C_REAL_MODE_IVT_BEGIN | C_REAL_MODE_IVT_END | C_BDA_START | C_BDA_END | C_EBDA_START | C_EBDA_END | C_E820_MAP_START
  | C_VGA_RAM_BEGIN | C_VGA_RAM_END | C_VGA_ROM_BEGIN | C_VGA_ROM_OEM_STRING | C_VGA_ROM_OEM_STRING_SIZE | C_VGA_ROM_MODES | C_VGA_ROM_MODES_SIZE | C_VGA_ROM_END
  | C_MB_BIOS_BEGIN | C_MB_BIOS_END | C_MB_BIOS_SIZE | C_REAL_INTR_VECTORS

fun boot_at :: "boot_const \<Rightarrow> nat" where
  "boot_at C_REAL_MODE_IVT_BEGIN = 0"
| "boot_at C_REAL_MODE_IVT_END = 0x3ff"
| "boot_at C_BDA_START = 0x400"
| "boot_at C_BDA_END = 0x4ff"
| "boot_at C_EBDA_START = 0x9fc00"
| "boot_at C_EBDA_END = 0x9ffff"
| "boot_at C_E820_MAP_START = 0x9fc00"
| "boot_at C_VGA_RAM_BEGIN = 0xa0000"
| "boot_at C_VGA_RAM_END = 0xbffff"
| "boot_at C_VGA_ROM_BEGIN = 0xc0000"
| "boot_at C_VGA_ROM_OEM_STRING = 0xc0000"
| "boot_at C_VGA_ROM_OEM_STRING_SIZE = 16"
| "boot_at C_VGA_ROM_MODES = 0xc0000 + 16"
| "boot_at C_VGA_ROM_MODES_SIZE = 32"
| "boot_at C_VGA_ROM_END = 0xc7fff"
| "boot_at C_MB_BIOS_BEGIN = 0xf0000"
| "boot_at C_MB_BIOS_END = 0xfffff"
| "boot_at C_MB_BIOS_SIZE = 0xfffff - 0xf0000 + 1"
| "boot_at C_REAL_INTR_VECTORS = 256"

declare boot_at.simps [simp del]

abbreviation REAL_MODE_IVT_BEGIN :: nat where "REAL_MODE_IVT_BEGIN \<equiv> boot_at C_REAL_MODE_IVT_BEGIN"
abbreviation BDA_START :: nat where "BDA_START \<equiv> boot_at C_BDA_START"
abbreviation BDA_END :: nat where "BDA_END \<equiv> boot_at C_BDA_END"
abbreviation EBDA_START :: nat where "EBDA_START \<equiv> boot_at C_EBDA_START"
abbreviation EBDA_END :: nat where "EBDA_END \<equiv> boot_at C_EBDA_END"
abbreviation E820_MAP_START :: nat where "E820_MAP_START \<equiv> boot_at C_E820_MAP_START"
abbreviation VGA_RAM_BEGIN :: nat where "VGA_RAM_BEGIN \<equiv> boot_at C_VGA_RAM_BEGIN"
abbreviation VGA_ROM_BEGIN :: nat where "VGA_ROM_BEGIN \<equiv> boot_at C_VGA_ROM_BEGIN"
abbreviation VGA_ROM_OEM_STRING :: nat where "VGA_ROM_OEM_STRING \<equiv> boot_at C_VGA_ROM_OEM_STRING"
abbreviation VGA_ROM_OEM_STRING_SIZE :: nat where "VGA_ROM_OEM_STRING_SIZE \<equiv> boot_at C_VGA_ROM_OEM_STRING_SIZE"
abbreviation VGA_ROM_MODES :: nat where "VGA_ROM_MODES \<equiv> boot_at C_VGA_ROM_MODES"
abbreviation VGA_ROM_END :: nat where "VGA_ROM_END \<equiv> boot_at C_VGA_ROM_END"
abbreviation MB_BIOS_BEGIN :: nat where "MB_BIOS_BEGIN \<equiv> boot_at C_MB_BIOS_BEGIN"
abbreviation MB_BIOS_END :: nat where "MB_BIOS_END \<equiv> boot_at C_MB_BIOS_END"
abbreviation MB_BIOS_SIZE :: nat where "MB_BIOS_SIZE \<equiv> boot_at C_MB_BIOS_SIZE"
abbreviation REAL_INTR_VECTORS :: nat where "REAL_INTR_VECTORS \<equiv> boot_at C_REAL_INTR_VECTORS"
definition E820_RAM :: u32 where "E820_RAM = 1"
definition E820_RESERVED :: u32 where "E820_RESERVED = 2"

definition BIOS_int10 :: nat where "BIOS_int10 = 0x40"
definition BIOS_int10_end :: nat where "BIOS_int10_end = 0x7f"
definition BIOS_int15 :: nat where "BIOS_int15 = 0x80"
definition BIOS_int15_end :: nat where "BIOS_int15_end = 0xb8"
definition BIOS_intfake :: nat where "BIOS_intfake = 0x30"

lemmas boot_consts = boot_at.simps BZ_KERNEL_START_def BOOT_CMDLINE_OFFSET_def BOOT_LOADER_SELECTOR_def BOOT_LOADER_SP_def
  BIOS_int10_def BIOS_int10_end_def BIOS_int15_def BIOS_int15_end_def BIOS_intfake_def

text \<open>The BIOS image.\<close>

definition bios_rom :: "u8 list" where
  "bios_rom = [
     0x66, 0x57, 0x66, 0x56, 0x66, 0x53, 0x66, 0x89, 0xc3, 0x66, 0x89, 0xc8, 0x67, 0x66, 0x8b, 0x4c,
     0x24, 0x14, 0x67, 0x66, 0x8b, 0x74, 0x24, 0x10, 0x66, 0x89, 0xd7, 0x1e, 0x06, 0x8e, 0xd8, 0x8e,
     0xc3, 0xf3, 0xa4, 0x07, 0x1f, 0x66, 0x5b, 0x66, 0x5e, 0x66, 0x5f, 0x66, 0xc3, 0x66, 0x90, 0x90,
     0x67, 0x66, 0x83, 0x4c, 0x24, 0x04, 0x01, 0xcf, 0x90, 0x2e, 0x8d, 0xb4, 0x00, 0x00, 0x89, 0xf6,
     0x66, 0x0f, 0xa0, 0x66, 0x06, 0x66, 0x1e, 0x66, 0x57, 0x66, 0x56, 0x66, 0x55, 0x66, 0x54, 0x66,
     0x52, 0x66, 0x51, 0x66, 0x53, 0x66, 0x50, 0x66, 0x89, 0xe0, 0x66, 0xe8, 0x0c, 0x01, 0x00, 0x00,
     0x66, 0x58, 0x66, 0x5b, 0x66, 0x59, 0x66, 0x5a, 0x66, 0x5c, 0x66, 0x5d, 0x66, 0x5e, 0x66, 0x5f,
     0x66, 0x1f, 0x66, 0x07, 0x66, 0x0f, 0xa1, 0x67, 0x66, 0x83, 0x64, 0x24, 0x04, 0xfe, 0xcf, 0x90,
     0x66, 0x0f, 0xa0, 0x66, 0x06, 0x66, 0x1e, 0x66, 0x57, 0x66, 0x56, 0x66, 0x55, 0x66, 0x54, 0x66,
     0x52, 0x66, 0x51, 0x66, 0x53, 0x66, 0x50, 0x66, 0x89, 0xe0, 0x66, 0xe8, 0xf8, 0x01, 0x00, 0x00,
     0x66, 0x58, 0x66, 0x5b, 0x66, 0x59, 0x66, 0x5a, 0x66, 0x5c, 0x66, 0x5d, 0x66, 0x5e, 0x66, 0x5f,
     0x66, 0x1f, 0x66, 0x07, 0x66, 0x0f, 0xa1, 0xcf, 0x00, 0x00, 0x00, 0x00, 0x00, 0x00, 0x00, 0x00,
     0x00, 0x00, 0x00, 0x00, 0x66, 0x55, 0x66, 0x57, 0x66, 0x56, 0x66, 0x53, 0x66, 0x52, 0x66, 0x89,
     0xc7, 0x66, 0xb8, 0xc0, 0x9f, 0xff, 0xff, 0x8e, 0xe0, 0x67, 0x66, 0x8b, 0x6f, 0x04, 0x64, 0x67,
     0x66, 0x8b, 0x0d, 0x00, 0x00, 0x00, 0x00, 0x66, 0x39, 0xcd, 0x73, 0x4c, 0x8e, 0xe0, 0x67, 0x66,
     0x8d, 0x5c, 0xad, 0x00, 0x67, 0x66, 0x8b, 0x47, 0x1c, 0x67, 0x66, 0x8d, 0x70, 0x14, 0x66, 0xba,
     0x00, 0x04, 0x00, 0x00, 0x66, 0x29, 0xc2, 0x67, 0x66, 0x8d, 0x9c, 0x9a, 0x04, 0xfc, 0xff, 0xff,
     0x67, 0x66, 0x89, 0x2c, 0x24, 0x8d, 0x74, 0x00, 0x67, 0x66, 0x8d, 0x14, 0x03, 0x66, 0x0f, 0xb7,
     0xd2, 0x66, 0x89, 0xc5, 0x66, 0x40, 0x64, 0x67, 0x8a, 0x12, 0x67, 0x88, 0x55, 0x00, 0x66, 0x39,
     0xc6, 0x75, 0xe5, 0x67, 0x66, 0x8b, 0x2c, 0x24, 0x67, 0x66, 0xc7, 0x07, 0x50, 0x41, 0x4d, 0x53,
     0x67, 0x66, 0xc7, 0x47, 0x08, 0x14, 0x00, 0x00, 0x00, 0x66, 0x45, 0x67, 0x66, 0x83, 0x67, 0x30,
     0xfe, 0x66, 0x39, 0xcd, 0x72, 0x03, 0x66, 0x31, 0xed, 0x67, 0x66, 0x89, 0x6f, 0x04, 0x66, 0x58,
     0x66, 0x5b, 0x66, 0x5e, 0x66, 0x5f, 0x66, 0x5d, 0x66, 0xc3, 0x66, 0x90, 0x66, 0x57, 0x66, 0x53,
     0x66, 0x81, 0xec, 0x04, 0x01, 0x00, 0x00, 0x66, 0x89, 0xc3, 0x67, 0x66, 0x8b, 0x00, 0x66, 0x0f,
     0xb6, 0xd4, 0x66, 0x83, 0xfa, 0x0e, 0x74, 0x2c, 0x66, 0x83, 0xfa, 0x4f, 0x75, 0x16, 0x66, 0x25,
     0xff, 0x00, 0x00, 0x00, 0x0f, 0x84, 0x88, 0x00, 0x66, 0x48, 0x74, 0x2c, 0x67, 0x66, 0xc7, 0x03,
     0x4f, 0x00, 0x00, 0x00, 0x66, 0x81, 0xc4, 0x04, 0x01, 0x00, 0x00, 0x66, 0x5b, 0x66, 0x5f, 0x66,
     0xc3, 0x8d, 0x74, 0x00, 0x66, 0xba, 0xf8, 0x03, 0x00, 0x00, 0xee, 0x66, 0x81, 0xc4, 0x04, 0x01,
     0x00, 0x00, 0x66, 0x5b, 0x66, 0x5f, 0x66, 0xc3, 0x67, 0x66, 0x8b, 0x53, 0x1c, 0x66, 0xb9, 0x40,
     0x00, 0x00, 0x00, 0x66, 0x31, 0xc0, 0x66, 0x89, 0xd7, 0x66, 0xf3, 0xab, 0x67, 0xc7, 0x02, 0xd9,
     0x00, 0x67, 0x66, 0xc7, 0x42, 0x11, 0x0a, 0x80, 0x02, 0xe0, 0x67, 0x66, 0xc7, 0x42, 0x15, 0x01,
     0x00, 0x00, 0x01, 0x67, 0x66, 0xc7, 0x42, 0x19, 0x20, 0x00, 0x06, 0x00, 0x67, 0x66, 0xc7, 0x42,
     0x1f, 0x08, 0x00, 0x08, 0x08, 0x67, 0x66, 0xc7, 0x42, 0x23, 0x08, 0x10, 0x08, 0x18, 0x67, 0xc6,
     0x42, 0x2b, 0xd0, 0x67, 0x66, 0xc7, 0x03, 0x4f, 0x00, 0x00, 0x00, 0xeb, 0x87, 0x8d, 0x74, 0x00,
     0x67, 0x66, 0x8b, 0x53, 0x1c, 0x67, 0x66, 0x8d, 0x7c, 0x24, 0x06, 0x66, 0xb9, 0xfa, 0x00, 0x00,
     0x00, 0x66, 0x31, 0xc0, 0xf3, 0xaa, 0x67, 0x66, 0xc7, 0x04, 0x24, 0x56, 0x45, 0x53, 0x41, 0x67,
     0xc7, 0x44, 0x24, 0x04, 0x02, 0x01, 0x67, 0xc7, 0x44, 0x24, 0x08, 0x00, 0xc0, 0x67, 0x66, 0xc7,
     0x44, 0x24, 0x0a, 0x10, 0x00, 0x00, 0x00, 0x67, 0xc7, 0x44, 0x24, 0x10, 0x01, 0xc0, 0x67, 0xc7,
     0x44, 0x24, 0x12, 0x12, 0x00, 0x67, 0x66, 0x0f, 0xb7, 0x4b, 0x20, 0x67, 0x66, 0x0f, 0xb7, 0x43,
     0x24, 0x66, 0x83, 0xec, 0x08, 0x66, 0x68, 0x00, 0x01, 0x00, 0x00, 0x67, 0x66, 0x8d, 0x7c, 0x24,
     0x0c, 0x66, 0x57, 0x66, 0xe8, 0x77, 0xfd, 0xff, 0xff, 0x66, 0x89, 0xfc, 0x67, 0x66, 0xc7, 0x03,
     0x4f, 0x00, 0x00, 0x00, 0xe9, 0x0d, 0xff, 0x90, 0x67, 0x66, 0x81, 0x38, 0x20, 0xe8, 0x00, 0x00,
     0x74, 0x0a, 0x67, 0x66, 0x83, 0x48, 0x30, 0x01, 0x66, 0xc3, 0x89, 0xf6, 0xe9, 0x15, 0xfe]"

section \<open>BIOS\<close>

record e820entry =
  e_addr :: u64
  e_size :: u64
  e_type :: u32

definition e820_bytes :: "e820entry \<Rightarrow> u8 list" where
  "e820_bytes e = le_bytes 8 (e_addr e) @ le_bytes 8 (e_size e) @ le_bytes 4 (e_type e)"

definition e820_entries :: "nat \<Rightarrow> e820entry list" where
  "e820_entries n =
     [\<lparr>e_addr = of_nat REAL_MODE_IVT_BEGIN, e_size = of_nat (EBDA_START - REAL_MODE_IVT_BEGIN), e_type = E820_RAM\<rparr>,
      \<lparr>e_addr = of_nat EBDA_START, e_size = of_nat (VGA_RAM_BEGIN - EBDA_START), e_type = E820_RESERVED\<rparr>,
      \<lparr>e_addr = of_nat MB_BIOS_BEGIN, e_size = of_nat MB_BIOS_SIZE, e_type = E820_RESERVED\<rparr>,
      \<lparr>e_addr = of_nat BZ_KERNEL_START, e_size = of_nat n - of_nat BZ_KERNEL_START, e_type = E820_RAM\<rparr>]"

text \<open>\<open>nr_map\<close> is the first word of the table, the packed entries of 20 bytes follow.\<close>

definition e820_writes :: "nat \<Rightarrow> (nat \<times> u8 list) list" where
  "e820_writes n =
     (let es = e820_entries n
      in map (\<lambda>i. (E820_MAP_START + 4 + 20 * i, e820_bytes (es ! i))) [0..<length es] @
         [(E820_MAP_START, le_bytes 4 (of_nat (length es) :: u32))])"

definition setup_e820 :: "guest_ram \<Rightarrow> guest_ram option" where
  "setup_e820 r = pokes r (e820_writes (ram_bytes r))"

definition vga_writes :: "(nat \<times> u8 list) list" where
  "vga_writes =
     [filled VGA_ROM_OEM_STRING VGA_ROM_OEM_STRING_SIZE,
      (VGA_ROM_OEM_STRING, take VGA_ROM_OEM_STRING_SIZE (bytes ''KVM VESA'' @ replicate VGA_ROM_OEM_STRING_SIZE 0)),
      (VGA_ROM_MODES, le_bytes 2 (0x0112 :: u16)), (VGA_ROM_MODES + 2, le_bytes 2 (0xffff :: u16))]"

definition setup_vga_rom :: "guest_ram \<Rightarrow> guest_ram option" where
  "setup_vga_rom r = pokes r vga_writes"

text \<open>The interrupt vector table: offset and segment of each vector.\<close>

type_synonym ivt = "(u16 \<times> u16) list"

definition ivt_bytes :: "ivt \<Rightarrow> u8 list" where
  "ivt_bytes t = concat (map (\<lambda>(off, seg). le_bytes 2 off @ le_bytes 2 seg) t)"

definition install_irq :: "nat \<Rightarrow> nat \<Rightarrow> u8 list \<Rightarrow> ivt \<times> guest_ram \<Rightarrow> (ivt \<times> guest_ram) option" where
  "install_irq vec addr code s =
     (case s of (t, r) \<Rightarrow>
        map_option (\<lambda>r1. (t[vec := (of_nat (addr - MB_BIOS_BEGIN), of_nat (MB_BIOS_BEGIN div 16))], r1)) (ram_put r addr code))"

definition bios_code :: "nat \<Rightarrow> nat \<Rightarrow> u8 list" where
  "bios_code a b = take (b - a) (drop a bios_rom)"

definition bios_areas :: "(nat \<times> u8 list) list" where
  "bios_areas = [filled BDA_START (BDA_END - BDA_START + 1), filled EBDA_START (EBDA_END - EBDA_START + 1),
     filled MB_BIOS_BEGIN MB_BIOS_SIZE, filled VGA_ROM_BEGIN (VGA_ROM_END - VGA_ROM_BEGIN + 1)]"

definition setup_bios :: "guest_ram \<Rightarrow> guest_ram option" where
  "setup_bios r = do {
     r1 \<leftarrow> pokes r (bios_areas @ [(MB_BIOS_BEGIN, bios_rom)]);
     r2 \<leftarrow> setup_e820 r1;
     r3 \<leftarrow> setup_vga_rom r2;
     let fake = (of_nat BIOS_intfake, of_nat (MB_BIOS_BEGIN div 16));
     s1 \<leftarrow> install_irq 0x10 (MB_BIOS_BEGIN + BIOS_int10) (bios_code BIOS_int10 BIOS_int10_end)
       (replicate REAL_INTR_VECTORS fake, r3);
     (t, r4) \<leftarrow> install_irq 0x15 (MB_BIOS_BEGIN + BIOS_int15) (bios_code BIOS_int15 BIOS_int15_end) s1;
     ram_put r4 REAL_MODE_IVT_BEGIN (ivt_bytes t)
   }"

section \<open>Loading files\<close>

text \<open>\<open>read_file\<close>: the whole file, or nothing if it cannot be opened or is not read in one go.\<close>

definition read_file :: "os \<Rightarrow> string \<Rightarrow> log \<Rightarrow> u8 list option \<times> log" where
  "read_file w path tr =
     (let fd = os_ret w tr (Open_read path); tr1 = tr @ [Open_read path]
      in if fd < 0 then (None, tr1)
         else (let sz = os_ret w tr1 (Fstat fd); tr2 = tr1 @ [Fstat fd]
               in if sz < 0 then (None, tr2 @ [Close fd])
                  else (let c = File_read fd (nat sz)
                        in (if os_ret w tr2 c = sz then Some (fixed (nat sz) (os_data w tr2 c)) else None,
                            tr2 @ [c, Close fd]))))"

text \<open>Fields of the setup header, as offsets into the file and into the loaded \<open>boot_params\<close>.\<close>

definition BOOT_PARAMS_SIZE :: nat where "BOOT_PARAMS_SIZE = 4096"
definition OFF_setup_sects :: nat where "OFF_setup_sects = 0x1f1"
definition OFF_vid_mode :: nat where "OFF_vid_mode = 0x1fa"
definition OFF_header :: nat where "OFF_header = 0x202"
definition OFF_type_of_loader :: nat where "OFF_type_of_loader = 0x210"
definition OFF_loadflags :: nat where "OFF_loadflags = 0x211"
definition OFF_ramdisk_image :: nat where "OFF_ramdisk_image = 0x218"
definition OFF_ramdisk_size :: nat where "OFF_ramdisk_size = 0x21c"
definition OFF_heap_end_ptr :: nat where "OFF_heap_end_ptr = 0x224"
definition OFF_cmd_line_ptr :: nat where "OFF_cmd_line_ptr = 0x228"
definition OFF_cmdline_size :: nat where "OFF_cmdline_size = 0x238"

lemmas boot_offs = OFF_setup_sects_def OFF_vid_mode_def OFF_header_def OFF_type_of_loader_def OFF_loadflags_def
  OFF_ramdisk_image_def OFF_ramdisk_size_def OFF_heap_end_ptr_def OFF_cmd_line_ptr_def OFF_cmdline_size_def

definition LOADER_GPA :: nat where "LOADER_GPA = BOOT_LOADER_SELECTOR * 16"

definition file_u32 :: "u8 list \<Rightarrow> nat \<Rightarrow> u32" where
  "file_u32 f off = le_val (take 4 (drop off f))"

definition setup_size :: "u8 list \<Rightarrow> nat" where
  "setup_size f =
     (let n = unat (f ! OFF_setup_sects) in ((if n = 0 then BZ_DEFAULT_SETUP_SECTS else n) + 1) * 512)"

definition cmdline_max :: "u8 list \<Rightarrow> nat" where
  "cmdline_max f = (let n = unat (file_u32 f OFF_cmdline_size) in min 4096 (if n = 0 then 1024 else n))"

text \<open>\<^verbatim>\<open>strncpy(dst, s, n)\<close>: the string up to its end or \<open>n\<close> characters, filled up with zeroes.\<close>

definition strncpy :: "nat \<Rightarrow> u8 list \<Rightarrow> u8 list" where
  "strncpy n s = take n (takeWhile (\<lambda>b. b \<noteq> 0) s @ replicate n 0)"

definition patch_loadflags :: "guest_ram \<Rightarrow> guest_ram option" where
  "patch_loadflags r = do {
     b \<leftarrow> ram_get r (LOADER_GPA + OFF_loadflags) 1;
     ram_put r (LOADER_GPA + OFF_loadflags) [((hd b) AND NOT 2) OR 0x80]
   }"

text \<open>A kernel file in memory; the flag says whether it is a bzImage.\<close>

definition place_bzimage :: "u8 list \<Rightarrow> string \<Rightarrow> guest_ram \<Rightarrow> (bool \<times> guest_ram) option" where
  "place_bzimage f cmd r =
     (if length f < BOOT_PARAMS_SIZE then None
      else if file_u32 f OFF_header \<noteq> 0x53726448 then Some (False, r)
      else if length f < setup_size f then None
      else do {
        r1 \<leftarrow> pokes r
          [(LOADER_GPA, take (setup_size f) f), (BZ_KERNEL_START, drop (setup_size f) f),
           filled BOOT_CMDLINE_OFFSET (cmdline_max f), (BOOT_CMDLINE_OFFSET, strncpy (cmdline_max f - 1) (bytes cmd)),
           (LOADER_GPA + OFF_cmd_line_ptr, le_bytes 4 (of_nat BOOT_CMDLINE_OFFSET :: u32)),
           (LOADER_GPA + OFF_type_of_loader, [0xff]), (LOADER_GPA + OFF_heap_end_ptr, le_bytes 2 (0xfe00 :: u16))];
        r2 \<leftarrow> patch_loadflags r1;
        r3 \<leftarrow> pokes r2 [(LOADER_GPA + OFF_vid_mode, le_bytes 2 (0 :: u16))];
        Some (True, r3)
      })"

definition load_bzimage :: "os \<Rightarrow> string \<Rightarrow> vmm \<Rightarrow> log \<Rightarrow> (bool \<times> vmm \<times> log) option" where
  "load_bzimage w path v tr =
     (case read_file w path tr of
        (None, tr1) \<Rightarrow> Some (False, v, tr1)
      | (Some f, tr1) \<Rightarrow> map_option (\<lambda>(ok, r). (ok, v\<lparr>ram := r\<rparr>, tr1)) (place_bzimage f (cmdline v) (ram v)))"

text \<open>\<^verbatim>\<open>(ram_bytes_ - len) & ~0xfffff\<close>, with the wrap-around of \<open>size_t\<close>.\<close>

definition initrd_addr :: "nat \<Rightarrow> nat \<Rightarrow> u64" where
  "initrd_addr n len = (of_nat n - of_nat len) AND NOT 0xfffff"

definition place_initrd :: "u8 list \<Rightarrow> guest_ram \<Rightarrow> guest_ram option" where
  "place_initrd f r =
     (let addr = initrd_addr (ram_bytes r) (length f)
      in pokes r [(unat addr, f), (LOADER_GPA + OFF_ramdisk_image, le_bytes 4 (ucast addr :: u32)),
           (LOADER_GPA + OFF_ramdisk_size, le_bytes 4 (of_nat (length f) :: u32))])"

definition load_initrd :: "os \<Rightarrow> string \<Rightarrow> vmm \<Rightarrow> log \<Rightarrow> (bool \<times> vmm \<times> log) option" where
  "load_initrd w path v tr =
     (case read_file w path tr of
        (None, tr1) \<Rightarrow> Some (False, v, tr1)
      | (Some f, tr1) \<Rightarrow> map_option (\<lambda>r. (True, v\<lparr>ram := r\<rparr>, tr1)) (place_initrd f (ram v)))"

section \<open>Processor state\<close>

record kvm_segment =
  seg_base :: u64
  seg_limit :: u32
  seg_selector :: u16
  seg_type :: u8
  seg_present :: u8
  seg_dpl :: u8
  seg_db :: u8
  seg_s :: u8
  seg_l :: u8
  seg_g :: u8
  seg_rest :: "u8 list"

definition seg_bytes :: "kvm_segment \<Rightarrow> u8 list" where
  "seg_bytes s = le_bytes 8 (seg_base s) @ le_bytes 4 (seg_limit s) @ le_bytes 2 (seg_selector s) @
     [seg_type s, seg_present s, seg_dpl s, seg_db s, seg_s s, seg_l s, seg_g s] @ seg_rest s"

text \<open>The code segment: what was there, of which only the last three bytes are kept.\<close>

definition boot_cs :: "u8 list \<Rightarrow> kvm_segment" where
  "boot_cs old = \<lparr>seg_base = of_nat (BOOT_LOADER_SELECTOR * 16), seg_limit = 0xffff, seg_selector = of_nat BOOT_LOADER_SELECTOR,
     seg_type = 0xb, seg_present = 1, seg_dpl = 0, seg_db = 0, seg_s = 1, seg_l = 0, seg_g = 0, seg_rest = take 3 (drop 21 old)\<rparr>"

definition boot_ds :: "u8 list \<Rightarrow> kvm_segment" where
  "boot_ds old = (boot_cs old)\<lparr>seg_type := 0x3, seg_db := 1\<rparr>"

definition boot_ss :: "u8 list \<Rightarrow> kvm_segment" where
  "boot_ss old = (boot_ds old)\<lparr>seg_base := ucast (seg_selector (boot_ds old)) * 16\<rparr>"

text \<open>
  \<open>kvm_sregs\<close> is eight segments (CS, DS, ES, FS, GS, SS, TR, LDT), the two descriptor tables of 16 bytes
  with 6 bytes of padding each, CR0, CR2, CR3, CR4, CR8, EFER and the rest.
\<close>

definition boot_sregs :: "u8 list \<Rightarrow> u8 list" where
  "boot_sregs s =
     (let cs = seg_bytes (boot_cs s); ds = seg_bytes (boot_ds s); ss = seg_bytes (boot_ss s);
          dt = (\<lambda>off. le_bytes 8 (0 :: u64) @ le_bytes 2 (0xffff :: u16) @ take 6 (drop (off + 10) s))
      in cs @ ds @ ds @ ds @ ds @ ss @ take 48 (drop 144 s) @ dt 192 @ dt 208 @
         le_bytes 8 (0x10 :: u64) @ take 8 (drop 232 s) @ le_bytes 8 (0 :: u64) @ le_bytes 8 (0 :: u64) @
         take 8 (drop 256 s) @ le_bytes 8 (0 :: u64) @ drop 272 s)"

text \<open>\<open>kvm_regs\<close>: 18 registers; RSP is the seventh, RIP and RFLAGS the last two.\<close>

definition boot_regs :: "u8 list" where
  "boot_regs = replicate 48 0 @ le_bytes 8 (of_nat BOOT_LOADER_SP :: u64) @ replicate 72 0 @
     le_bytes 8 (0x200 :: u64) @ le_bytes 8 (0x2 :: u64)"

definition setup_cpu :: "os \<Rightarrow> vmm \<Rightarrow> log \<Rightarrow> bool \<times> log" where
  "setup_cpu w v tr =
     (let s = fixed 312 (os_data w tr (Kvm_get K_sregs))
      in kvm_apply w [(True, K_sregs, boot_sregs s), (True, K_regs, boot_regs),
           (True, K_cpuid, le_bytes 4 (cpuid_nent v) @ replicate 4 0 @ vm_cpuid v)] (tr @ [Kvm_get K_sregs]))"

section \<open>The BIOS area\<close>

lemma length_bios_rom: "length bios_rom = 687"
  by code_simp

lemma length_bios_code: "b \<le> 687 \<Longrightarrow> length (bios_code a b) = b - a"
  by (simp add: bios_code_def length_bios_rom)

definition boot_ivt :: ivt where
  "boot_ivt = (replicate REAL_INTR_VECTORS (of_nat BIOS_intfake, of_nat (MB_BIOS_BEGIN div 16)))
     [0x10 := (of_nat BIOS_int10, of_nat (MB_BIOS_BEGIN div 16)), 0x15 := (of_nat BIOS_int15, of_nat (MB_BIOS_BEGIN div 16))]"

lemma length_ivt_bytes [simp]: "length (ivt_bytes t) = 4 * length t"
  by (induction t) (auto simp: ivt_bytes_def)

lemma ivt_bytes_nth: "v < length t \<Longrightarrow> take 4 (drop (4 * v) (ivt_bytes t)) = le_bytes 2 (fst (t ! v)) @ le_bytes 2 (snd (t ! v))"
  unfolding ivt_bytes_def by (subst block_nth) (auto simp: case_prod_beta)

definition bios_writes :: "nat \<Rightarrow> (nat \<times> u8 list) list" where
  "bios_writes n = bios_areas @ (MB_BIOS_BEGIN, bios_rom) # e820_writes n @ vga_writes"

lemma length_e820_bytes [simp]: "length (e820_bytes e) = 20"
  by (simp add: e820_bytes_def)

lemmas bios_lists = bios_writes_def bios_areas_def e820_writes_def vga_writes_def e820_entries_def filled_def Let_def upt_rec bytes_def

lemma bios_writes_clear: "clear_of (e820_writes n @ vga_writes) MB_BIOS_BEGIN 687"
  by (simp add: bios_lists boot_consts)

lemma bios_writes_fit: "0x100000 \<le> n \<Longrightarrow> fits n (bios_writes m)"
  by (simp add: bios_lists boot_consts length_bios_rom)

lemma setup_bios_eq:
  assumes "0x100000 \<le> ram_bytes r"
  shows "\<exists>r1. pokes r (bios_writes (ram_bytes r)) = Some r1 \<and> ram_get r1 MB_BIOS_BEGIN 687 = Some bios_rom \<and>
    setup_bios r = ram_put r1 REAL_MODE_IVT_BEGIN (ivt_bytes boot_ivt)"
proof -
  let ?n = "ram_bytes r"
  from pokes_defined [OF bios_writes_fit [OF assms, of ?n]] obtain r1 where p: "pokes r (bios_writes ?n) = Some r1" by blast
  have rom: "ram_get r1 MB_BIOS_BEGIN 687 = Some bios_rom"
    using pokes_last [OF p [unfolded bios_writes_def]] bios_writes_clear [of ?n] unfolding length_bios_rom by blast
  have code: "ram_put r1 (MB_BIOS_BEGIN + a) (bios_code a b) = Some r1" if "a \<le> b" "b \<le> 687" for a b
  proof (rule put_same)
    show "ram_get r1 (MB_BIOS_BEGIN + a) (length (bios_code a b)) = Some (bios_code a b)"
      using ram_get_sub [OF rom, of "MB_BIOS_BEGIN + a" "b - a"] that by (simp add: length_bios_code) (simp add: bios_code_def)
  qed
  let ?as = "bios_areas @ [(MB_BIOS_BEGIN, bios_rom)]"
  have "pokes r (?as @ e820_writes ?n @ vga_writes) = Some r1" using p by (simp add: bios_writes_def)
  then obtain ra where ra: "pokes r ?as = Some ra" "pokes ra (e820_writes ?n @ vga_writes) = Some r1"
    unfolding pokes_append_Some [of r ?as] by blast
  from ra(2) obtain rb where rb: "pokes ra (e820_writes ?n) = Some rb" "pokes rb vga_writes = Some r1"
    unfolding pokes_append_Some [of ra "e820_writes ?n"] by blast
  have "setup_bios r = ram_put r1 REAL_MODE_IVT_BEGIN (ivt_bytes boot_ivt)"
    using ra(1) rb pokes_bytes [OF ra(1)] code [of BIOS_int10 BIOS_int10_end] code [of BIOS_int15 BIOS_int15_end]
    by (simp add: setup_bios_def setup_e820_def setup_vga_rom_def install_irq_def boot_ivt_def boot_consts)
  with p rom show ?thesis by blast
qed

text \<open>
  Claim C19.  The BIOS area that the kernel's real-mode code finds.  With at least 1 MB of RAM \<open>setup_bios\<close> is
  defined.  Afterwards the BIOS image is at F0000; the memory map at 9FC00 counts four entries, which are low
  memory, the extended BIOS data area, the BIOS area and the memory from 1 MB to the end of RAM;
  interrupt vectors 10h and 15h point to their routines in the image and every other vector to the dummy
  routine.  Memory above 1 MB is as before.
\<close>

theorem setup_bios_image:
  assumes "0x100000 \<le> ram_bytes r"
  shows "\<exists>r'. setup_bios r = Some r' \<and> ram_get r' MB_BIOS_BEGIN (length bios_rom) = Some bios_rom \<and>
    ram_u32 r' E820_MAP_START = Some 4 \<and>
    (\<forall>i < 4. ram_get r' (E820_MAP_START + 4 + 20 * i) 20 = Some (e820_bytes (e820_entries (ram_bytes r) ! i))) \<and>
    (\<forall>v < 256. ram_get r' (4 * v) 4 =
       Some (le_bytes 2 (if v = 0x10 then 0x40 else if v = 0x15 then 0x80 else 0x30 :: u16) @ le_bytes 2 (0xf000 :: u16))) \<and>
    (\<forall>a n. 0x100000 \<le> a \<longrightarrow> ram_get r' a n = ram_get r a n)"
proof -
  let ?n = "ram_bytes r"
  from setup_bios_eq [OF assms] obtain r1 where p: "pokes r (bios_writes ?n) = Some r1" and
    rom: "ram_get r1 MB_BIOS_BEGIN 687 = Some bios_rom" and s: "setup_bios r = ram_put r1 REAL_MODE_IVT_BEGIN (ivt_bytes boot_ivt)" by blast
  have len: "length boot_ivt = 256" by (simp add: boot_ivt_def boot_consts)
  have "ram_bytes r1 = ?n" by (rule pokes_bytes [OF p])
  with assms guest.put_defined [of REAL_MODE_IVT_BEGIN "ivt_bytes boot_ivt" r1] obtain r' where
    r': "ram_put r1 REAL_MODE_IVT_BEGIN (ivt_bytes boot_ivt) = Some r'" by (auto simp: len boot_consts)
  have other: "ram_get r' a n = ram_get r1 a n" if "1024 \<le> a" for a n
    using guest.get_put_other [OF r', of a n] that by (simp add: len boot_consts)
  have e: "ram_get r1 (E820_MAP_START + 4 + 20 * i) 20 = Some (e820_bytes (e820_entries ?n ! i))" if "i < 4" for i
  proof -
    have "i \<in> {0, 1, 2, 3}" using that by auto
    then show ?thesis
      using pokes_nth [OF p, of "5 + i" "E820_MAP_START + 4 + 20 * i" "e820_bytes (e820_entries ?n ! i)"]
      by (auto simp: bios_lists boot_consts)
  qed
  have nr: "ram_get r1 E820_MAP_START 4 = Some (le_bytes 4 (4 :: u32))"
    using pokes_nth [OF p, of 9 E820_MAP_START "le_bytes 4 (4 :: u32)"] by (simp add: bios_lists boot_consts)
  have ivt: "ram_get r' (4 * v) 4 = Some (le_bytes 2 (fst (boot_ivt ! v)) @ le_bytes 2 (snd (boot_ivt ! v)))" if "v < 256" for v
    using ram_get_sub [OF guest.get_put_same [OF r'], of "4 * v" 4] that ivt_bytes_nth [of v boot_ivt]
    by (simp add: len boot_consts)
  have vec: "boot_ivt ! v = (if v = 0x10 then 0x40 else if v = 0x15 then 0x80 else 0x30, 0xf000)" if "v < 256" for v
    using that by (simp add: boot_ivt_def boot_consts)
  have high: "ram_get r' a n = ram_get r a n" if "0x100000 \<le> a" for a n
  proof -
    have "clear_of (bios_writes ?n) a n" using that by (simp add: bios_lists boot_consts length_bios_rom)
    from pokes_clear [OF p this] other [of a n] that show ?thesis by simp
  qed
  have "ram_get r' MB_BIOS_BEGIN 687 = Some bios_rom" using rom other [of MB_BIOS_BEGIN 687] by (simp add: boot_consts)
  moreover have "ram_u32 r' E820_MAP_START = Some 4" using nr other [of E820_MAP_START 4] by (simp add: ram_u32_def boot_consts)
  moreover have "ram_get r' (E820_MAP_START + 4 + 20 * i) 20 = Some (e820_bytes (e820_entries ?n ! i))" if "i < 4" for i
    using e [OF that] other [of "E820_MAP_START + 4 + 20 * i" 20] by (simp add: boot_consts)
  moreover have "ram_get r' (4 * v) 4 =
       Some (le_bytes 2 (if v = 0x10 then 0x40 else if v = 0x15 then 0x80 else 0x30 :: u16) @ le_bytes 2 (0xf000 :: u16))" if "v < 256" for v
    using ivt [OF that] vec [OF that] by simp
  ultimately show ?thesis using s r' high unfolding length_bios_rom by auto
qed

theorem setup_bios_image_witness:
  "\<exists>r'. setup_bios (ram demo_vm) = Some r' \<and> ram_u32 r' E820_MAP_START = Some 4 \<and>
     ram_get r' 0x40 4 = Some (le_bytes 2 (0x40 :: u16) @ le_bytes 2 (0xf000 :: u16))"
proof -
  have "0x100000 \<le> ram_bytes (ram demo_vm)" by (simp add: demo_vm_def)
  from setup_bios_image [OF this] obtain r' where r: "setup_bios (ram demo_vm) = Some r'" "ram_u32 r' E820_MAP_START = Some 4"
    "\<forall>v < 256. ram_get r' (4 * v) 4 =
       Some (le_bytes 2 (if v = 0x10 then 0x40 else if v = 0x15 then 0x80 else 0x30 :: u16) @ le_bytes 2 (0xf000 :: u16))" by blast
  from r(3) [rule_format, of "0x10"] r show ?thesis by simp
qed

section \<open>Kernel and initial RAM disk\<close>

lemma length_strncpy [simp]: "length (strncpy n s) = n"
  by (simp add: strncpy_def)

lemma setup_size_bound: "512 \<le> setup_size f" "setup_size f \<le> 0x20000"
  using unsigned_less [of "f ! OFF_setup_sects", where 'a = nat] by (auto simp: setup_size_def BZ_DEFAULT_SETUP_SECTS_def Let_def)

lemma cmdline_max_bound: "1 \<le> cmdline_max f" "cmdline_max f \<le> 4096"
  by (auto simp: cmdline_max_def Let_def)

lemma unat_align_1M: "unat ((x :: u64) AND NOT 0xfffff) = unat x div 0x100000 * 0x100000"
  using unat_and_not_mask [of 20 x] by (simp add: mask_eq_exp_minus_1)

lemma initrd_addr_unat:
  assumes "len \<le> n" and "n < 2 ^ 64"
  shows "unat (initrd_addr n len) = (n - len) div 0x100000 * 0x100000"
proof -
  have "of_nat n - of_nat len = (of_nat (n - len) :: u64)" using assms(1) by (simp add: of_nat_diff)
  moreover have "unat (of_nat (n - len) :: u64) = n - len" using assms by (intro unat_u64) simp
  ultimately show ?thesis unfolding initrd_addr_def unat_align_1M by simp
qed

definition bz_writes :: "u8 list \<Rightarrow> string \<Rightarrow> (nat \<times> u8 list) list" where
  "bz_writes f cmd =
     [(LOADER_GPA, take (setup_size f) f), (BZ_KERNEL_START, drop (setup_size f) f),
      filled BOOT_CMDLINE_OFFSET (cmdline_max f), (BOOT_CMDLINE_OFFSET, strncpy (cmdline_max f - 1) (bytes cmd)),
      (LOADER_GPA + OFF_cmd_line_ptr, le_bytes 4 (of_nat BOOT_CMDLINE_OFFSET :: u32)),
      (LOADER_GPA + OFF_type_of_loader, [0xff]), (LOADER_GPA + OFF_heap_end_ptr, le_bytes 2 (0xfe00 :: u16))]"

lemmas bz_lists = bz_writes_def filled_def LOADER_GPA_def boot_consts boot_offs

lemma patch_header:
  assumes "0x100000 \<le> ram_bytes r1"
  shows "\<exists>r2 r3. patch_loadflags r1 = Some r2 \<and> pokes r2 [(LOADER_GPA + OFF_vid_mode, le_bytes 2 (0 :: u16))] = Some r3 \<and>
    ram_bytes r3 = ram_bytes r1 \<and>
    (\<forall>a n. a + n \<le> 0x101fa \<or> 0x10212 \<le> a \<or> 0x101fc \<le> a \<and> a + n \<le> 0x10211 \<longrightarrow> ram_get r3 a n = ram_get r1 a n)"
proof -
  have "LOADER_GPA + OFF_loadflags + 1 \<le> ram_bytes r1" using assms by (simp add: bz_lists)
  from ram_get_defined [OF this] obtain b where b: "ram_get r1 (LOADER_GPA + OFF_loadflags) 1 = Some b" by blast
  let ?x = "[((hd b) AND NOT 2) OR 0x80]"
  from guest.put_defined [of "LOADER_GPA + OFF_loadflags" ?x r1] assms obtain r2 where
    r2: "ram_put r1 (LOADER_GPA + OFF_loadflags) ?x = Some r2" by (auto simp: bz_lists)
  have b2: "ram_bytes r2 = ram_bytes r1" by (rule guest.put_size [OF r2])
  from guest.put_defined [of "LOADER_GPA + OFF_vid_mode" "le_bytes 2 (0 :: u16)" r2] assms b2 obtain r3 where
    r3: "ram_put r2 (LOADER_GPA + OFF_vid_mode) (le_bytes 2 (0 :: u16)) = Some r3" by (auto simp: bz_lists)
  have "ram_get r3 a n = ram_get r1 a n" if "a + n \<le> 0x101fa \<or> 0x10212 \<le> a \<or> 0x101fc \<le> a \<and> a + n \<le> 0x10211" for a n
    using guest.get_put_other [OF r2, of a n] guest.get_put_other [OF r3, of a n] that by (auto simp: bz_lists)
  moreover have "patch_loadflags r1 = Some r2" using b r2 by (simp add: patch_loadflags_def)
  ultimately show ?thesis using r3 b2 guest.put_size [OF r3] by auto
qed

lemma place_bzimage_ok:
  assumes "BOOT_PARAMS_SIZE \<le> length f" and "file_u32 f OFF_header = 0x53726448" and "setup_size f \<le> length f"
    and "0x100000 \<le> ram_bytes r" and "BZ_KERNEL_START + (length f - setup_size f) \<le> ram_bytes r"
  shows "\<exists>r3. place_bzimage f cmd r = Some (True, r3) \<and> ram_bytes r3 = ram_bytes r \<and>
    ram_get r3 BZ_KERNEL_START (length f - setup_size f) = Some (drop (setup_size f) f) \<and>
    ram_get r3 (LOADER_GPA + OFF_cmd_line_ptr) 4 = Some (le_bytes 4 (of_nat BOOT_CMDLINE_OFFSET :: u32)) \<and>
    ram_get r3 BOOT_CMDLINE_OFFSET (cmdline_max f) = Some (strncpy (cmdline_max f - 1) (bytes cmd) @ [0]) \<and>
    ram_get r3 (LOADER_GPA + OFF_type_of_loader) 1 = Some [0xff]"
proof -
  let ?ws = "bz_writes f cmd" and ?k = "drop (setup_size f) f" and ?cm = "cmdline_max f"
  note bounds = setup_size_bound [of f] cmdline_max_bound [of f]
  have "fits (ram_bytes r) ?ws" using assms(3-5) bounds by (simp add: bz_lists)
  from pokes_defined [OF this] obtain r1 where r1: "pokes r ?ws = Some r1" by blast
  have b1: "ram_bytes r1 = ram_bytes r" by (rule pokes_bytes [OF r1])
  from patch_header [of r1] assms(4) b1 obtain r2 r3 where
    p: "patch_loadflags r1 = Some r2" "pokes r2 [(LOADER_GPA + OFF_vid_mode, le_bytes 2 (0 :: u16))] = Some r3" "ram_bytes r3 = ram_bytes r1"
    and keep: "\<And>a n. a + n \<le> 0x101fa \<or> 0x10212 \<le> a \<or> 0x101fc \<le> a \<and> a + n \<le> 0x10211 \<Longrightarrow> ram_get r3 a n = ram_get r1 a n" by auto
  have place: "place_bzimage f cmd r = Some (True, r3)"
    using assms(1-3) r1 p(1,2) by (simp add: place_bzimage_def bz_writes_def)
  have "ram_get r1 BZ_KERNEL_START (length ?k) = Some ?k"
    by (rule pokes_nth [OF r1, of 1]) (use bounds in \<open>simp_all add: bz_lists\<close>)
  then have kernel: "ram_get r3 BZ_KERNEL_START (length f - setup_size f) = Some ?k"
    using keep [of BZ_KERNEL_START "length ?k"] by (simp add: bz_lists)
  have "ram_get r1 (LOADER_GPA + OFF_cmd_line_ptr) (length (le_bytes 4 (of_nat BOOT_CMDLINE_OFFSET :: u32))) =
      Some (le_bytes 4 (of_nat BOOT_CMDLINE_OFFSET :: u32))"
    by (rule pokes_nth [OF r1, of 4]) (simp_all add: bz_lists)
  then have ptr: "ram_get r3 (LOADER_GPA + OFF_cmd_line_ptr) 4 = Some (le_bytes 4 (of_nat BOOT_CMDLINE_OFFSET :: u32))"
    using keep [of "LOADER_GPA + OFF_cmd_line_ptr" 4] by (simp add: bz_lists)
  have "ram_get r1 (LOADER_GPA + OFF_type_of_loader) (length [0xff :: u8]) = Some [0xff]"
    by (rule pokes_nth [OF r1, of 5]) (simp_all add: bz_lists)
  then have loader: "ram_get r3 (LOADER_GPA + OFF_type_of_loader) 1 = Some [0xff]"
    using keep [of "LOADER_GPA + OFF_type_of_loader" 1] by (simp add: bz_lists)
  let ?c = "strncpy (?cm - 1) (bytes cmd)"
  have "ram_get r1 BOOT_CMDLINE_OFFSET (length ?c) = Some ?c"
    by (rule pokes_nth [OF r1, of 3]) (use bounds in \<open>simp_all add: bz_lists\<close>)
  moreover have "ram_get r1 (BOOT_CMDLINE_OFFSET + length ?c) 1 = Some (take 1 (drop (BOOT_CMDLINE_OFFSET + length ?c - BOOT_CMDLINE_OFFSET) (replicate ?cm 0)))"
    by (rule pokes_nth_sub [OF r1, of 2]) (use bounds in \<open>simp_all add: bz_lists\<close>)
  ultimately have "ram_get r1 BOOT_CMDLINE_OFFSET (length ?c + 1) = Some (?c @ [0])"
    using ram_get_append [of r1 BOOT_CMDLINE_OFFSET "length ?c" ?c 1] bounds by simp
  then have cmd: "ram_get r3 BOOT_CMDLINE_OFFSET ?cm = Some (?c @ [0])"
    using keep [of BOOT_CMDLINE_OFFSET ?cm] bounds by (simp add: bz_lists)
  show ?thesis using place p(3) b1 kernel ptr loader cmd by auto
qed

lemma place_initrd_ok:
  assumes "length i \<le> ram_bytes r" and "ram_bytes r < 2 ^ 32" and "0x100000 \<le> (ram_bytes r - length i) div 0x100000 * 0x100000"
  shows "\<exists>r2. place_initrd i r = Some r2 \<and>
    ram_u32 r2 (LOADER_GPA + OFF_ramdisk_image) = Some (ucast (initrd_addr (ram_bytes r) (length i))) \<and>
    ram_u32 r2 (LOADER_GPA + OFF_ramdisk_size) = Some (of_nat (length i)) \<and>
    ram_get r2 (unat (initrd_addr (ram_bytes r) (length i))) (length i) = Some i \<and>
    (\<forall>a n. (a + n \<le> 0x10218 \<or> 0x10220 \<le> a) \<and> a + n \<le> unat (initrd_addr (ram_bytes r) (length i)) \<longrightarrow> ram_get r2 a n = ram_get r a n)"
proof -
  let ?ad = "initrd_addr (ram_bytes r) (length i)"
  let ?ws = "[(unat ?ad, i), (LOADER_GPA + OFF_ramdisk_image, le_bytes 4 (ucast ?ad :: u32)),
           (LOADER_GPA + OFF_ramdisk_size, le_bytes 4 (of_nat (length i) :: u32))]"
  have ad: "unat ?ad = (ram_bytes r - length i) div 0x100000 * 0x100000" using assms(1,2) by (intro initrd_addr_unat) simp_all
  have low: "0x100000 \<le> unat ?ad" using assms(3) by (simp only: ad)
  have high: "unat ?ad \<le> ram_bytes r - length i" unfolding ad by simp
  have "fits (ram_bytes r) ?ws" using assms(1) low high by (simp add: bz_lists) linarith
  from pokes_defined [OF this] obtain r2 where r2: "pokes r ?ws = Some r2" by blast
  have "ram_get r2 (LOADER_GPA + OFF_ramdisk_image) (length (le_bytes 4 (ucast ?ad :: u32))) = Some (le_bytes 4 (ucast ?ad :: u32))"
    by (rule pokes_nth [OF r2, of 1]) (simp_all add: bz_lists)
  then have 1: "ram_u32 r2 (LOADER_GPA + OFF_ramdisk_image) = Some (ucast ?ad)" by (simp add: ram_u32_def)
  have "ram_get r2 (LOADER_GPA + OFF_ramdisk_size) (length (le_bytes 4 (of_nat (length i) :: u32))) = Some (le_bytes 4 (of_nat (length i) :: u32))"
    by (rule pokes_nth [OF r2, of 2]) (simp_all add: bz_lists)
  then have 2: "ram_u32 r2 (LOADER_GPA + OFF_ramdisk_size) = Some (of_nat (length i))" by (simp add: ram_u32_def)
  have 3: "ram_get r2 (unat ?ad) (length i) = Some i"
    by (rule pokes_nth [OF r2, of 0]) (use low in \<open>simp_all add: bz_lists\<close>)
  have "ram_get r2 a n = ram_get r a n" if "(a + n \<le> 0x10218 \<or> 0x10220 \<le> a) \<and> a + n \<le> unat ?ad" for a n
    by (rule pokes_clear [OF r2]) (use that in \<open>auto simp: bz_lists\<close>)
  with 1 2 3 r2 show ?thesis by (auto simp: place_initrd_def Let_def)
qed

text \<open>
  Claim C20.  Kernel, command line and RAM disk are where the boot header says.  Take a kernel file with a valid
  header and complete setup part, and a RAM disk that leaves room for the kernel below it.  Then
  both can be placed; afterwards the protected-mode kernel is at 1 MB, the header points to the command line, which is
  cut to fit and ends with a zero byte, and to the RAM disk, which is whole and aligned to 1 MB; the
  header names an unknown boot loader.
\<close>

theorem kernel_and_initrd_placed:
  assumes "BOOT_PARAMS_SIZE \<le> length f" and "file_u32 f OFF_header = 0x53726448" and "setup_size f \<le> length f"
    and "length i \<le> ram_bytes r" and "ram_bytes r < 2 ^ 32" and "0x100000 \<le> ram_bytes r"
    and "BZ_KERNEL_START + (length f - setup_size f) \<le> (ram_bytes r - length i) div 0x100000 * 0x100000"
  shows "\<exists>r1 r2 a. place_bzimage f cmd r = Some (True, r1) \<and> place_initrd i r1 = Some r2 \<and>
    ram_get r2 BZ_KERNEL_START (length f - setup_size f) = Some (drop (setup_size f) f) \<and>
    ram_u32 r2 (LOADER_GPA + OFF_cmd_line_ptr) = Some (of_nat BOOT_CMDLINE_OFFSET) \<and>
    ram_get r2 BOOT_CMDLINE_OFFSET (cmdline_max f) = Some (strncpy (cmdline_max f - 1) (bytes cmd) @ [0]) \<and>
    ram_u32 r2 (LOADER_GPA + OFF_ramdisk_image) = Some a \<and> ram_u32 r2 (LOADER_GPA + OFF_ramdisk_size) = Some (of_nat (length i)) \<and>
    ram_get r2 (unat a) (length i) = Some i \<and> unat a mod 0x100000 = 0 \<and>
    ram_get r2 (LOADER_GPA + OFF_type_of_loader) 1 = Some [0xff]"
proof -
  let ?ad = "initrd_addr (ram_bytes r) (length i)" and ?k = "length f - setup_size f"
  have ad: "unat ?ad = (ram_bytes r - length i) div 0x100000 * 0x100000" using assms(4,5) by (intro initrd_addr_unat) simp_all
  have end_k: "BZ_KERNEL_START + ?k \<le> unat ?ad" using assms(7) by (simp only: ad)
  have high: "unat ?ad \<le> ram_bytes r" unfolding ad by (meson diff_le_self div_times_less_eq_dividend le_trans)
  from place_bzimage_ok [OF assms(1-3,6), of cmd] end_k high obtain r1 where r1: "place_bzimage f cmd r = Some (True, r1)" "ram_bytes r1 = ram_bytes r"
    "ram_get r1 BZ_KERNEL_START ?k = Some (drop (setup_size f) f)"
    "ram_get r1 (LOADER_GPA + OFF_cmd_line_ptr) 4 = Some (le_bytes 4 (of_nat BOOT_CMDLINE_OFFSET :: u32))"
    "ram_get r1 BOOT_CMDLINE_OFFSET (cmdline_max f) = Some (strncpy (cmdline_max f - 1) (bytes cmd) @ [0])"
    "ram_get r1 (LOADER_GPA + OFF_type_of_loader) 1 = Some [0xff]" by auto
  have low: "0x100000 \<le> unat ?ad" using end_k by (simp add: boot_consts)
  have "0x100000 \<le> (ram_bytes r1 - length i) div 0x100000 * 0x100000" using low by (simp only: ad r1(2))
  from place_initrd_ok [OF _ _ this] assms(4,5) r1(2) obtain r2 where r2: "place_initrd i r1 = Some r2"
    "ram_u32 r2 (LOADER_GPA + OFF_ramdisk_image) = Some (ucast ?ad)"
    "ram_u32 r2 (LOADER_GPA + OFF_ramdisk_size) = Some (of_nat (length i))" "ram_get r2 (unat ?ad) (length i) = Some i"
    and keep: "\<And>a n. (a + n \<le> 0x10218 \<or> 0x10220 \<le> a) \<and> a + n \<le> unat ?ad \<Longrightarrow> ram_get r2 a n = ram_get r1 a n" by auto
  have "unat ?ad < 2 ^ 32" using high assms(5) by linarith
  then have u: "unat (ucast ?ad :: u32) = unat ?ad" by (simp add: unsigned_ucast_eq take_bit_nat_eq_self)
  have "ram_get r2 BZ_KERNEL_START ?k = ram_get r1 BZ_KERNEL_START ?k" using end_k by (intro keep) (simp add: boot_consts)
  moreover have "ram_u32 r2 (LOADER_GPA + OFF_cmd_line_ptr) = Some (of_nat BOOT_CMDLINE_OFFSET)"
    using keep [of "LOADER_GPA + OFF_cmd_line_ptr" 4] low r1(4) by (simp add: ram_u32_def bz_lists)
  moreover have "ram_get r2 BOOT_CMDLINE_OFFSET (cmdline_max f) = ram_get r1 BOOT_CMDLINE_OFFSET (cmdline_max f)"
    using low cmdline_max_bound [of f] by (intro keep) (simp add: boot_consts)
  moreover have "ram_get r2 (LOADER_GPA + OFF_type_of_loader) 1 = ram_get r1 (LOADER_GPA + OFF_type_of_loader) 1"
    using low by (intro keep) (simp add: bz_lists)
  moreover have "unat ?ad mod 0x100000 = 0" unfolding ad by (rule mod_mult_self2_is_0)
  ultimately show ?thesis using r1 r2 u by (intro exI [of _ r1] exI [of _ r2] exI [of _ "ucast ?ad"]) simp
qed

definition demo_kernel :: "u8 list" where
  "demo_kernel = replicate 497 0 @ [7] @ replicate 16 0 @ [0x48, 0x64, 0x72, 0x53] @ replicate 4090 0"

theorem kernel_and_initrd_placed_witness:
  "\<exists>r1 r2. place_bzimage demo_kernel ''console=ttyS0'' (fresh_ram 0x300000) = Some (True, r1) \<and> place_initrd [1, 2, 3] r1 = Some r2 \<and>
     ram_get r2 BZ_KERNEL_START 512 = Some (replicate 512 0)"
proof -
  have s: "setup_size demo_kernel = 4096" by (simp add: setup_size_def demo_kernel_def boot_offs nth_append)
  have h: "file_u32 demo_kernel OFF_header = 0x53726448" by (simp add: file_u32_def demo_kernel_def boot_offs)
  have d: "drop 4096 demo_kernel = replicate 512 0" by (simp add: demo_kernel_def boot_offs)
  have l: "length demo_kernel = 4608" by (simp add: demo_kernel_def)
  show ?thesis using kernel_and_initrd_placed [of demo_kernel "[1, 2, 3]" "fresh_ram 0x300000" "''console=ttyS0''"]
    by (auto simp: s h l d boot_consts BOOT_PARAMS_SIZE_def fresh_ram_def)
qed

end
