(* ===== verification/Run_Loop.thy ===== *)
theory Run_Loop
  imports Snapshot
begin

text \<open>
  The run loop of \<^verbatim>\<open>src/vmm.cpp\<close> (\<open>Vmm::run\<close>) and the thread that interrupts it (\<open>irq_thread_func\<close> of
  \<^verbatim>\<open>src/virtio.cpp\<close>).  The guest is code the program does not contain: what each \<open>KVM_RUN\<close> comes back with is
  an element of a list, which is arbitrary in every theorem.  A loop that has used up the list is still running.
\<close>

section \<open>Exits\<close>

datatype kvm_exit =
    Exit_io_out u16 nat "u8 list"
  | Exit_io_in u16 "u8 list"
  | Exit_mmio_write u64 "u8 list" nat
  | Exit_mmio_read u64 "u8 list" nat
  | Exit_hlt
  | Exit_shutdown
  | Exit_fail_entry
  | Exit_internal_error
  | Exit_other

text \<open>An \<open>ioctl\<close> that fails with \<open>EINTR\<close>, one that fails otherwise, and one that returns with an exit.\<close>

datatype vcpu_event = Interrupted | Run_failed | Ran kvm_exit

datatype run_result = Returned int "vcpu_event list" | Running nat

definition MMIO_SIGNAL_GPA :: nat where "MMIO_SIGNAL_GPA = 0xd0000000"
definition MMIO_SIGNAL_MAGIC :: u32 where "MMIO_SIGNAL_MAGIC = 0x48594C54"
definition KVM_MP_STATE_HALTED :: u32 where "KVM_MP_STATE_HALTED = 3"

text \<open>\<^verbatim>\<open>regs.rflags & 0x200\<close> of what \<open>KVM_GET_REGS\<close> answers: \<open>rflags\<close> is the last of 18 registers.\<close>

definition irqs_enabled :: "os \<Rightarrow> log \<Rightarrow> bool" where
  "irqs_enabled w tr \<longleftrightarrow> (le_val (drop 136 (fixed 144 (os_data w tr (Kvm_get K_regs)))) :: u64) AND 0x200 \<noteq> 0"

definition vcpu_halted :: "os \<Rightarrow> log \<Rightarrow> bool" where
  "vcpu_halted w tr \<longleftrightarrow> os_ret w tr (Kvm_get K_mp_state) = 0 \<and>
     le_val (fixed 4 (os_data w tr (Kvm_get K_mp_state))) = KVM_MP_STATE_HALTED"

text \<open>After an interruption: how often in a row the vCPU has been found halted with interrupts off.\<close>

definition halt_check :: "os \<Rightarrow> nat \<Rightarrow> log \<Rightarrow> nat \<times> log" where
  "halt_check w c tr =
     (let tr1 = tr @ [Kvm_get K_regs]
      in if irqs_enabled w tr then (0, tr1)
         else if vcpu_halted w tr1 then (Suc c, tr1 @ [Kvm_get K_mp_state])
         else (0, tr1 @ [Kvm_get K_mp_state]))"

definition in_window :: "u64 \<Rightarrow> nat \<Rightarrow> nat \<Rightarrow> bool" where
  "in_window addr base sz \<longleftrightarrow> base \<le> unat addr \<and> unat addr < base + sz"

definition COM1 :: "u16 \<Rightarrow> bool" where
  "COM1 port \<longleftrightarrow> 0x3f8 \<le> port \<and> port \<le> 0x3ff"

text \<open>
  One exit.  The result says whether the loop returns and with what, and what the data area of
  \<open>kvm_run\<close> holds when the guest continues.  A read past a config object is undefined (\<open>None\<close>).
\<close>

definition handle_io_out :: "os \<Rightarrow> u16 \<Rightarrow> nat \<Rightarrow> u8 list \<Rightarrow> vmm \<Rightarrow> log \<Rightarrow> vmm \<times> log" where
  "handle_io_out w port sz bs v tr =
     (if COM1 port \<and> sz = 1
      then (let (u, tr1) = serial_outs w port bs (serial v) tr in (v\<lparr>serial := u\<rparr>, tr1))
      else (v, tr))"

definition handle_io_in :: "u16 \<Rightarrow> u8 list \<Rightarrow> vmm \<Rightarrow> u8 list" where
  "handle_io_in port bs v =
     (if COM1 port then serial_in port (serial v) # drop 1 bs else replicate (length bs) 0)"

definition handle_mmio_write :: "os \<Rightarrow> u64 \<Rightarrow> u64 \<Rightarrow> u8 list \<Rightarrow> nat \<Rightarrow> vmm \<Rightarrow> log \<Rightarrow> int option \<times> vmm \<times> log" where
  "handle_mmio_write w hva addr bs len v tr =
     (if unat addr = MMIO_SIGNAL_GPA
      then (if mmio_val bs len = MMIO_SIGNAL_MAGIC
            then (if ignore_next_signal v then (None, v\<lparr>ignore_next_signal := False\<rparr>, tr) else (Some 1, v, tr))
            else (None, v, tr))
      else if in_window addr VIRTIO_MMIO_GPA VIRTIO_MMIO_SIZE
      then (let (d, tr1) = virtio_mmio_write w hva (unat addr - VIRTIO_MMIO_GPA) bs len (fs v) tr in (None, v\<lparr>fs := d\<rparr>, tr1))
      else if in_window addr VIRTIO_NET_MMIO_GPA VIRTIO_NET_MMIO_SIZE
      then (let (d, tr1) = net_mmio_write w (unat addr - VIRTIO_NET_MMIO_GPA) bs len (net v) tr in (None, v\<lparr>net := d\<rparr>, tr1))
      else (None, v, tr))"

definition handle_mmio_read :: "u64 \<Rightarrow> u8 list \<Rightarrow> nat \<Rightarrow> vmm \<Rightarrow> u8 list option" where
  "handle_mmio_read addr bs len v =
     (if in_window addr VIRTIO_MMIO_GPA VIRTIO_MMIO_SIZE then virtio_mmio_read (unat addr - VIRTIO_MMIO_GPA) bs len (fs v)
      else if in_window addr VIRTIO_NET_MMIO_GPA VIRTIO_NET_MMIO_SIZE
      then net_mmio_read (unat addr - VIRTIO_NET_MMIO_GPA) bs len (net v)
      else if length bs < len then None
      else Some (replicate len 0xff @ drop len bs))"

fun handle_exit :: "os \<Rightarrow> u64 \<Rightarrow> kvm_exit \<Rightarrow> vmm \<Rightarrow> log \<Rightarrow> (int option \<times> u8 list \<times> vmm \<times> log) option" where
  "handle_exit w hva (Exit_io_out port sz bs) v tr =
     (let (v1, tr1) = handle_io_out w port sz bs v tr in Some (None, bs, v1, tr1))"
| "handle_exit w hva (Exit_io_in port bs) v tr = Some (None, handle_io_in port bs v, v, tr)"
| "handle_exit w hva (Exit_mmio_write addr bs len) v tr =
     (let (rc, v1, tr1) = handle_mmio_write w hva addr bs len v tr in Some (rc, bs, v1, tr1))"
| "handle_exit w hva (Exit_mmio_read addr bs len) v tr =
     map_option (\<lambda>bs1. (None, bs1, v, tr)) (handle_mmio_read addr bs len v)"
| "handle_exit w hva Exit_hlt v tr = Some (if irqs_enabled w tr then None else Some 0, [], v, tr @ [Kvm_get K_regs])"
| "handle_exit w hva Exit_shutdown v tr = Some (Some 0, [], v, tr)"
| "handle_exit w hva Exit_fail_entry v tr = Some (Some (-1), [], v, tr)"
| "handle_exit w hva Exit_internal_error v tr = Some (Some (-1), [], v, tr)"
| "handle_exit w hva Exit_other v tr = Some (None, [], v, tr)"

section \<open>The loop\<close>

fun run :: "os \<Rightarrow> u64 \<Rightarrow> vcpu_event list \<Rightarrow> nat \<Rightarrow> vmm \<Rightarrow> log \<Rightarrow> (run_result \<times> vmm \<times> log) option" where
  "run w hva [] c v tr = Some (Running c, v, tr)"
| "run w hva (e # es) c v tr =
     (let (d, tr1) = check_virtio_irqs w (fs v) tr; v1 = v\<lparr>fs := d\<rparr>; tr2 = tr1 @ [Kvm_run]
      in case e of
           Run_failed \<Rightarrow> Some (Returned (-1) es, v1, tr2)
         | Interrupted \<Rightarrow>
             (let (c1, tr3) = halt_check w c tr2
              in if 2 \<le> c1 then Some (Returned 0 es, v1, tr3) else run w hva es c1 v1 tr3)
         | Ran x \<Rightarrow>
             (case handle_exit w hva x v1 tr2 of
                None \<Rightarrow> None
              | Some (rc, _, v2, tr3) \<Rightarrow>
                  (case rc of Some n \<Rightarrow> Some (Returned n es, v2, tr3) | None \<Rightarrow> run w hva es 0 v2 tr3)))"

section \<open>The interrupting thread\<close>

text \<open>
  One round: poll the call descriptors and the wake-up descriptor for 10 ms.  The thread ends on
  the wake-up, otherwise it signals the vCPU thread.
\<close>

definition irq_poll_fds :: "fs_dev \<Rightarrow> int list" where
  "irq_poll_fds d = filter (\<lambda>fd. 0 \<le> fd) (map call_fd (vqs d)) @ [irq_wakeup_fd d]"

definition irq_round :: "os \<Rightarrow> fs_dev \<Rightarrow> log \<Rightarrow> bool \<times> log" where
  "irq_round w d tr =
     (let c = Poll (irq_poll_fds d); ev = fixed (length (irq_poll_fds d)) (os_data w tr c)
      in if 0 < os_ret w tr c \<and> ev ! (length (irq_poll_fds d) - 1) AND 1 \<noteq> 0
         then (False, tr @ [c, Eventfd_read (irq_wakeup_fd d)])
         else (True, tr @ [c, Wake_vcpu]))"

fun irq_thread_func :: "os \<Rightarrow> fs_dev list \<Rightarrow> log \<Rightarrow> log" where
  "irq_thread_func w [] tr = tr"
| "irq_thread_func w (d # ds) tr =
     (if irq_thread_running d
      then (case irq_round w d tr of (go, tr1) \<Rightarrow> if go then irq_thread_func w ds tr1 else tr1)
      else tr)"

section \<open>The snapshot signal\<close>

fun is_signal :: "vcpu_event \<Rightarrow> bool" where
  "is_signal (Ran (Exit_mmio_write addr bs len)) \<longleftrightarrow> unat addr = MMIO_SIGNAL_GPA \<and> mmio_val bs len = MMIO_SIGNAL_MAGIC"
| "is_signal _ \<longleftrightarrow> False"

definition signals :: "vcpu_event list \<Rightarrow> nat" where
  "signals es = length (filter is_signal es)"

lemma signals_simps [simp]:
  "signals [] = 0" "signals (e # es) = (if is_signal e then Suc (signals es) else signals es)"
  by (simp_all add: signals_def)

lemma handle_exit_signal:
  assumes "handle_exit w hva x v tr = Some (rc, bs, v', tr')"
  shows "if is_signal (Ran x)
    then (if ignore_next_signal v then rc = None \<and> \<not> ignore_next_signal v' else rc = Some 1 \<and> v' = v)
    else rc \<noteq> Some 1 \<and> ignore_next_signal v' = ignore_next_signal v"
proof (cases x)
  case (Exit_io_out port sz d)
  with assms show ?thesis by (auto simp: handle_io_out_def Let_def case_prod_beta split: if_splits)
next
  case (Exit_mmio_write addr d len)
  with assms show ?thesis by (auto simp: handle_mmio_write_def Let_def case_prod_beta split: if_splits)
qed (use assms in \<open>auto split: if_splits\<close>)

text \<open>
  The protocol between the guest and the loop, for the events \<open>es\<close>: \<open>ign\<close> says whether one signal is to be
  ignored, \<open>ign'\<close> whether that is still so afterwards.
\<close>

fun signal_protocol :: "vcpu_event list \<Rightarrow> bool \<Rightarrow> run_result \<Rightarrow> bool \<Rightarrow> bool" where
  "signal_protocol es ign (Running _) ign' \<longleftrightarrow> signals es \<le> of_bool ign \<and> ign' = (ign \<and> signals es = 0)"
| "signal_protocol es ign (Returned rc rest) ign' \<longleftrightarrow> (\<exists>seen. es = seen @ rest \<and>
     (if rc = 1 then signals seen = Suc (of_bool ign) \<and> is_signal (last seen) \<and> \<not> ign'
      else signals seen \<le> of_bool ign \<and> ign' = (ign \<and> signals seen = 0)))"

lemma signal_protocol_Cons:
  assumes "signal_protocol es ign2 res ign'" and "if is_signal e then ign \<and> \<not> ign2 else ign2 = ign"
  shows "signal_protocol (e # es) ign res ign'"
proof (cases res)
  case (Running n)
  with assms show ?thesis by (auto split: if_splits)
next
  case (Returned rc rest)
  with assms(1) obtain seen where s: "es = seen @ rest"
    "if rc = 1 then signals seen = Suc (of_bool ign2) \<and> is_signal (last seen) \<and> \<not> ign'
     else signals seen \<le> of_bool ign2 \<and> ign' = (ign2 \<and> signals seen = 0)" by auto
  then have "if rc = 1 then signals (e # seen) = Suc (of_bool ign) \<and> is_signal (last (e # seen)) \<and> \<not> ign'
     else signals (e # seen) \<le> of_bool ign \<and> ign' = (ign \<and> signals (e # seen) = 0)"
    using assms(2) by (auto split: if_splits)
  with s(1) Returned show ?thesis unfolding Returned signal_protocol.simps by (intro exI [of _ "e # seen"] conjI) simp_all
qed

lemma signal_protocol_last:
  assumes "if n = 1 then is_signal e \<and> \<not> ign \<and> \<not> ign' else \<not> is_signal e \<and> ign' = ign"
  shows "signal_protocol (e # es) ign (Returned n es) ign'"
  unfolding signal_protocol.simps by (rule exI [of _ "[e]"]) (use assms in \<open>auto split: if_splits\<close>)

text \<open>
  Claim C16.  The run loop reports a snapshot request exactly when the guest makes one.  Whatever
  the guest does, the loop returns 1 at the first write of the magic number to the signal register, or at
  the second if the first is to be ignored because the machine has been restored; and it never returns 1
  otherwise.  Until then the request to ignore a signal stays pending exactly as long as none has come.
\<close>

theorem run_signal:
  assumes "run w hva es c v tr = Some (res, v', tr')"
  shows "signal_protocol es (ignore_next_signal v) res (ignore_next_signal v')"
  using assms
proof (induction es arbitrary: c v tr)
  case (Cons e es)
  obtain d tr1 where d: "check_virtio_irqs w (fs v) tr = (d, tr1)" by fastforce
  let ?v = "v\<lparr>fs := d\<rparr>" and ?tr = "tr1 @ [Kvm_run]"
  show ?case
  proof (cases e)
    case Run_failed
    with Cons.prems d have "res = Returned (-1) es" "v' = ?v" by simp_all
    then show ?thesis using Run_failed by (simp add: signal_protocol_last del: signal_protocol.simps)
  next
    case Interrupted
    obtain c1 tr3 where h: "halt_check w c ?tr = (c1, tr3)" by fastforce
    show ?thesis
    proof (cases "2 \<le> c1")
      case True
      with Cons.prems d h Interrupted have "res = Returned 0 es" "v' = ?v" by simp_all
      then show ?thesis using Interrupted by (simp add: signal_protocol_last del: signal_protocol.simps)
    next
      case False
      with Cons.prems d h Interrupted have "run w hva es c1 ?v tr3 = Some (res, v', tr')" by simp
      from signal_protocol_Cons [OF Cons.IH [OF this]] Interrupted show ?thesis by simp
    qed
  next
    case (Ran x)
    with Cons.prems d obtain rc bs v2 tr3 where h: "handle_exit w hva x ?v ?tr = Some (rc, bs, v2, tr3)"
      by (auto split: option.splits)
    note sig = handle_exit_signal [OF h]
    show ?thesis
    proof (cases rc)
      case None
      with Cons.prems d h Ran have "run w hva es 0 v2 tr3 = Some (res, v', tr')" by simp
      from signal_protocol_Cons [OF Cons.IH [OF this], of e "ignore_next_signal v"] sig None Ran show ?thesis
        by (simp split: if_splits)
    next
      case (Some n)
      with Cons.prems d h Ran have "res = Returned n es" "v' = v2" by simp_all
      with sig Some Ran show ?thesis by (auto simp del: signal_protocol.simps intro!: signal_protocol_last split: if_splits)
    qed
  qed
qed auto

definition signal_event :: vcpu_event where
  "signal_event = Ran (Exit_mmio_write 0xd0000000 [0x54, 0x4C, 0x59, 0x48, 0, 0, 0, 0] 4)"

lemma is_signal_event: "is_signal signal_event"
  by (simp add: signal_event_def MMIO_SIGNAL_GPA_def MMIO_SIGNAL_MAGIC_def mmio_val_def)

theorem run_signal_witness:
  "\<exists>res v' tr'. run one_os 0 [signal_event, signal_event, Interrupted] 0 (demo_vm\<lparr>ignore_next_signal := True\<rparr>) [] = Some (res, v', tr') \<and>
     res = Returned 1 [Interrupted]"
proof -
  obtain res v' tr' where r: "run one_os 0 [signal_event, signal_event, Interrupted] 0 (demo_vm\<lparr>ignore_next_signal := True\<rparr>) [] = Some (res, v', tr')"
    by (auto simp: signal_event_def handle_mmio_write_def MMIO_SIGNAL_GPA_def MMIO_SIGNAL_MAGIC_def mmio_val_def Let_def case_prod_beta)
  from run_signal [OF r] is_signal_event have "\<exists>rc rest. res = Returned rc rest"
    by (cases res) auto
  then obtain rc rest where res: "res = Returned rc rest" by blast
  from r res have "rc = 1" "rest = [Interrupted]"
    by (auto simp: signal_event_def handle_mmio_write_def MMIO_SIGNAL_GPA_def MMIO_SIGNAL_MAGIC_def mmio_val_def Let_def case_prod_beta)
  with r res show ?thesis by blast
qed

section \<open>Halting\<close>

text \<open>
  Claim C18.  When the loop reports that the guest has halted.  A guest that is halted with interrupts off
  ends the loop with 0 at the second signal of the interrupting thread, and not at the first.  A guest
  whose interrupts are on whenever the loop looks is never taken for halted: the loop returns 0
  only if the guest shuts down.
\<close>

theorem run_halt:
  assumes "\<forall>t. \<not> irqs_enabled w t \<and> vcpu_halted w t" and "\<forall>t. irqs_enabled w' t"
  shows "(\<exists>v1 t1. run w hva (Interrupted # Interrupted # es) 0 v tr = Some (Returned 0 es, v1, t1)) \<and>
    (\<exists>v1 t1. run w hva [Interrupted] 0 v tr = Some (Running 1, v1, t1)) \<and>
    (run w' hva es c v tr = Some (Returned 0 rest, v', tr') \<longrightarrow> Ran Exit_shutdown \<in> set es)"
proof (intro conjI impI)
  have h: "halt_check w c t = (Suc c, t @ [Kvm_get K_regs] @ [Kvm_get K_mp_state])" for c t
    using assms(1) by (simp add: halt_check_def)
  show "\<exists>v1 t1. run w hva (Interrupted # Interrupted # es) 0 v tr = Some (Returned 0 es, v1, t1)"
    "\<exists>v1 t1. run w hva [Interrupted] 0 v tr = Some (Running 1, v1, t1)"
    by (simp_all add: h case_prod_beta)
  have h': "halt_check w' c t = (0, t @ [Kvm_get K_regs])" for c t
    using assms(2) by (simp add: halt_check_def)
  have zero: "x = Exit_shutdown" if "handle_exit w' hva x u t = Some (Some 0, bs, u', t')" for x u t bs u' t'
    using that assms(2)
    by (cases x) (auto simp: handle_mmio_write_def case_prod_beta Let_def split: if_splits)
  assume "run w' hva es c v tr = Some (Returned 0 rest, v', tr')"
  then show "Ran Exit_shutdown \<in> set es"
  proof (induction es arbitrary: c v tr)
    case (Cons e es)
    obtain d tr1 where d: "check_virtio_irqs w' (fs v) tr = (d, tr1)" by fastforce
    show ?case
    proof (cases e)
      case (Ran x)
      with Cons.prems d obtain rc bs v2 tr3 where x: "handle_exit w' hva x (v\<lparr>fs := d\<rparr>) (tr1 @ [Kvm_run]) = Some (rc, bs, v2, tr3)"
        by (auto split: option.splits)
      show ?thesis
      proof (cases rc)
        case None
        with Cons.prems d x Ran Cons.IH show ?thesis by simp
      next
        case (Some n)
        with Cons.prems d x Ran have "n = 0" by simp
        with x Some have "x = Exit_shutdown" by (intro zero) simp
        with Ran show ?thesis by simp
      qed
    qed (use Cons.prems d h' Cons.IH in auto)
  qed simp
qed

definition flags_os :: "u8 \<Rightarrow> os" where
  "flags_os b = \<lparr>os_ret = (\<lambda>_ _. 0), os_data = (\<lambda>_ c. case c of Kvm_get K_regs \<Rightarrow> replicate 136 0 @ [0, b, 0, 0, 0, 0, 0, 0] | _ \<Rightarrow> [3, 0, 0, 0]), os_pair = (\<lambda>_ _. (1, 1))\<rparr>"

lemma flags_os_halted: "\<not> irqs_enabled (flags_os 0) t \<and> vcpu_halted (flags_os 0) t"
  by (simp add: irqs_enabled_def vcpu_halted_def flags_os_def KVM_MP_STATE_HALTED_def)

lemma flags_os_enabled: "irqs_enabled (flags_os 2) t"
  by (simp add: irqs_enabled_def flags_os_def)

theorem run_halt_witness:
  "(\<exists>v1 t1. run (flags_os 0) 0 [Interrupted, Interrupted] 0 demo_vm [] = Some (Returned 0 [], v1, t1)) \<and>
   (\<exists>v1 t1. run (flags_os 0) 0 [Interrupted] 0 demo_vm [] = Some (Running 1, v1, t1))"
  using run_halt [of "flags_os 0" "flags_os 2" 0 "[]" demo_vm "[]"] flags_os_halted flags_os_enabled by blast

section \<open>Drivers\<close>

text \<open>The writes of a driver, as the exits they cause.\<close>

definition net_write_exit :: "virtio_mmio_reg \<times> u32 \<Rightarrow> vcpu_event" where
  "net_write_exit p = Ran (Exit_mmio_write (of_nat (VIRTIO_NET_MMIO_GPA + reg_offset (fst p))) (le_bytes 4 (snd p)) 4)"

definition queue_regs :: "virtio_mmio_reg set" where
  "queue_regs = {QUEUE_SEL, QUEUE_NUM, QUEUE_READY, QUEUE_DESC_LOW, QUEUE_DESC_HIGH, QUEUE_DRIVER_LOW, QUEUE_DRIVER_HIGH,
     QUEUE_DEVICE_LOW, QUEUE_DEVICE_HIGH}"

lemma reg_offset_bound: "reg_offset r \<le> 0x100"
  by (cases r) (simp_all add: reg_offset.simps)

lemma net_window:
  assumes "addr = (of_nat (VIRTIO_NET_MMIO_GPA + reg_offset r) :: u64)"
  shows "unat addr = VIRTIO_NET_MMIO_GPA + reg_offset r" "unat addr \<noteq> MMIO_SIGNAL_GPA"
    "\<not> in_window addr VIRTIO_MMIO_GPA VIRTIO_MMIO_SIZE" "in_window addr VIRTIO_NET_MMIO_GPA VIRTIO_NET_MMIO_SIZE"
proof -
  have "VIRTIO_NET_MMIO_GPA + reg_offset r < 2 ^ 64" using reg_offset_bound [of r] by (simp add: VIRTIO_NET_MMIO_GPA_def)
  then show u: "unat addr = VIRTIO_NET_MMIO_GPA + reg_offset r"
    unfolding assms by (rule unat_u64)
  show "unat addr \<noteq> MMIO_SIGNAL_GPA" "\<not> in_window addr VIRTIO_MMIO_GPA VIRTIO_MMIO_SIZE"
    "in_window addr VIRTIO_NET_MMIO_GPA VIRTIO_NET_MMIO_SIZE"
    using reg_offset_bound [of r]
    by (simp_all add: u in_window_def VIRTIO_NET_MMIO_GPA_def VIRTIO_NET_MMIO_SIZE_def VIRTIO_MMIO_GPA_def VIRTIO_MMIO_SIZE_def MMIO_SIGNAL_GPA_def)
qed

lemma net_queue_write:
  "r \<in> queue_regs \<Longrightarrow> net_mmio_write w (reg_offset r) (le_bytes 4 x) 4 d tr = (net_wr w [] d r x, tr)"
  by (auto simp: queue_regs_def net_wr_eq net_mmio_write_reg mmio_val_def)

lemma check_virtio_irqs_vqs: "check_virtio_irqs w d tr = (d', tr') \<Longrightarrow> vqs d' = vqs d"
  by (auto simp: check_virtio_irqs_def Let_def case_prod_beta split: if_splits)

lemma run_net_writes:
  assumes "\<forall>p \<in> set ps. fst p \<in> queue_regs"
  shows "\<exists>d tr'. run w hva (map net_write_exit ps) 0 v tr =
    Some (Running 0, v\<lparr>fs := d, net := program (net_wr w []) ps (net v)\<rparr>, tr') \<and> vqs d = vqs (fs v)"
  using assms
proof (induction ps arbitrary: v tr)
  case Nil
  then show ?case by (auto intro: exI [of _ "fs v"])
next
  case (Cons p ps)
  obtain r x where p: "p = (r, x)" by fastforce
  obtain d tr1 where d: "check_virtio_irqs w (fs v) tr = (d, tr1)" by fastforce
  let ?v = "v\<lparr>fs := d, net := net_wr w [] (net v) r x\<rparr>"
  have r: "r \<in> queue_regs" using Cons.prems p by simp
  note win = net_window [OF refl, of r]
  have h: "handle_exit w hva (Exit_mmio_write (of_nat (VIRTIO_NET_MMIO_GPA + reg_offset r)) (le_bytes 4 x) 4) (v\<lparr>fs := d\<rparr>) (tr1 @ [Kvm_run]) =
      Some (None, le_bytes 4 x, ?v, tr1 @ [Kvm_run])"
    using win(2-4) by (simp only: handle_exit.simps handle_mmio_write_def win(1) if_False if_True) (simp add: win net_queue_write [OF r])
  from Cons.IH [of ?v "tr1 @ [Kvm_run]"] Cons.prems obtain d' tr' where
    "run w hva (map net_write_exit ps) 0 ?v (tr1 @ [Kvm_run]) =
      Some (Running 0, ?v\<lparr>fs := d', net := program (net_wr w []) ps (net ?v)\<rparr>, tr')" "vqs d' = vqs (fs ?v)" by auto
  then show ?case using check_virtio_irqs_vqs [OF d] h by (simp add: p d net_write_exit_def [of "(r, x)"] del: handle_exit.simps) blast
qed

text \<open>
  A driver programs a queue through the run loop.  When the guest makes the register
  writes that set up queue \<open>i\<close> of the virtio-net device, the loop keeps running and that queue
  has exactly the programmed size and addresses and the ready flag, whatever it held before.  The other queue of the device,
  the queues of virtio-fs, guest RAM, the console and the pending signal are as they were.
\<close>

lemma run_net_queue_programmed:
  assumes "unat i < length (net_vqs (net v))"
  shows "\<exists>v' tr'. run w hva (map net_write_exit (vq_program i num desc drv dev)) 0 v tr = Some (Running 0, v', tr') \<and>
    vq_regs (net_vqs (net v') ! unat i) = (num, 1, desc, drv, dev) \<and>
    (\<forall>j < length (net_vqs (net v)). j \<noteq> unat i \<longrightarrow> net_vqs (net v') ! j = net_vqs (net v) ! j) \<and>
    vqs (fs v') = vqs (fs v) \<and> ram v' = ram v \<and> serial v' = serial v \<and> ignore_next_signal v' = ignore_next_signal v"
proof -
  have "\<forall>p \<in> set (vq_program i num desc drv dev). fst p \<in> queue_regs" by (simp add: vq_program_def queue_regs_def)
  from run_net_writes [OF this, of w hva v tr] obtain d tr' where
    r: "run w hva (map net_write_exit (vq_program i num desc drv dev)) 0 v tr =
      Some (Running 0, v\<lparr>fs := d, net := program (net_wr w []) (vq_program i num desc drv dev) (net v)\<rparr>, tr')" "vqs d = vqs (fs v)" by blast
  then show ?thesis using net_queue_programmed [OF assms, of w "[]" num desc drv dev] by auto
qed

lemma run_net_queue_programmed_witness:
  "\<exists>v' tr'. run one_os 0 (map net_write_exit (vq_program 1 256 0x1000 0x2000 0x100003000)) 0 demo_new [] = Some (Running 0, v', tr') \<and>
     vq_regs (net_vqs (net v') ! 1) = (256, 1, 0x1000, 0x2000, 0x100003000)"
proof -
  have "unat (1 :: u32) < length (net_vqs (net demo_new))" by (simp add: demo_new_def init_net_dev_def NET_NUM_QUEUES_def)
  from run_net_queue_programmed [OF this, of one_os 0 256 "0x1000" "0x2000" "0x100003000" "[]"] show ?thesis by auto
qed

end
