(* ===== verification/Commands.thy ===== *)
theory Commands
  imports Lifecycle Boot Run_Loop
begin

text \<open>
  The command line: \<open>main\<close> of \<^verbatim>\<open>vmm.cpp\<close> with its three commands \<open>boot\<close>, \<open>restore\<close> and \<open>clone\<close>, composed of the
  operations of the other theories.

  What the commands depend on besides their arguments is collected in the record \<open>world\<close>: the host, the address at which RAM is
  mapped, the order in which the copy threads take turns, what an uninitialised buffer holds, what the vCPU does, and what the
  guest and the packet thread store in RAM while the vCPU runs.
\<close>

record world =
  host :: os
  ram_hva :: u64
  copy_sched :: "nat list"
  xsave_buf :: "u8 list"
  vcpu :: "vcpu_event list"
  guest_stores :: "vcpu_event list \<Rightarrow> (nat \<Rightarrow> u8) \<Rightarrow> nat \<Rightarrow> u8"

text \<open>
  How a process ends: \<open>main\<close> returns, \<open>_exit\<close> is called, the process is the one that becomes \<open>virtiofsd\<close>, or the vCPU
  still runs after the given events.
\<close>

datatype outcome = Exited int | Quit int | Share_process | Still_running

type_synonym result = "(outcome \<times> log) option"

text \<open>\<^verbatim>\<open>return rc\<close> from a block with a machine, which destroys it.\<close>

definition quit :: "int \<Rightarrow> machine \<Rightarrow> log \<Rightarrow> result" where
  "quit rc m tr = Some (Exited rc, tr @ cleanup m)"

definition exit_code :: "int \<Rightarrow> int" where
  "exit_code rc = (if 0 \<le> rc then 0 else 1)"

definition stored :: "((nat \<Rightarrow> u8) \<Rightarrow> nat \<Rightarrow> u8) \<Rightarrow> vmm \<Rightarrow> vmm" where
  "stored f v = v\<lparr>ram := (ram v)\<lparr>ram_mem := f (ram_mem (ram v))\<rparr>\<rparr>"

definition run_machine :: "world \<Rightarrow> vcpu_event list \<Rightarrow> machine \<Rightarrow> log \<Rightarrow> (run_result \<times> machine \<times> log) option" where
  "run_machine x es m tr =
     (case run (host x) (ram_hva x) es 0 (vm m) tr of
        None \<Rightarrow> None
      | Some (r, v, tr1) \<Rightarrow> Some (r, m\<lparr>vm := stored (guest_stores x es) v\<rparr>, tr1))"

text \<open>The last run of a command.\<close>

definition run_last :: "world \<Rightarrow> vcpu_event list \<Rightarrow> machine \<Rightarrow> log \<Rightarrow> result" where
  "run_last x es m tr =
     (case run_machine x es m tr of
        None \<Rightarrow> None
      | Some (Running _, m1, tr1) \<Rightarrow> Some (Still_running, tr1)
      | Some (Returned rc _, m1, tr1) \<Rightarrow> quit (exit_code rc) m1 tr1)"

definition boot_mac :: "u8 list" where
  "boot_mac = [0x52, 0x54, 0x00, 0x12, 0x34, 0x56]"

text \<open>A command prepares a machine, or ends before the vCPU runs.\<close>

type_synonym prepared = "result + machine \<times> log"

definition start_share :: "world \<Rightarrow> string option \<Rightarrow> machine \<Rightarrow> log \<Rightarrow> prepared" where
  "start_share x share m tr =
     (case share of
        None \<Rightarrow> Inr (m, tr)
      | Some dir \<Rightarrow>
          (case start_virtiofsd (host x) (ram_hva x) dir m tr of
             None \<Rightarrow> Inl None
           | Some (Child, m1, tr1) \<Rightarrow> Inl (Some (Share_process, tr1))
           | Some (Done ok, m1, tr1) \<Rightarrow> if ok then Inr (m1, tr1) else Inl (quit 1 m1 tr1)))"

section \<open>Boot\<close>

text \<open>\<^verbatim>\<open>(size_t)atoi(ram_str)\<close>\<close>

definition ram_arg :: "string option \<Rightarrow> nat" where
  "ram_arg s = (case s of None \<Rightarrow> 64 | Some t \<Rightarrow> nat (atoi t mod 2 ^ 64))"

definition boot_devices :: "machine \<Rightarrow> machine" where
  "boot_devices m =
     (let v = vm m; (c1, d) = setup_virtio_fs True (cmdline v, fs v); (c2, n) = setup_virtio_net boot_mac True (c1, net v)
      in m\<lparr>vm := v\<lparr>cmdline := c2, fs := d, net := n\<rparr>\<rparr>)"

definition boot_load :: "os \<Rightarrow> string \<Rightarrow> string \<Rightarrow> vmm \<Rightarrow> log \<Rightarrow> (bool \<times> vmm \<times> log) option" where
  "boot_load w kpath ipath v tr =
     (case setup_bios (ram v) of
        None \<Rightarrow> None
      | Some r \<Rightarrow>
          (case load_bzimage w kpath (v\<lparr>ram := r\<rparr>) tr of
             None \<Rightarrow> None
           | Some (ok1, v1, tr1) \<Rightarrow>
               (if \<not> ok1 then Some (False, v1, tr1)
                else (case load_initrd w ipath v1 tr1 of
                        None \<Rightarrow> None
                      | Some (ok2, v2, tr2) \<Rightarrow>
                          (if \<not> ok2 then Some (False, v2, tr2)
                           else (let (ok3, tr3) = setup_cpu w v2 tr2 in Some (ok3, v2, tr3)))))))"

definition boot_setup :: "world \<Rightarrow> string list \<Rightarrow> prepared" where
  "boot_setup x argv =
     (let (ok, m1, tr1) = init (host x) False (new_machine (ram_arg (find_arg argv ''--ram''))) []
      in if \<not> ok then Inl (quit 1 m1 tr1)
         else (case start_share x (find_arg argv ''--share'') m1 tr1 of
                 Inl r \<Rightarrow> Inl r
               | Inr (m2, tr2) \<Rightarrow>
                   (let m3 = boot_devices m2
                    in case boot_load (host x) (argv ! 2) (argv ! 3) (vm m3) tr2 of
                         None \<Rightarrow> Inl None
                       | Some (ok, v, tr3) \<Rightarrow> if ok then Inr (m3\<lparr>vm := v\<rparr>, tr3) else Inl (quit 1 (m3\<lparr>vm := v\<rparr>) tr3))))"

definition boot_run :: "world \<Rightarrow> string option \<Rightarrow> machine \<Rightarrow> log \<Rightarrow> result" where
  "boot_run x snap_path m tr =
     (case run_machine x (vcpu x) m tr of
        None \<Rightarrow> None
      | Some (Running _, m1, tr1) \<Rightarrow> Some (Still_running, tr1)
      | Some (Returned rc rest, m1, tr1) \<Rightarrow>
          (if rc \<noteq> 1 then quit (exit_code rc) m1 tr1
           else (case snap_path of
                   None \<Rightarrow> run_last x rest m1 tr1
                 | Some path \<Rightarrow>
                     (case save_snapshot_file (host x) path (vm m1) tr1 of
                        None \<Rightarrow> None
                      | Some (ok, tr2) \<Rightarrow> if ok then run_last x rest m1 tr2 else quit 1 m1 tr2))))"

definition boot_cmd :: "world \<Rightarrow> string list \<Rightarrow> result" where
  "boot_cmd x argv =
     (if length argv < 4 then Some (Exited 1, [])
      else (case boot_setup x argv of
              Inl r \<Rightarrow> r
            | Inr (m, tr) \<Rightarrow> boot_run x (find_arg argv ''--snapshot'') m tr))"

section \<open>Restore\<close>

definition load_config :: "os \<Rightarrow> string list \<Rightarrow> log \<Rightarrow> (bool \<times> vm_config \<times> log) option" where
  "load_config w argv tr =
     (case find_arg argv ''--config'' of
        Some path \<Rightarrow> parse_config w path empty_config tr
      | None \<Rightarrow>
          (case find_arg argv ''--entrypoint'' of
             Some e \<Rightarrow> Some (True, empty_config\<lparr>cfg_entrypoint := cut_to 256 e\<rparr>, tr)
           | None \<Rightarrow> Some (True, empty_config, tr)))"

definition share_of :: "string list \<Rightarrow> vm_config \<Rightarrow> string option" where
  "share_of argv cfg =
     (case find_arg argv ''--share'' of
        Some d \<Rightarrow> Some d
      | None \<Rightarrow> if cfg_rootfs cfg \<noteq> '''' then Some (cfg_rootfs cfg) else None)"

text \<open>The size of RAM from the file's header, 64 if there is none.\<close>

definition peek_ram_mb :: "os \<Rightarrow> string \<Rightarrow> log \<Rightarrow> nat \<times> log" where
  "peek_ram_mb w path tr =
     (let fd = os_ret w tr (Open_read path); tr1 = tr @ [Open_read path]
      in if fd < 0 then (64, tr1)
         else (let c = File_read fd HDR_SIZE; h = hdr_of_bytes (fixed HDR_SIZE (os_data w tr1 c))
               in (if os_ret w tr1 c = int HDR_SIZE \<and> h_magic h = SNAP_MAGIC then unat (h_ram_mb h) else 64, tr1 @ [c, Close fd])))"

definition paging_options :: "string list \<Rightarrow> machine \<Rightarrow> machine" where
  "paging_options argv m =
     (if has_flag argv ''--midway-uffd'' then set_uffd False (set_midway_uffd True m)
      else if has_flag argv ''--no-uffd'' then set_midway_uffd False (set_uffd False m)
      else set_midway_uffd False (set_uffd True m))"

text \<open>The machine with its options; \<open>t0\<close> is the time at the start of the command.\<close>

definition restore_machine :: "string list \<Rightarrow> timespec \<Rightarrow> nat \<Rightarrow> machine" where
  "restore_machine argv t0 mb =
     (let m = new_machine mb; m1 = m\<lparr>vm := (vm m)\<lparr>serial := set_cmd_start t0 (serial (vm m))\<rparr>\<rparr>;
          m2 = (case find_arg argv ''--copy-threads'' of None \<Rightarrow> m1 | Some s \<Rightarrow> m1\<lparr>vm := set_copy_threads (atoi s) (vm m1)\<rparr>);
          m3 = (if has_flag argv ''--hugetlb'' then set_hugetlb True m2 else m2)
      in paging_options argv m3)"

definition set_fs :: "machine \<Rightarrow> machine" where
  "set_fs m = m\<lparr>vm := (vm m)\<lparr>fs := fs_set_config (fs (vm m))\<rparr>\<rparr>"

definition set_net :: "u8 list \<Rightarrow> machine \<Rightarrow> machine" where
  "set_net a m = m\<lparr>vm := (vm m)\<lparr>net := net_set_config a (net (vm m))\<rparr>\<rparr>"

definition plug_tap :: "os \<Rightarrow> string \<Rightarrow> machine \<Rightarrow> log \<Rightarrow> bool \<times> machine \<times> log" where
  "plug_tap w tap m tr = (let (ok, n, tr1) = connect_tap w tap (net (vm m)) tr in (ok, m\<lparr>vm := (vm m)\<lparr>net := n\<rparr>\<rparr>, tr1))"

definition restore_mac :: "vm_config \<Rightarrow> u8 list" where
  "restore_mac cfg = (if cfg_has_net cfg \<and> cfg_mac cfg ! 0 \<noteq> 0 then cfg_mac cfg else boot_mac)"

text \<open>
  What is printed about the durations is left out.  \<open>restore_created\<close> is everything before the snapshot file is restored.
\<close>

definition restore_created :: "world \<Rightarrow> string list \<Rightarrow> vm_config \<Rightarrow> log \<Rightarrow> prepared" where
  "restore_created x argv cfg tr =
     (let share = share_of argv cfg;
          tr1 = write_config_to_share (host x) share cfg tr;
          t0 = os_pair (host x) tr1 Clock_gettime;
          (mb, tr2) = peek_ram_mb (host x) (argv ! 2) (tr1 @ [Clock_gettime]);
          (ok, m1, tr3) = init (host x) False (restore_machine argv t0 mb) tr2
      in if \<not> ok then Inl (quit 1 m1 tr3)
         else (case start_share x share m1 tr3 of
                 Inl r \<Rightarrow> Inl r
               | Inr (m2, tr4) \<Rightarrow>
                   (let m3 = set_net (restore_mac cfg) (if share = None then m2 else set_fs m2)
                    in if cfg_has_net cfg \<and> cfg_tap cfg \<noteq> ''''
                       then (let (ok, m4, tr5) = plug_tap (host x) (cfg_tap cfg) m3 tr4
                             in if ok then Inr (m4, tr5) else Inl (quit 1 m4 tr5))
                       else Inr (m3, tr4))))"

definition restore_setup :: "world \<Rightarrow> string list \<Rightarrow> prepared" where
  "restore_setup x argv =
     (case load_config (host x) argv [] of
        None \<Rightarrow> Inl None
      | Some (ok, cfg, tr) \<Rightarrow>
          (if \<not> ok then Inl (Some (Exited 1, tr))
           else (case restore_created x argv cfg tr of
                   Inl r \<Rightarrow> Inl r
                 | Inr (m, tr1) \<Rightarrow>
                     (case restore_snapshot_file (copy_sched x) (host x) (ram_hva x) (xsave_buf x) (argv ! 2) (vm m) tr1 of
                        None \<Rightarrow> Inl None
                      | Some (ok, v, tr2) \<Rightarrow>
                          (if \<not> ok then Inl (quit 1 (m\<lparr>vm := v\<rparr>) tr2)
                           else Inr (m\<lparr>vm := v\<lparr>serial := set_vcpu_start (os_pair (host x) tr2 Clock_gettime) (serial v)\<rparr>\<rparr>,
                                     tr2 @ [Clock_gettime]))))))"

definition restore_cmd :: "world \<Rightarrow> string list \<Rightarrow> result" where
  "restore_cmd x argv =
     (if length argv < 3 then Some (Exited 1, [])
      else (case restore_setup x argv of Inl r \<Rightarrow> r | Inr (m, tr) \<Rightarrow> run_last x (vcpu x) m tr))"

section \<open>Clone\<close>

text \<open>
  \<open>read\<close> into a buffer: as many bytes as the kernel says are stored at its start.
\<close>

definition read_into :: "os \<Rightarrow> int \<Rightarrow> nat \<Rightarrow> u8 list \<Rightarrow> log \<Rightarrow> u8 list \<times> log" where
  "read_into w fd n buf tr =
     (let c = File_read fd n; bs = fixed (min n (nat (os_ret w tr c))) (os_data w tr c)
      in (bs @ drop (length bs) buf, tr @ [c]))"

function read_ram :: "os \<Rightarrow> int \<Rightarrow> nat \<Rightarrow> u8 list \<Rightarrow> log \<Rightarrow> u8 list \<times> log" where
  "read_ram w fd rd buf tr =
     (if rd < length buf
      then (let c = File_read fd (length buf - rd); n = min (length buf - rd) (nat (os_ret w tr c))
            in if n = 0 then (buf, tr @ [c])
               else read_ram w fd (rd + n) (take rd buf @ fixed n (os_data w tr c) @ drop (rd + n) buf) (tr @ [c]))
      else (buf, tr))"
  by pat_completeness auto
termination
  by (relation "measure (\<lambda>(w, fd, rd, buf, tr). length buf - rd)") (auto simp: length_fixed)

declare read_ram.simps [simp del]

text \<open>
  The snapshot that all clones share.  Its sections are read without a look at how much was read; an XSAVE section larger than its
  buffer overflows it, and a failed mapping is used all the same (both \<open>None\<close>).
\<close>

definition read_golden :: "os \<Rightarrow> u8 list \<Rightarrow> int \<Rightarrow> snapshot_header \<Rightarrow> log \<Rightarrow> (snapshot \<times> log) option" where
  "read_golden w xbuf fd h tr =
     (let xn = unat (h_xsave_size h);
          (xs, tr1) = read_into w fd xn xbuf tr;
          cn = unat (h_cpuid_nent h) * CPUID_ENTRY; (cp, tr2) = read_into w fd cn (replicate cn 0) tr1;
          mn = unat (h_num_msrs h) * MSR_ENTRY; (ms, tr3) = read_into w fd mn (replicate mn 0) tr2;
          bn = unat (h_bitmap_bytes h);
          (bm, tr4) = (if 0 < bn then read_into w fd bn (replicate bn 0) tr3 else ([], tr3));
          rn = unat (h_ram_mb h) * 1024 * 1024; c = Mmap_anon rn
      in if XSAVE_SIZE < length xs \<or> os_ret w tr4 c < 0 then None
         else (let (r, tr5) = read_ram w fd 0 (replicate rn 0) (tr4 @ [c])
               in Some (\<lparr>hdr = h, xsave = xs, cpuid = cp, msrs = ms, snap_ram = r, dirty_bitmap = bm\<rparr>, tr5 @ [Close fd])))"

definition golden_file :: "os \<Rightarrow> u8 list \<Rightarrow> string \<Rightarrow> log \<Rightarrow> (snapshot option \<times> log) option" where
  "golden_file w xbuf path tr =
     (let fd = os_ret w tr (Open_read path); tr1 = tr @ [Open_read path]; c = File_read fd HDR_SIZE; tr2 = tr1 @ [c]
      in if fd < 0 then Some (None, tr1)
         else if os_ret w tr1 c \<noteq> int HDR_SIZE then Some (None, tr2 @ [Close fd])
         else map_option (\<lambda>(s, tr3). (Some s, tr3)) (read_golden w xbuf fd (hdr_of_bytes (fixed HDR_SIZE (os_data w tr1 c))) tr2))"

definition clone_mac :: "vm_config \<Rightarrow> nat \<Rightarrow> u8 list" where
  "clone_mac cfg i = (cfg_mac cfg)[5 := cfg_mac cfg ! 5 + of_nat i]"

definition clone_tap :: "nat \<Rightarrow> string" where
  "clone_tap i = cut_to IFNAMSIZ (''tap'' @ show_dec i)"

text \<open>\<^verbatim>\<open>%u.%u.%u.%u/%u\<close>, with \<open>i\<close> added to the fourth number.\<close>

definition clone_ip :: "string \<Rightarrow> nat \<Rightarrow> string" where
  "clone_ip ip i =
     (case scan_fields 10 ''.../'' ip of
        [a, b, c, d, prefix] \<Rightarrow>
          cut_to 32 (show_dec (unat a) @ ''.'' @ show_dec (unat b) @ ''.'' @ show_dec (unat c) @ ''.'' @ show_dec (unat (d + of_nat i)) @
            ''/'' @ show_dec (unat prefix))
      | _ \<Rightarrow> ip)"

definition clone_config :: "vm_config \<Rightarrow> nat \<Rightarrow> vm_config" where
  "clone_config cfg i = cfg\<lparr>cfg_tap := clone_tap i, cfg_mac := clone_mac cfg i, cfg_ip := clone_ip (cfg_ip cfg) i\<rparr>"

text \<open>A failure of \<open>connect_tap\<close> is only reported.\<close>

definition clone_net :: "world \<Rightarrow> string option \<Rightarrow> vm_config \<Rightarrow> nat \<Rightarrow> machine \<Rightarrow> log \<Rightarrow> machine \<times> log" where
  "clone_net x share cfg i m tr =
     (if cfg_has_net cfg
      then (let tr1 = (if share = None then tr else write_config_to_share (host x) share (clone_config cfg i) tr);
                (_, m1, tr2) = plug_tap (host x) (clone_tap i) m tr1
            in (set_net (clone_mac cfg i) m1, tr2))
      else (set_net boot_mac m, tr))"

definition quit_child :: "int \<Rightarrow> log \<Rightarrow> result" where
  "quit_child rc tr = Some (Quit rc, tr @ [Exit rc])"

text \<open>The end of the block destroys no machine here: the process calls \<open>_exit\<close>.\<close>

definition share_or_quit :: "world \<Rightarrow> string option \<Rightarrow> machine \<Rightarrow> log \<Rightarrow> prepared" where
  "share_or_quit x share m tr =
     (case share of
        None \<Rightarrow> Inr (m, tr)
      | Some dir \<Rightarrow>
          (case start_virtiofsd (host x) (ram_hva x) dir m tr of
             None \<Rightarrow> Inl None
           | Some (Child, m1, tr1) \<Rightarrow> Inl (Some (Share_process, tr1))
           | Some (Done ok, m1, tr1) \<Rightarrow> if ok then Inr (set_fs m1, tr1) else Inl (quit_child 1 tr1)))"

definition clone_child :: "world \<Rightarrow> string option \<Rightarrow> vm_config \<Rightarrow> snapshot \<Rightarrow> nat \<Rightarrow> log \<Rightarrow> result" where
  "clone_child x share cfg golden i tr =
     (let (ok, m1, tr1) = init (host x) False (new_machine (unat (h_ram_mb (hdr golden)))) tr
      in if \<not> ok then quit_child 1 tr1
         else (case share_or_quit x share m1 tr1 of
                 Inl r \<Rightarrow> r
               | Inr (m2, tr2) \<Rightarrow>
                   (let (m3, tr3) = clone_net x share cfg i m2 tr2
                    in case restore_snapshot (copy_sched x) (host x) (ram_hva x) golden (vm m3) tr3 of
                         None \<Rightarrow> None
                       | Some (ok, v, tr4) \<Rightarrow>
                           (if \<not> ok then quit_child 1 tr4
                            else (case run_machine x (vcpu x) (m3\<lparr>vm := v\<rparr>) tr4 of
                                    None \<Rightarrow> None
                                  | Some (Running _, m4, tr5) \<Rightarrow> Some (Still_running, tr5)
                                  | Some (Returned rc _, m4, tr5) \<Rightarrow> quit_child (exit_code rc) tr5)))))"

text \<open>The loop that forks: \<open>n\<close> clones are left, the next one is number \<open>i\<close>.\<close>

fun clone_loop :: "world \<Rightarrow> string option \<Rightarrow> vm_config \<Rightarrow> snapshot \<Rightarrow> nat \<Rightarrow> nat \<Rightarrow> log \<Rightarrow> log + result" where
  "clone_loop x share cfg golden i 0 tr = Inl tr"
| "clone_loop x share cfg golden i (Suc n) tr =
     (let pid = os_ret (host x) tr Fork; tr1 = tr @ [Fork]
      in if pid < 0 then Inr (Some (Exited 1, tr1))
         else if pid = 0 then Inr (clone_child x share cfg golden i tr1)
         else clone_loop x share cfg golden (Suc i) n tr1)"

definition clone_cmd :: "world \<Rightarrow> string list \<Rightarrow> result" where
  "clone_cmd x argv =
     (if length argv < 4 then Some (Exited 1, [])
      else (case load_config (host x) argv [] of
              None \<Rightarrow> None
            | Some (ok, cfg, tr) \<Rightarrow>
                (if \<not> ok then Some (Exited 1, tr)
                 else (let count = nat (atoi (argv ! 3)); share = share_of argv cfg; tr1 = write_config_to_share (host x) share cfg tr
                       in case golden_file (host x) (xsave_buf x) (argv ! 2) tr1 of
                            None \<Rightarrow> None
                          | Some (None, tr2) \<Rightarrow> Some (Exited 1, tr2)
                          | Some (Some golden, tr2) \<Rightarrow>
                              (case clone_loop x share cfg golden 0 count tr2 of
                                 Inr r \<Rightarrow> r
                               | Inl tr3 \<Rightarrow> Some (Exited 0, tr3 @ replicate count Wait_child @ [Munmap (length (snap_ram golden))]))))))"

definition main :: "world \<Rightarrow> string list \<Rightarrow> result" where
  "main x argv =
     (if length argv < 2 then Some (Exited 1, [])
      else if argv ! 1 = ''boot'' then boot_cmd x argv
      else if argv ! 1 = ''restore'' then restore_cmd x argv
      else if argv ! 1 = ''clone'' then clone_cmd x argv
      else Some (Exited 1, []))"

section \<open>What the operations leave alone\<close>

text \<open>The sizes on which the invariant of a machine depends; no operation after \<open>init\<close> changes them.\<close>

definition vm_frame :: "vmm \<Rightarrow> nat list \<times> u32" where
  "vm_frame v = ([ram_bytes (ram v), ram_mb v, length (vqs (fs v)), length (net_vqs (net v)), length (mac (net_config (net v))),
     length (msr_list v), length (vm_cpuid v)], cpuid_nent v)"

lemma vm_ok_frame: "vm_frame v' = vm_frame v \<Longrightarrow> vm_ok v' \<longleftrightarrow> vm_ok v"
  by (simp add: vm_frame_def vm_ok_def)

definition fs_same :: "fs_dev \<Rightarrow> fs_dev \<Rightarrow> bool" where
  "fs_same d d' \<longleftrightarrow> length (vqs d') = length (vqs d)"

definition net_same :: "net_dev \<Rightarrow> net_dev \<Rightarrow> bool" where
  "net_same d d' \<longleftrightarrow> length (net_vqs d') = length (net_vqs d) \<and> length (mac (net_config d')) = length (mac (net_config d))"

lemma frame_devices: "fs_same (fs v) d \<Longrightarrow> vm_frame (v\<lparr>fs := d\<rparr>) = vm_frame v" "net_same (net v) n \<Longrightarrow> vm_frame (v\<lparr>net := n\<rparr>) = vm_frame v"
  by (simp_all add: fs_same_def net_same_def vm_frame_def)

lemma fs_same_write: "fs_same d (fst (virtio_mmio_write w hva off bs len d tr))"
proof (cases "reg_at off")
  case (Some r)
  then show ?thesis
    by (cases r) (auto simp: virtio_mmio_write_def fs_same_def upd_queue_def length_upd_sel fs_ack_def fs_set_status_def fs_reset_def vu_setup_length Let_def)
qed (simp add: virtio_mmio_write_def fs_same_def)

lemma net_same_write: "net_same d (fst (net_mmio_write w off bs len d tr))"
proof (cases "reg_at off")
  case (Some r)
  then show ?thesis
    by (cases r) (auto simp: net_mmio_write_def net_same_def net_upd_queue_def length_upd_sel net_ack_def net_set_status_def net_reset_def
        vhost_net_setup_def Let_def)
qed (simp add: net_mmio_write_def net_same_def)

lemma frame_exit: "handle_exit w hva e v tr = Some (rc, bs, v', tr') \<Longrightarrow> vm_frame v' = vm_frame v"
proof (cases e)
  case (Exit_mmio_write addr data len)
  assume "handle_exit w hva e v tr = Some (rc, bs, v', tr')"
  with Exit_mmio_write fs_same_write net_same_write show ?thesis
    by (auto simp: handle_mmio_write_def case_prod_beta Let_def intro!: frame_devices split: if_splits) (simp add: vm_frame_def)
qed (auto simp: handle_io_out_def case_prod_beta Let_def vm_frame_def split: if_splits)

lemma frame_check: "vm_frame (v\<lparr>fs := fst (check_virtio_irqs w (fs v) tr)\<rparr>) = vm_frame v"
  by (rule frame_devices) (simp add: fs_same_def check_virtio_irqs_def case_prod_beta Let_def)

lemma frame_run: "run w hva es c v tr = Some (r, v', tr') \<Longrightarrow> vm_frame v' = vm_frame v"
proof (induction es arbitrary: c v tr)
  case (Cons e es)
  let ?v = "v\<lparr>fs := fst (check_virtio_irqs w (fs v) tr)\<rparr>"
  have "vm_frame v' = vm_frame ?v"
  proof (cases e)
    case (Ran x)
    with Cons.prems obtain rc bs v2 tr2 where
      x: "handle_exit w hva x ?v (snd (check_virtio_irqs w (fs v) tr) @ [Kvm_run]) = Some (rc, bs, v2, tr2)"
      by (auto simp: case_prod_beta Let_def split: option.splits)
    with Cons.prems Cons.IH frame_exit [OF x] Ran show ?thesis
      by (cases rc) (auto simp: case_prod_beta Let_def)
  qed (use Cons in \<open>auto simp: case_prod_beta Let_def split: if_splits\<close>)
  then show ?case by (simp add: frame_check)
qed simp

lemma frame_stored: "vm_frame (stored f v) = vm_frame v"
  by (simp add: stored_def vm_frame_def)

lemma frame_run_machine: "run_machine x es m tr = Some (r, m', tr') \<Longrightarrow> vm_frame (vm m') = vm_frame (vm m)"
  using frame_run by (auto simp: run_machine_def frame_stored split: option.splits)

subsection \<open>Loading\<close>

lemma frame_ram: "ram_bytes r = ram_bytes (ram v) \<Longrightarrow> vm_frame (v\<lparr>ram := r\<rparr>) = vm_frame v"
  by (simp add: vm_frame_def)

lemma ram_put_size: "ram_put r a bs = Some r' \<Longrightarrow> ram_bytes r' = ram_bytes r"
  by (rule guest.put_size)

lemma setup_bios_bytes: "setup_bios r = Some r' \<Longrightarrow> ram_bytes r' = ram_bytes r"
  by (auto simp del: pokes.simps simp: setup_bios_def setup_e820_def setup_vga_rom_def install_irq_def Let_def bind_eq_Some_conv dest!: pokes_bytes ram_put_size)

lemma place_bzimage_bytes: "place_bzimage f c r = Some (ok, r') \<Longrightarrow> ram_bytes r' = ram_bytes r"
  by (auto simp: place_bzimage_def patch_loadflags_def Let_def bind_eq_Some_conv simp del: pokes.simps dest!: pokes_bytes ram_put_size split: if_splits)

lemma frame_load_bzimage: "load_bzimage w k v tr = Some (ok, v', tr') \<Longrightarrow> vm_frame v' = vm_frame v"
  by (auto simp: load_bzimage_def intro: frame_ram dest!: place_bzimage_bytes split: prod.splits option.splits)

lemma frame_load_initrd: "load_initrd w i v tr = Some (ok, v', tr') \<Longrightarrow> vm_frame v' = vm_frame v"
  by (auto simp del: pokes.simps simp: load_initrd_def place_initrd_def Let_def intro: frame_ram dest!: pokes_bytes split: prod.splits option.splits)

lemma frame_boot_load: "boot_load w k i v tr = Some (ok, v', tr') \<Longrightarrow> vm_frame v' = vm_frame v"
  by (auto simp: boot_load_def case_prod_beta Let_def frame_ram [OF setup_bios_bytes] dest!: frame_load_bzimage frame_load_initrd split: option.splits if_splits)

lemma frame_boot_devices: "fs_same (fs (vm m)) (fs (vm (boot_devices m)))" "length (net_vqs (net (vm (boot_devices m)))) = length (net_vqs (net (vm m)))"
  "length (mac (net_config (net (vm (boot_devices m))))) = 6" "ram (vm (boot_devices m)) = ram (vm m)" "ram_mb (vm (boot_devices m)) = ram_mb (vm m)"
  "msr_list (vm (boot_devices m)) = msr_list (vm m)" "vm_cpuid (vm (boot_devices m)) = vm_cpuid (vm m)" "cpuid_nent (vm (boot_devices m)) = cpuid_nent (vm m)"
  by (simp_all add: boot_devices_def Let_def setup_virtio_fs_def setup_virtio_net_def fs_same_def fs_set_config_def net_set_config_def boot_mac_def)

subsection \<open>The shared directory\<close>

text \<open>Starting \<open>virtiofsd\<close> changes nothing of the machine but the process number and the connection of the file system device.\<close>

definition only_fs :: "machine \<Rightarrow> machine \<Rightarrow> bool" where
  "only_fs m m' \<longleftrightarrow> (\<exists>p d. m' = m\<lparr>virtiofsd_pid := p, vm := (vm m)\<lparr>fs := d\<rparr>\<rparr> \<and> length (vqs d) = length (vqs (fs (vm m))))"

lemma vu_connect_vqs: "vu_connect w d tr = Some (ok, d', tr') \<Longrightarrow> vqs d' = vqs d"
  by (auto simp: vu_connect_def Let_def split: if_splits)

lemma vu_share_vqs: "vu_share_memory w hva n mfd p d tr = (ok, d', tr') \<Longrightarrow> vqs d' = vqs d"
  by (auto simp: vu_share_memory_def vu_backend_channel_def case_prod_beta Let_def split: prod.splits bool.splits if_splits)

lemma vu_protocol_vqs: "vu_protocol_features w d tr = (ok, p, d', tr') \<Longrightarrow> vqs d' = vqs d"
  by (auto simp: vu_protocol_features_def case_prod_beta Let_def split: if_splits prod.splits bool.splits option.splits)

lemma vu_early_init_vqs: "vu_early_init w hva n mfd d tr = (ok, d', tr') \<Longrightarrow> vqs d' = vqs d"
  by (auto simp: vu_early_init_def Let_def dest!: vu_protocol_vqs vu_share_vqs split: prod.splits bool.splits option.splits)

lemma only_fsI:
  "length (vqs d) = length (vqs (fs (vm m))) \<Longrightarrow> only_fs m (m\<lparr>virtiofsd_pid := p, vm := (vm m)\<lparr>fs := d\<rparr>\<rparr>)"
  "only_fs m (m\<lparr>virtiofsd_pid := p\<rparr>)"
proof -
  show "length (vqs d) = length (vqs (fs (vm m))) \<Longrightarrow> only_fs m (m\<lparr>virtiofsd_pid := p, vm := (vm m)\<lparr>fs := d\<rparr>\<rparr>)"
    by (auto simp: only_fs_def)
  have "m\<lparr>virtiofsd_pid := p\<rparr> = m\<lparr>virtiofsd_pid := p, vm := (vm m)\<lparr>fs := fs (vm m)\<rparr>\<rparr>" by simp
  then show "only_fs m (m\<lparr>virtiofsd_pid := p\<rparr>)" unfolding only_fs_def by blast
qed

lemma start_virtiofsd_only_fs:
  assumes "start_virtiofsd w hva dir m tr = Some (Done ok, m', tr')"
  shows "only_fs m m'"
  using assms unfolding start_virtiofsd_def Let_def
  by (auto simp: fs_set_config_def intro!: only_fsI dest!: vu_connect_vqs vu_early_init_vqs split: if_splits option.splits prod.splits)

lemma start_share_only_fs: "start_share x share m tr = Inr (m', tr') \<Longrightarrow> only_fs m m' \<or> m' = m"
  by (auto simp: start_share_def dest: start_virtiofsd_only_fs split: option.splits proc.splits if_splits)

section \<open>From boot to restore\<close>

lemma made_new: "made mb True (new_machine mb) tr"
  by (simp add: made_def new_machine_def new_vmm_def init_uffd_state_def)

lemma boot_machine_ok:
  assumes "boot_setup x argv = Inr (m, tr)" and "0 < ram_arg (find_arg argv ''--ram'')" and "ram_arg (find_arg argv ''--ram'') < 2 ^ 27"
    and "\<forall>t. (le_val (take 4 (fixed 4 (os_data (host x) t Supported_cpuid))) :: u32) \<le> of_nat CPUID_CAPACITY"
  shows "vm_ok (vm m)" and "ram_mb (vm m) = ram_arg (find_arg argv ''--ram'')"
proof -
  let ?mb = "ram_arg (find_arg argv ''--ram'')"
  from assms(1) obtain m1 tr1 m2 tr2 v where i: "init (host x) False (new_machine ?mb) [] = (True, m1, tr1)"
    and s: "start_share x (find_arg argv ''--share'') m1 tr1 = Inr (m2, tr2)"
    and b: "boot_load (host x) (argv ! 2) (argv ! 3) (vm (boot_devices m2)) tr2 = Some (True, v, tr)" "vm m = v"
    by (auto simp: boot_setup_def Let_def split: prod.splits if_splits sum.splits option.splits)
  note z = init_sizes [OF i made_new assms(4)]
  have r: "?mb * 2 ^ 20 mod 2 ^ 64 = ?mb * 2 ^ 20" using assms(3) by simp
  have "vm_ok (vm (boot_devices m2)) \<and> ram_mb (vm (boot_devices m2)) = ?mb"
    using z start_share_only_fs [OF s] frame_boot_devices [of m2] assms(2,3) r
    by (auto simp: vm_ok_def made_def only_fs_def fs_same_def init_fs_dev_def init_net_dev_def fresh_ram_def)
  then show "vm_ok (vm m)" "ram_mb (vm m) = ?mb"
    using vm_ok_frame [OF frame_boot_load [OF b(1)]] frame_boot_load [OF b(1)] b(2) by (simp_all add: vm_frame_def)
qed

lemma made_restore_machine:
  assumes "has_flag argv ''--midway-uffd'' \<or> has_flag argv ''--no-uffd''"
  shows "made mb True (restore_machine argv t0 mb) tr"
proof -
  have "made mb False (new_machine mb) tr" using made_new by (simp add: made_def)
  moreover have "made mb True (paging_options argv m) tr" if "made mb False m tr" for m
    using that assms by (auto simp: made_def paging_options_def set_uffd_def set_midway_uffd_def)
  ultimately show ?thesis
    unfolding restore_machine_def Let_def by (simp add: made_def set_hugetlb_def set_copy_threads_def split: option.split)
qed

lemma init_keeps_made: "init w z m0 tr0 = (True, m, tr) \<Longrightarrow> made mb e m0 tr0 \<Longrightarrow> made mb e m tr"
  using init_made [of mb e w z] by (auto simp: step_ok_def)

lemma restore_created_fresh:
  assumes "restore_created x argv cfg tr = Inr (m, t)" and "has_flag argv ''--midway-uffd'' \<or> has_flag argv ''--no-uffd''"
  shows "ram (vm m) = fresh_ram (ram_mb (vm m) * 2 ^ 20 mod 2 ^ 64) \<and> \<not> use_uffd (ufd (vm m))"
proof -
  let ?t1 = "write_config_to_share (host x) (share_of argv cfg) cfg tr"
  let ?t0 = "os_pair (host x) ?t1 Clock_gettime"
  obtain mb tr2 where p: "peek_ram_mb (host x) (argv ! 2) (?t1 @ [Clock_gettime]) = (mb, tr2)" by fastforce
  obtain ok m1 tr3 where i0: "init (host x) False (restore_machine argv ?t0 mb) tr2 = (ok, m1, tr3)" by (rule prod_cases3)
  note c = assms(1) [unfolded restore_created_def Let_def p prod.case i0]
  then have i: "init (host x) False (restore_machine argv ?t0 mb) tr2 = (True, m1, tr3)" using i0 by (simp split: if_splits)
  from c obtain m2 tr4 where s: "start_share x (share_of argv cfg) m1 tr3 = Inr (m2, tr4)" by (auto split: if_splits sum.splits)
  have m: "ram (vm m) = ram (vm m2) \<and> ram_mb (vm m) = ram_mb (vm m2) \<and> ufd (vm m) = ufd (vm m2)"
    using c unfolding s by (auto simp: set_net_def set_fs_def plug_tap_def case_prod_beta split: if_splits)
  from init_keeps_made [OF i made_restore_machine [OF assms(2)]] start_share_only_fs [OF s] m show ?thesis
    by (auto simp: made_def only_fs_def)
qed

lemma restore_eager_ram:
  assumes "restore_snapshot sched w hva s v tr = Some (True, v', tr')" and "\<not> use_uffd (ufd v)" and "dirty_bitmap s \<noteq> []"
  shows "bitmap_copy sched (copy_threads v) (dirty_bitmap s) (ram_of_list (snap_ram s)) (ram v) = Some (ram v') \<and>
    \<not> bad_snapshot (hdr s) v \<and> ignore_next_signal v'"
proof -
  have "\<not> bad_snapshot (hdr s) v" using assms(1) by (auto simp: restore_snapshot_def split: if_splits)
  moreover from restore_snapshot_True(2) [OF assms(1)] obtain v1 t1 t2 where
    r: "restore_ram sched w s v tr = Some (v1, t1)" and d: "v' = (fst (restore_devices w hva (hdr s)
        (v1\<lparr>vm_cpuid := take (unat (h_cpuid_nent (hdr s)) * CPUID_ENTRY) (cpuid s), cpuid_nent := h_cpuid_nent (hdr s)\<rparr>) t2))\<lparr>ignore_next_signal := True\<rparr>"
    by blast
  have "bitmap_copy sched (copy_threads v) (dirty_bitmap s) (ram_of_list (snap_ram s)) (ram v) = Some (ram v1)"
    using r assms(2,3) by (auto simp: restore_ram_def restore_ram_eager_def Let_def split: option.splits if_splits prod.splits)
  ultimately show ?thesis by (simp add: d restore_devices_ram)
qed

lemma restored_file_ram:
  assumes "vm_ok v" and "save_snapshot w v tr = (Some s, tr1)"
    and "file_there w' path (snapshot_bytes (with_bitmap (ram v) s)) t" and "length xbuf = XSAVE_SIZE"
    and "ram v' = fresh_ram (ram_mb v' * 2 ^ 20 mod 2 ^ 64)" and "\<not> use_uffd (ufd v')"
    and "restore_snapshot_file sched w' hva xbuf path v' t = Some (True, v'', t'')"
  shows "ram_bytes (ram v'') = ram_bytes (ram v)" and "j < ram_bytes (ram v) \<Longrightarrow> ram_mem (ram v'') j = ram_mem (ram v) j"
    and "ignore_next_signal v''"
proof -
  let ?s = "with_bitmap (ram v) s" and ?r = "ram v" and ?fd = "os_ret w' t (Open_read path)"
  let ?k = "keep_mapping ?fd (length (snapshot_bytes ?s)) ?s v'"
  have mb: "0 < ram_mb v" "ram_bytes ?r = ram_mb v * 1024 * 1024" "ram_mb v < 2 ^ 27" using assms(1) by (simp_all add: vm_ok_def)
  have size: "PAGE dvd ram_bytes ?r" unfolding mb(2) PAGE_def by (auto intro: dvd_mult)
  have parse: "parse_snapshot xbuf (snapshot_bytes ?s) = Inr ?s" using snapshot_parsed [OF saved_snapshot_ok [OF assms(1,2)] assms(4)] .
  from save_snapshot_Some [OF assms(2)] obtain b tsc where
    f: "hdr s = make_header v b tsc" "snap_ram ?s = ram_peek ?r 0 (ram_bytes ?r)" "dirty_bitmap ?s = fst (build_bitmap ?r)"
    by (auto simp: with_bitmap_def Let_def)
  have "0 < total_pages ?r" using mb by (simp add: total_pages_def PAGE_def)
  then have ne: "dirty_bitmap ?s \<noteq> []" using length_build_bitmap [of ?r] f(3) by auto
  from assms(3,7) parse obtain v1 t0 t1 where r: "restore_snapshot sched w' hva ?s ?k t0 = Some (True, v1, t1)"
    and rel: "release_mapping ?fd (length (snapshot_bytes ?s)) v1 t1 = (v'', t'')"
    by (auto simp: restore_snapshot_file_def file_there_def Let_def fixed_id split: option.splits prod.splits if_splits)
  have "\<not> use_uffd (ufd ?k)" using assms(6) by (simp add: keep_mapping_def)
  note e = restore_eager_ram [OF r this ne]
  have "h_ram_mb (hdr ?s) = of_nat (ram_mb v)" by (simp add: with_bitmap_def Let_def f(1) make_header_def)
  then have "ram_mb v' = ram_mb v" using e mb(3) by (simp add: bad_snapshot_def keep_mapping_def unat_u32)
  then have fresh: "ram ?k = fresh_ram (ram_bytes ?r)" using assms(5) mb by (simp add: keep_mapping_def mult.commute)
  have same: "ram v'' = ram v1" "ignore_next_signal v'' = ignore_next_signal v1"
    using rel by (auto simp: release_mapping_def split: if_splits)
  have copy: "bitmap_copy sched (copy_threads ?k) (fst (build_bitmap ?r)) (ram_of_list (ram_peek ?r 0 (ram_bytes ?r))) (fresh_ram (ram_bytes ?r)) = Some (ram v'')"
    using e f fresh same by simp
  show "ignore_next_signal v''" using e same by simp
  show "j < ram_bytes ?r \<Longrightarrow> ram_mem (ram v'') j = ram_mem ?r j" by (rule eager_restores_saved [OF size copy])
  show "ram_bytes (ram v'') = ram_bytes ?r"
    using bitmap_copy_result(1) [OF copy copy_ok_saved [OF size]] by (simp add: fresh_ram_def)
qed


text \<open>
  Claim C2.  What \<open>boot\<close> saves, every \<open>restore\<close> brings back.  When a booted guest asks for a snapshot and the disk takes what is
  written, the command goes on to run the guest and the file it leaves is such that any later \<open>restore\<close> of it, with any
  options that copy the RAM eagerly, on any host and with any configuration, enters the run loop, if it gets there, with exactly the RAM that the guest had when
  it asked, and prepared to ignore the guest's repeated request.
\<close>

theorem boot_snapshot_restores:
  assumes "boot_setup x argv = Inr (m, tr)" and "4 \<le> length argv"
    and "0 < ram_arg (find_arg argv ''--ram'')" and "ram_arg (find_arg argv ''--ram'') < 2 ^ 27"
    and "\<forall>t. (le_val (take 4 (fixed 4 (os_data (host x) t Supported_cpuid))) :: u32) \<le> of_nat CPUID_CAPACITY"
    and "run_machine x (vcpu x) m tr = Some (Returned 1 rest, m1, tr1)" and "find_arg argv ''--snapshot'' = Some path"
    and "save_snapshot (host x) (vm m1) tr1 = (Some s, tr2)" and "os_ret (host x) tr2 (Open_write path) = fd" and "0 \<le> fd"
    and "\<forall>t bs. os_ret (host x) t (File_write fd bs) = int (length bs)"
  shows "\<exists>ws. boot_cmd x argv = run_last x rest m1 (tr2 @ [Open_write path] @ ws) \<and>
    file_content (host x) fd (tr2 @ [Open_write path]) ws = snapshot_bytes (with_bitmap (ram (vm m1)) s) \<and>
    (\<forall>y argv' m' t'. 3 \<le> length argv' \<and> argv' ! 2 = path \<and> (has_flag argv' ''--midway-uffd'' \<or> has_flag argv' ''--no-uffd'') \<and>
        length (xsave_buf y) = XSAVE_SIZE \<and>
        (\<forall>t. file_there (host y) path (file_content (host x) fd (tr2 @ [Open_write path]) ws) t) \<and> restore_setup y argv' = Inr (m', t') \<longrightarrow>
      restore_cmd y argv' = run_last y (vcpu y) m' t' \<and> ram_bytes (ram (vm m')) = ram_bytes (ram (vm m1)) \<and>
      (\<forall>j < ram_bytes (ram (vm m1)). ram_mem (ram (vm m')) j = ram_mem (ram (vm m1)) j) \<and> ignore_next_signal (vm m'))"
proof -
  have ok: "vm_ok (vm m1)"
    using boot_machine_ok(1) [OF assms(1,3-5)] vm_ok_frame [OF frame_run_machine [OF assms(6)]] by simp
  from saved_file_content [OF assms(8-11)] obtain ws where
    f: "save_snapshot_file (host x) path (vm m1) tr1 = Some (True, tr2 @ [Open_write path] @ ws)"
    and c: "file_content (host x) fd (tr2 @ [Open_write path]) ws = snapshot_bytes (with_bitmap (ram (vm m1)) s)" by blast
  have "boot_cmd x argv = run_last x rest m1 (tr2 @ [Open_write path] @ ws)"
    using assms(1,2,6,7) f by (simp add: boot_cmd_def boot_run_def)
  moreover have "restore_cmd y argv' = run_last y (vcpu y) m' t' \<and> ram_bytes (ram (vm m')) = ram_bytes (ram (vm m1)) \<and>
      (\<forall>j < ram_bytes (ram (vm m1)). ram_mem (ram (vm m')) j = ram_mem (ram (vm m1)) j) \<and> ignore_next_signal (vm m')"
    if l: "3 \<le> length argv'" and p: "argv' ! 2 = path" and e: "has_flag argv' ''--midway-uffd'' \<or> has_flag argv' ''--no-uffd''"
      and b: "length (xsave_buf y) = XSAVE_SIZE"
      and t: "\<forall>t. file_there (host y) path (file_content (host x) fd (tr2 @ [Open_write path]) ws) t"
      and r: "restore_setup y argv' = Inr (m', t')" for y argv' m' t'
  proof -
    from r obtain cfg t0 n t1 v t2 where n: "restore_created y argv' cfg t0 = Inr (n, t1)"
      and v: "restore_snapshot_file (copy_sched y) (host y) (ram_hva y) (xsave_buf y) (argv' ! 2) (vm n) t1 = Some (True, v, t2)"
      and m': "ram (vm m') = ram v" "ignore_next_signal (vm m') = ignore_next_signal v"
      by (auto simp: restore_setup_def split: option.splits prod.splits if_splits sum.splits)
    from restore_created_fresh [OF n e] restored_file_ram [OF ok assms(8) t [unfolded c, rule_format, of t1] b _ _ v [unfolded p]] l r m'
    show ?thesis by (auto simp: restore_cmd_def)
  qed
  ultimately show ?thesis using c by blast
qed

section \<open>A concrete boot and restore\<close>

text \<open>A host on which every call succeeds, where every file has the same content.\<close>

definition vmm_os :: "u8 list \<Rightarrow> os" where
  "vmm_os file = \<lparr>os_ret = (\<lambda>t c. case c of Kvm_api_version \<Rightarrow> 12 | Fstat _ \<Rightarrow> int (length file) | File_read _ n \<Rightarrow> int n |
       File_write _ bs \<Rightarrow> int (length bs) | _ \<Rightarrow> 3),
     os_data = (\<lambda>_ c. case c of File_read _ _ \<Rightarrow> file | Mmap_file _ _ \<Rightarrow> file | _ \<Rightarrow> []), os_pair = (\<lambda>_ _. (0, 0))\<rparr>"

lemma init_vmm_os:
  assumes "\<not> use_uffd (ufd (vm m))" "\<not> use_hugetlb m" "ram_memfd m < 0"
  shows "\<exists>m' tr'. init (vmm_os file) False m tr = (True, m', tr') \<and> ufd (vm m') = ufd (vm m) \<and> copy_threads (vm m') = copy_threads (vm m)"
  using assms by (simp add: init_def and_then_def open_kvm_def query_msr_list_def create_vm_def memfd_huge_def memfd_plain_def map_ram_def
      try_uffd_def set_memslot_def create_vcpu_def get_cpuid_def vmm_os_def Let_def)

lemma vmm_os_cpuid: "\<forall>t. (le_val (take 4 (fixed 4 (os_data (vmm_os file) t Supported_cpuid))) :: u32) \<le> of_nat CPUID_CAPACITY"
  by (simp add: vmm_os_def fixed_def CPUID_CAPACITY_def eval_nat_numeral)

lemma vmm_os_there: "file_there (vmm_os file) path file t"
  by (simp add: file_there_def vmm_os_def Let_def)

lemma kvm_apply_vmm_os: "\<exists>tr'. kvm_apply (vmm_os file) ks tr = (True, tr')"
  by (induction ks arbitrary: tr) (auto simp: vmm_os_def)

lemma read_vmm_os: "\<exists>tr'. read_file (vmm_os file) path tr = (Some file, tr')"
  by (simp add: read_file_def vmm_os_def Let_def)

lemma run_two_signals: "\<exists>rest v' tr'. run w hva [signal_event, signal_event] 0 v tr = Some (Returned 1 rest, v', tr')"
  by (auto simp: signal_event_def handle_mmio_write_def MMIO_SIGNAL_GPA_def MMIO_SIGNAL_MAGIC_def mmio_val_def case_prod_beta Let_def)

lemma setup_bios_defined: "0x100000 \<le> ram_bytes r \<Longrightarrow> \<exists>r'. setup_bios r = Some r'"
proof -
  assume r: "0x100000 \<le> ram_bytes r"
  from setup_bios_eq [OF r] obtain r1 where p: "pokes r (bios_writes (ram_bytes r)) = Some r1"
    and s: "setup_bios r = ram_put r1 REAL_MODE_IVT_BEGIN (ivt_bytes boot_ivt)" by blast
  have "REAL_MODE_IVT_BEGIN + length (ivt_bytes boot_ivt) \<le> ram_bytes r1"
    using r pokes_bytes [OF p] by (simp add: length_ivt_bytes boot_ivt_def boot_at.simps)
  from guest.put_defined [OF this] s show ?thesis by auto
qed

lemma demo_kernel_facts: "length demo_kernel = 4608" "setup_size demo_kernel = 4096" "file_u32 demo_kernel OFF_header = 0x53726448"
  by (simp_all add: setup_size_def demo_kernel_def boot_offs nth_append file_u32_def)

lemma boot_load_demo:
  assumes "ram_bytes (ram v) = 0x4000000"
  shows "\<exists>v' tr'. boot_load (vmm_os demo_kernel) k i v tr = Some (True, v', tr')"
proof -
  from setup_bios_defined [of "ram v"] assms obtain r1 where 1: "setup_bios (ram v) = Some r1" by auto
  then have r1: "ram_bytes r1 = 0x4000000" using setup_bios_bytes assms by fastforce
  obtain t1 where t1: "read_file (vmm_os demo_kernel) k tr = (Some demo_kernel, t1)" using read_vmm_os by blast
  obtain t2 where t2: "read_file (vmm_os demo_kernel) i t1 = (Some demo_kernel, t2)" using read_vmm_os by blast
  from place_bzimage_ok [of demo_kernel r1 "cmdline v"] r1 obtain r2 where
    2: "place_bzimage demo_kernel (cmdline v) r1 = Some (True, r2)" "ram_bytes r2 = 0x4000000"
    by (auto simp: demo_kernel_facts BOOT_PARAMS_SIZE_def boot_consts)
  from place_initrd_ok [of demo_kernel r2] 2(2) obtain r3 where 3: "place_initrd demo_kernel r2 = Some r3"
    by (auto simp: demo_kernel_facts)
  have "\<exists>t3. setup_cpu (vmm_os demo_kernel) (v\<lparr>ram := r3\<rparr>) t2 = (True, t3)"
    unfolding setup_cpu_def Let_def by (rule kvm_apply_vmm_os)
  then obtain t3 where t3: "setup_cpu (vmm_os demo_kernel) (v\<lparr>ram := r3\<rparr>) t2 = (True, t3)" ..
  show ?thesis by (simp add: boot_load_def load_bzimage_def load_initrd_def 1 t1 t2 2(1) 3 t3)
qed


definition demo_boot :: world where
  "demo_boot = \<lparr>host = vmm_os demo_kernel, ram_hva = 0, copy_sched = [], xsave_buf = replicate XSAVE_SIZE 0,
     vcpu = [signal_event, signal_event], guest_stores = (\<lambda>_ f. f(5000 := 7))\<rparr>"

definition boot_args :: "string list" where
  "boot_args = [''vmm'', ''boot'', ''bzImage'', ''initrd'', ''--snapshot'', ''snap'']"

definition demo_restore :: "u8 list \<Rightarrow> world" where
  "demo_restore file = \<lparr>host = vmm_os file, ram_hva = 0, copy_sched = concat (replicate 20000 [0..<2]), xsave_buf = replicate XSAVE_SIZE 0,
     vcpu = [], guest_stores = (\<lambda>_ f. f)\<rparr>"

definition restore_args :: "string list" where
  "restore_args = [''vmm'', ''restore'', ''snap'', ''--no-uffd'']"

lemma boot_args_facts:
  "find_arg boot_args ''--ram'' = None" "find_arg boot_args ''--share'' = None" "find_arg boot_args ''--snapshot'' = Some ''snap''" "ram_arg None = 64"
  by (simp_all add: boot_args_def find_arg_def ram_arg_def upt_rec)

lemma restore_args_facts:
  "find_arg restore_args ''--config'' = None" "find_arg restore_args ''--entrypoint'' = None" "find_arg restore_args ''--share'' = None"
  "find_arg restore_args ''--copy-threads'' = None" "has_flag restore_args ''--no-uffd''" "\<not> has_flag restore_args ''--hugetlb''"
  "\<not> has_flag restore_args ''--midway-uffd''"
  by (simp_all add: restore_args_def find_arg_def has_flag_def upt_rec)

lemma demo_booted: "\<exists>m tr. boot_setup demo_boot boot_args = Inr (m, tr)"
proof -
  have "\<not> use_uffd (ufd (vm (new_machine 64)))" "\<not> use_hugetlb (new_machine 64)" "ram_memfd (new_machine 64) < 0"
    by (simp_all add: new_machine_def new_vmm_def init_uffd_state_def)
  from init_vmm_os [OF this] obtain m1 tr1 where i: "init (vmm_os demo_kernel) False (new_machine 64) [] = (True, m1, tr1)" by blast
  have "ram_bytes (ram (vm m1)) = 0x4000000" using init_keeps_made [OF i made_new] by (simp add: made_def fresh_ram_def)
  then have "ram_bytes (ram (vm (boot_devices m1))) = 0x4000000" by (simp add: frame_boot_devices)
  from boot_load_demo [OF this] obtain v tr2 where
    b: "boot_load (vmm_os demo_kernel) (boot_args ! 2) (boot_args ! 3) (vm (boot_devices m1)) tr1 = Some (True, v, tr2)" by blast
  have "boot_setup demo_boot boot_args = Inr ((boot_devices m1)\<lparr>vm := v\<rparr>, tr2)"
    by (simp add: boot_setup_def demo_boot_def boot_args_facts i start_share_def b Let_def)
  then show ?thesis by blast
qed

lemma demo_restore_ready:
  assumes "vm_ok v" and "ram_mb v = 64" and s: "save_snapshot w v tr = (Some s, tr1)"
  shows "\<exists>m t. restore_setup (demo_restore (snapshot_bytes (with_bitmap (ram v) s))) restore_args = Inr (m, t)"
proof -
  let ?s = "with_bitmap (ram v) s" let ?f = "snapshot_bytes ?s" let ?x = "demo_restore ?f"
  have ok: "snapshot_ok ?s" by (rule saved_snapshot_ok [OF assms(1) s])
  have "fixed HDR_SIZE ?f = hdr_bytes (hdr ?s)"
    using ok by (simp add: fixed_def snapshot_bytes_def snapshot_ok_def length_hdr_bytes)
  then have "hdr_of_bytes (fixed HDR_SIZE ?f) = hdr ?s" using ok by (simp add: snapshot_ok_def hdr_roundtrip)
  moreover have "h_ram_mb (hdr ?s) = 64" using save_snapshot_Some [OF s] assms(2) by (auto simp: with_bitmap_def Let_def make_header_def)
  ultimately have p: "\<exists>t'. peek_ram_mb (vmm_os ?f) path t = (64, t')" for path t by (simp add: peek_ram_mb_def vmm_os_def Let_def)
  let ?m0 = "restore_machine restore_args (0, 0) 64"
  have m0: "\<not> use_uffd (ufd (vm ?m0))" "\<not> use_hugetlb ?m0" "ram_memfd ?m0 < 0" "\<not> midway_uffd (ufd (vm ?m0))" "copy_threads (vm ?m0) = 2"
    by (simp_all add: restore_machine_def restore_args_facts paging_options_def set_uffd_def set_midway_uffd_def new_machine_def new_vmm_def Let_def)
  have "write_config_to_share (vmm_os ?f) (share_of restore_args empty_config) empty_config [] = []"
    by (simp add: write_config_to_share_def share_of_def restore_args_facts empty_config_def)
  moreover obtain t2 where t2: "peek_ram_mb (vmm_os ?f) (restore_args ! 2) [Clock_gettime] = (64, t2)" using p by blast
  moreover from init_vmm_os [OF m0(1-3)] obtain m1 t3 where
    i: "init (vmm_os ?f) False ?m0 t2 = (True, m1, t3)" and u: "ufd (vm m1) = ufd (vm ?m0)" "copy_threads (vm m1) = copy_threads (vm ?m0)" by blast
  moreover have "share_of restore_args empty_config = None" by (simp add: share_of_def restore_args_facts empty_config_def)
  moreover have "os_pair (vmm_os ?f) t Clock_gettime = (0, 0)" for t by (simp add: vmm_os_def)
  ultimately have c: "restore_created ?x restore_args empty_config [] = Inr (set_net boot_mac m1, t3)"
    by (simp add: restore_created_def demo_restore_def Let_def start_share_def restore_mac_def) (simp add: empty_config_def)
  let ?v = "vm (set_net boot_mac m1)" let ?k = "\<lambda>fd. keep_mapping fd (length ?f) ?s ?v"
  have "made 64 True m1 t3" by (rule init_keeps_made [OF i made_restore_machine]) (simp add: restore_args_facts)
  then have k: "ram (?k fd) = fresh_ram (ram_bytes (ram v))" "ram_mb (?k fd) = ram_mb v" "\<not> use_uffd (ufd (?k fd))" "\<not> midway_uffd (ufd (?k fd))"
    "copy_threads (?k fd) = 2" for fd
    using assms(1,2) u m0 by (simp_all add: made_def keep_mapping_def set_net_def vm_ok_def)
  have "total_pages (ram v) = 16384" using assms(1,2) by (simp add: vm_ok_def total_pages_def PAGE_def)
  then have "fair_rounds (copy_threads (?k fd)) (total_pages (ram v)) (replicate 20000 [0..<num_copy_threads 2])" for fd
    unfolding k(5) by (intro fair_rounds_replicate) (simp add: num_chunks_def CHUNK_PAGES_def num_copy_threads_def)
  note r = restored_calm [OF assms(1) s kvm_apply_vmm_os k(1-4) this, where hva = 0]
  have parse: "parse_snapshot (replicate XSAVE_SIZE 0) ?f = Inr ?s" using snapshot_parsed [OF ok] by simp
  obtain v1 t4 where "restore_snapshot_file (copy_sched ?x) (vmm_os ?f) 0 (replicate XSAVE_SIZE 0) (restore_args ! 2) ?v t3 = Some (True, v1, t4)"
  proof -
    let ?fd = "os_ret (vmm_os ?f) t3 (Open_read (restore_args ! 2))"
    have "copy_sched ?x = concat (replicate 20000 [0..<num_copy_threads 2])" by (simp add: demo_restore_def num_copy_threads_def)
    with r obtain v2 t5 where "restore_snapshot (copy_sched ?x) (vmm_os ?f) 0 ?s (?k ?fd)
        (t3 @ [Open_read (restore_args ! 2), Fstat ?fd, Mmap_file ?fd (length ?f)]) = Some (True, v2, t5)" by metis
    from restore_file_parsed [OF vmm_os_there parse this] that show ?thesis
      by (cases "release_mapping ?fd (length ?f) v2 t5") auto
  qed
  then show ?thesis using c
    by (simp add: restore_setup_def load_config_def restore_args_facts demo_restore_def)
qed


theorem boot_snapshot_restores_witness:
  "\<exists>m tr rest m1 tr1 s tr2 ws m' t'. boot_setup demo_boot boot_args = Inr (m, tr) \<and>
     run_machine demo_boot (vcpu demo_boot) m tr = Some (Returned 1 rest, m1, tr1) \<and>
     save_snapshot (host demo_boot) (vm m1) tr1 = (Some s, tr2) \<and>
     restore_setup (demo_restore (file_content (host demo_boot) 3 (tr2 @ [Open_write ''snap'']) ws)) restore_args = Inr (m', t') \<and>
     ram_mem (ram (vm m')) 5000 = 7"
proof -
  let ?w = "host demo_boot"
  obtain m tr where b: "boot_setup demo_boot boot_args = Inr (m, tr)" using demo_booted by blast
  have f: "4 \<le> length boot_args" "0 < ram_arg (find_arg boot_args ''--ram'')" "ram_arg (find_arg boot_args ''--ram'') < 2 ^ 27"
    "\<forall>t. (le_val (take 4 (fixed 4 (os_data ?w t Supported_cpuid))) :: u32) \<le> of_nat CPUID_CAPACITY"
    "find_arg boot_args ''--snapshot'' = Some ''snap''" "(0::int) \<le> 3" "\<forall>t bs. os_ret ?w t (File_write 3 bs) = int (length bs)"
    "os_ret ?w t (Open_write ''snap'') = 3" for t
    using vmm_os_cpuid [of demo_kernel] by (simp_all add: boot_args_facts demo_boot_def) (simp_all add: boot_args_def vmm_os_def)
  obtain rest v tr1 where r: "run ?w 0 [signal_event, signal_event] 0 (vm m) tr = Some (Returned 1 rest, v, tr1)" using run_two_signals by blast
  let ?m1 = "m\<lparr>vm := stored (\<lambda>f. f(5000 := 7)) v\<rparr>"
  have rm: "run_machine demo_boot (vcpu demo_boot) m tr = Some (Returned 1 rest, ?m1, tr1)"
    using r by (simp add: run_machine_def demo_boot_def)
  obtain s tr2 where s: "save_snapshot ?w (vm ?m1) tr1 = (Some s, tr2)"
    using save_calm [of ?w] by (fastforce simp: demo_boot_def vmm_os_def)
  from boot_snapshot_restores [OF b f(1-4) rm f(5) s f(8) f(6,7)] obtain ws where
    c: "file_content ?w 3 (tr2 @ [Open_write ''snap'']) ws = snapshot_bytes (with_bitmap (ram (vm ?m1)) s)" and
    all: "\<And>y argv' m' t'. 3 \<le> length argv' \<and> argv' ! 2 = ''snap'' \<and> (has_flag argv' ''--midway-uffd'' \<or> has_flag argv' ''--no-uffd'') \<and>
        length (xsave_buf y) = XSAVE_SIZE \<and>
        (\<forall>t. file_there (host y) ''snap'' (file_content ?w 3 (tr2 @ [Open_write ''snap'']) ws) t) \<and> restore_setup y argv' = Inr (m', t') \<Longrightarrow>
      (\<forall>j < ram_bytes (ram (vm ?m1)). ram_mem (ram (vm m')) j = ram_mem (ram (vm ?m1)) j)" by blast
  note ok = boot_machine_ok [OF b f(2-4)] frame_run_machine [OF rm]
  have o1: "vm_ok (vm ?m1)" "ram_mb (vm ?m1) = 64" using ok vm_ok_frame [OF ok(3)] by (simp_all add: vm_frame_def boot_args_facts)
  from demo_restore_ready [OF o1 s] obtain m' t' where
    d: "restore_setup (demo_restore (file_content ?w 3 (tr2 @ [Open_write ''snap'']) ws)) restore_args = Inr (m', t')" unfolding c by blast
  have "\<forall>j < ram_bytes (ram (vm ?m1)). ram_mem (ram (vm m')) j = ram_mem (ram (vm ?m1)) j"
    by (rule all [of restore_args "demo_restore (file_content ?w 3 (tr2 @ [Open_write ''snap'']) ws)", OF conjI])
      (use d in \<open>simp_all add: restore_args_facts vmm_os_there demo_restore_def\<close>, simp_all add: restore_args_def)
  moreover have "5000 < ram_bytes (ram (vm ?m1))" using o1 by (simp add: vm_ok_def)
  ultimately have "ram_mem (ram (vm m')) 5000 = 7" by (simp add: stored_def)
  with b rm s d show ?thesis by blast
qed

end
