(* ===== verification/Clones.thy ===== *)
theory Clones
  imports Commands Guest_Init
begin

text \<open>
  What the clones of a snapshot share and what tells them apart: the snapshot that \<open>clone\<close> reads for all of them, and the MAC
  address, TAP interface and IP address of each.
\<close>

section \<open>The shared snapshot\<close>

text \<open>
  A descriptor from which a file is read to its end: each read gives what follows the bytes asked for before.
\<close>

fun consumed :: "log \<Rightarrow> nat" where
  "consumed [] = 0"
| "consumed (File_read _ n # cs) = n + consumed cs"
| "consumed (_ # cs) = consumed cs"

lemma consumed_append [simp]: "consumed (cs @ ds) = consumed cs + consumed ds"
  by (induction cs rule: consumed.induct) auto

definition serves_reads :: "os \<Rightarrow> int \<Rightarrow> u8 list \<Rightarrow> log \<Rightarrow> bool" where
  "serves_reads w fd file tr \<longleftrightarrow>
     (\<forall>cs n. os_ret w (tr @ cs) (File_read fd n) = int (min n (length file - consumed cs)) \<and>
       os_data w (tr @ cs) (File_read fd n) = take n (drop (consumed cs) file))"

lemma served:
  assumes "serves_reads w fd file tr" "length a = consumed cs" "file = a @ b"
  shows "os_ret w (tr @ cs) (File_read fd n) = int (min n (length b))" and "os_data w (tr @ cs) (File_read fd n) = take n b"
  using assms by (auto simp: serves_reads_def)

lemma read_into_served:
  assumes "serves_reads w fd file tr" "length a = consumed cs" "file = a @ b @ c" "length b = n" "length buf = n \<or> n = length b \<and> length buf = length b"
  shows "read_into w fd n buf (tr @ cs) = (b, tr @ cs @ [File_read fd n])"
  using served [OF assms(1,2), of "b @ c" n] assms(3-5) by (auto simp: read_into_def Let_def)

lemma read_ram_served:
  assumes f: "serves_reads w fd file tr" "length a = consumed cs" "file = a @ b" and n: "length b \<le> n"
  shows "\<exists>tr'. read_ram w fd 0 (replicate n 0) (tr @ cs) = (b @ replicate (n - length b) 0, tr')"
proof (cases "b = []")
  case True
  then show ?thesis using served [OF f, of n] by (subst read_ram.simps) (simp add: Let_def)
next
  case False
  let ?cs = "cs @ [File_read fd n]" and ?buf = "b @ replicate (n - length b) 0"
  have "0 < n" using False n by (cases b) auto
  then have "read_ram w fd 0 (replicate n 0) (tr @ cs) = read_ram w fd (length b) ?buf (tr @ ?cs)"
    using served [OF f, of n] False n by (subst read_ram.simps) (simp add: Let_def)
  moreover have "\<exists>tr'. read_ram w fd (length b) ?buf (tr @ ?cs) = (?buf, tr')"
  proof (cases "length b = n")
    case True
    then show ?thesis by (subst read_ram.simps) simp
  next
    case False
    have "os_ret w (tr @ ?cs) (File_read fd (n - length b)) = 0"
      using f n by (simp add: serves_reads_def)
    then show ?thesis using n False by (subst read_ram.simps) (simp add: Let_def)
  qed
  ultimately show ?thesis by simp
qed

text \<open>
  Claim C27.  The clones' snapshot is the one in the file.  Reading a well-formed snapshot file section by section gives exactly the
  snapshot that \<open>parse_snapshot\<close> finds in it.  But where \<open>restore\<close> refuses a file whose end is missing, \<open>clone\<close> does not notice: the
  missing bytes of RAM are taken to be zero.
\<close>

theorem clone_reads_snapshot:
  assumes "snapshot_ok s" and "length xbuf = XSAVE_SIZE" and "0 \<le> os_ret w tr (Open_read path)" and "c \<le> length (snap_ram s)"
    and "serves_reads w (os_ret w tr (Open_read path)) (take (length (snapshot_bytes s) - c) (snapshot_bytes s)) (tr @ [Open_read path])"
    and "\<forall>t n. 0 \<le> os_ret w t (Mmap_anon n)"
  shows "\<exists>tr'. golden_file w xbuf path tr =
      Some (Some (s\<lparr>snap_ram := take (length (snap_ram s) - c) (snap_ram s) @ replicate c 0\<rparr>), tr') \<and>
    (if c = 0 then parse_snapshot xbuf (snapshot_bytes s) = Inr s
     else \<exists>e. parse_snapshot xbuf (take (length (snapshot_bytes s) - c) (snapshot_bytes s)) = Inl e)"
proof -
  let ?fd = "os_ret w tr (Open_read path)" and ?r = "take (length (snap_ram s) - c) (snap_ram s)" and ?h = "hdr s"
  let ?f = "take (length (snapshot_bytes s) - c) (snapshot_bytes s)" and ?t = "tr @ [Open_read path]"
  note ok = assms(1) [unfolded snapshot_ok_def]
  have f: "?f = hdr_bytes ?h @ xsave s @ cpuid s @ msrs s @ dirty_bitmap s @ ?r"
    using assms(4) ok by (simp add: snapshot_bytes_def)
  note sv = assms(5)
  let ?xn = "unat (h_xsave_size ?h)" and ?cn = "unat (h_cpuid_nent ?h) * CPUID_ENTRY" and ?mn = "unat (h_num_msrs ?h) * MSR_ENTRY"
    and ?bn = "unat (h_bitmap_bytes ?h)" and ?rn = "unat (h_ram_mb ?h) * 1024 * 1024"
  have H: "os_ret w ?t (File_read ?fd HDR_SIZE) = int HDR_SIZE" "os_data w ?t (File_read ?fd HDR_SIZE) = hdr_bytes ?h"
    using served [OF sv, of "[]" "[]" ?f HDR_SIZE] f ok by (simp_all add: length_hdr_bytes)
  let ?c0 = "[File_read ?fd HDR_SIZE]" let ?c1 = "?c0 @ [File_read ?fd ?xn]" let ?c2 = "?c1 @ [File_read ?fd ?cn]" let ?c3 = "?c2 @ [File_read ?fd ?mn]"
  have X: "read_into w ?fd ?xn xbuf (?t @ ?c0) = (xsave s, ?t @ ?c1)"
    using read_into_served [OF sv, of "hdr_bytes ?h" ?c0 "xsave s" "cpuid s @ msrs s @ dirty_bitmap s @ ?r" ?xn xbuf] f ok assms(2)
    by (simp add: length_hdr_bytes)
  have C: "read_into w ?fd ?cn (replicate ?cn 0) (?t @ ?c1) = (cpuid s, ?t @ ?c2)"
    using read_into_served [OF sv, of "hdr_bytes ?h @ xsave s" ?c1 "cpuid s" "msrs s @ dirty_bitmap s @ ?r" ?cn "replicate ?cn 0"] f ok
    by (simp add: length_hdr_bytes)
  have M: "read_into w ?fd ?mn (replicate ?mn 0) (?t @ ?c2) = (msrs s, ?t @ ?c3)"
    using read_into_served [OF sv, of "hdr_bytes ?h @ xsave s @ cpuid s" ?c2 "msrs s" "dirty_bitmap s @ ?r" ?mn "replicate ?mn 0"] f ok
    by (simp add: length_hdr_bytes)
  obtain c4 where B: "(if 0 < ?bn then read_into w ?fd ?bn (replicate ?bn 0) (?t @ ?c3) else ([], ?t @ ?c3)) = (dirty_bitmap s, ?t @ c4)"
    and c4: "consumed c4 = consumed ?c3 + ?bn"
  proof (cases "0 < ?bn")
    case True
    have "read_into w ?fd ?bn (replicate ?bn 0) (?t @ ?c3) = (dirty_bitmap s, ?t @ ?c3 @ [File_read ?fd ?bn])"
      using read_into_served [OF sv, of "hdr_bytes ?h @ xsave s @ cpuid s @ msrs s" ?c3 "dirty_bitmap s" ?r ?bn "replicate ?bn 0"] f ok
      by (simp add: length_hdr_bytes)
    with True that [of "?c3 @ [File_read ?fd ?bn]"] show ?thesis by simp
  qed (use ok that [of ?c3] in simp)
  obtain t5 where R: "read_ram w ?fd 0 (replicate ?rn 0) ((?t @ c4) @ [Mmap_anon ?rn]) = (?r @ replicate c 0, t5)"
    using read_ram_served [OF sv, of "hdr_bytes ?h @ xsave s @ cpuid s @ msrs s @ dirty_bitmap s" "c4 @ [Mmap_anon ?rn]" ?r ?rn] f ok c4 assms(4) that
    by (auto simp: length_hdr_bytes mb_bytes_def)
  have "\<exists>tr'. golden_file w xbuf path tr = Some (Some (s\<lparr>snap_ram := ?r @ replicate c 0\<rparr>), tr')"
  proof -
    have "\<not> (XSAVE_SIZE < length (xsave s) \<or> os_ret w (?t @ c4) (Mmap_anon ?rn) < 0)" using ok assms(6) by (simp add: not_less)
    then have "read_golden w xbuf ?fd ?h (?t @ ?c0) = Some (s\<lparr>snap_ram := ?r @ replicate c 0\<rparr>, t5 @ [Close ?fd])"
      unfolding read_golden_def Let_def X prod.case C M B R by simp
    moreover have "hdr_of_bytes (fixed HDR_SIZE (hdr_bytes ?h)) = ?h" using ok by (simp add: length_hdr_bytes hdr_roundtrip)
    ultimately show ?thesis using assms(3) H by (simp add: golden_file_def Let_def not_less)
  qed
  moreover have "if c = 0 then parse_snapshot xbuf (snapshot_bytes s) = Inr s else \<exists>e. parse_snapshot xbuf ?f = Inl e"
    using snapshot_parsed [OF assms(1,2)] snapshot_truncated [OF assms(1,2), of "length (snapshot_bytes s) - c"] assms(4)
    by (auto simp: snapshot_bytes_def)
  ultimately show ?thesis by blast
qed


definition seq_os :: "u8 list \<Rightarrow> os" where
  "seq_os file = \<lparr>os_ret = (\<lambda>t c. case c of File_read _ n \<Rightarrow> int (min n (length file - consumed t)) | _ \<Rightarrow> 3),
     os_data = (\<lambda>t c. case c of File_read _ n \<Rightarrow> take n (drop (consumed t) file) | _ \<Rightarrow> []), os_pair = (\<lambda>_ _. (0, 0))\<rparr>"

definition big_snapshot :: snapshot where
  "big_snapshot = demo_snapshot\<lparr>hdr := (hdr demo_snapshot)\<lparr>h_ram_mb := 1\<rparr>, snap_ram := replicate 1048576 1\<rparr>"

lemma big_snapshot_ok: "snapshot_ok big_snapshot"
  using demo_snapshot_ok by (simp add: snapshot_ok_def big_snapshot_def hdr_ok_def hdr_pieces_def mb_bytes_def)

theorem clone_reads_snapshot_witness:
  "\<exists>s tr'. golden_file (seq_os (take (length (snapshot_bytes big_snapshot) - 5) (snapshot_bytes big_snapshot))) (replicate XSAVE_SIZE 0) ''snap'' [] =
     Some (Some s, tr') \<and> snap_ram s = replicate 1048571 1 @ replicate 5 0"
proof -
  let ?w = "seq_os (take (length (snapshot_bytes big_snapshot) - 5) (snapshot_bytes big_snapshot))"
  have 1: "length (replicate XSAVE_SIZE (0::u8)) = XSAVE_SIZE" "0 \<le> os_ret ?w [] (Open_read ''snap'')" "\<forall>t n. 0 \<le> os_ret ?w t (Mmap_anon n)"
    by (simp_all add: seq_os_def)
  have 2: "5 \<le> length (snap_ram big_snapshot)" "take (length (snap_ram big_snapshot) - 5) (snap_ram big_snapshot) = replicate 1048571 1"
    by (simp_all add: big_snapshot_def)
  have 3: "serves_reads ?w (os_ret ?w [] (Open_read ''snap'')) (take (length (snapshot_bytes big_snapshot) - 5) (snapshot_bytes big_snapshot)) ([] @ [Open_read ''snap''])"
    by (simp add: serves_reads_def seq_os_def)
  from clone_reads_snapshot [OF big_snapshot_ok 1(1,2) 2(1) 3 1(3)] show ?thesis by (auto simp: 2(2))
qed

section \<open>Addresses\<close>

definition dotted :: "nat \<Rightarrow> nat \<Rightarrow> nat \<Rightarrow> nat \<Rightarrow> string" where
  "dotted a b c d = show_dec a @ ''.'' @ show_dec b @ ''.'' @ show_dec c @ ''.'' @ show_dec d"

lemma inet_ntop_dotted: "inet_ntop x = dotted (unat x div 16777216) (unat x div 65536 mod 256) (unat x div 256 mod 256) (unat x mod 256)"
  by (simp add: inet_ntop_def join_with_def dotted_def Let_def)

lemma scan_dotted:
  assumes "a < 2 ^ 32" "b < 2 ^ 32" "c < 2 ^ 32" "d < 2 ^ 32" "p < 2 ^ 32"
  shows "scan_fields 10 ''.../'' (dotted a b c d @ ''/'' @ show_dec p) = [of_nat a, of_nat b, of_nat c, of_nat d, of_nat p]"
  using assms scan_uint_dec [of p "[]"] by (simp add: dotted_def scan_uint_dec digit_val_def)

lemma show_dec_inj: "show_dec m = show_dec n \<Longrightarrow> m = n"
  using read_show_dec by (metis fst_conv)

lemma length_show_dec: "n < 10 ^ k \<Longrightarrow> 0 < k \<Longrightarrow> length (show_dec n) \<le> k"
proof (induction k arbitrary: n)
  case (Suc k)
  show ?case
  proof (cases "n < 10")
    case False
    then have "0 < k" using Suc.prems by (cases k) auto
    moreover have "n div 10 < 10 ^ k" using Suc.prems by (simp add: div_less_iff_less_mult mult.commute)
    ultimately show ?thesis using Suc.IH False by (simp add: show_dec.simps [of n])
  qed (simp add: show_dec.simps [of n])
qed simp

lemma clone_ip_dotted:
  assumes "a < 256" "b < 256" "c < 256" "d < 256" "p \<le> 32" "i < 2 ^ 31"
  shows "clone_ip (dotted a b c d @ ''/'' @ show_dec p) i = dotted a b c (d + i) @ ''/'' @ show_dec p"
proof -
  have u: "unat (of_nat n :: u32) = n" if "n < 2 ^ 32" for n using that by (simp add: unat_u32)
  have e: "(of_nat d + of_nat i :: u32) = of_nat (d + i)" by simp
  have "length (show_dec (d + i)) \<le> 10" by (rule length_show_dec) (use assms in simp_all)
  then have "length (dotted a b c (d + i) @ ''/'' @ show_dec p) < 32"
    using length_show_octet [of p] length_show_octet [of a] length_show_octet [of b] length_show_octet [of c] assms
    by (simp add: dotted_def)
  then show ?thesis
    using scan_dotted [of a b c d p] assms by (simp add: clone_ip_def u e cut_to_def del: of_nat_add) (simp add: dotted_def)
qed


lemma last_octet: "n mod 256 + i < 256 \<Longrightarrow> (n + i) div 256 = n div 256 \<and> (n + i) mod 256 = n mod 256 + i" for n i :: nat
proof -
  assume *: "n mod 256 + i < 256"
  obtain q r where n: "n = r + q * 256" "r < 256" using mod_less_divisor [of 256 n] by (metis mod_div_mult_eq zero_less_numeral)
  with * have s: "r + i < 256" by simp
  have "n + i = (r + i) + q * 256" using n by simp
  then have "(n + i) div 256 = q" "(n + i) mod 256 = r + i" using s by (simp_all only: div_mult_self1 mod_mult_self1) simp_all
  then show ?thesis using n by simp
qed

text \<open>An address whose last number has more than eight bits is no address.\<close>

lemma inet_pton_too_big: "255 < d \<Longrightarrow> inet_pton (dotted a b c d) = None"
proof -
  assume d: "255 < d"
  have "split_on (CHR ''.'') (dotted a b c d) = map show_dec [a, b, c, d]"
    by (simp add: dotted_def split_on_join [OF show_dec_no_dot(1)] split_on_plain [OF show_dec_no_dot(1)])
  moreover have "octet_of (show_dec d) = None" using d by (simp add: octet_of_def read_show_dec)
  ultimately show ?thesis by (simp add: inet_pton_def split: option.splits)
qed

lemma split_cidr_dotted:
  assumes "length (dotted a b c d @ ''/'' @ show_dec p) < 64"
  shows "fst (split_cidr (dotted a b c d @ ''/'' @ show_dec p)) = dotted a b c d"
proof -
  let ?i = "dotted a b c d" let ?s = "?i @ ''/'' @ show_dec p"
  have "CHR ''/'' \<notin> set ?i" "NUL \<notin> set ?i" using show_dec_no_dot by (simp_all add: dotted_def)
  then have "takeWhile (\<lambda>x. x \<noteq> CHR ''/'' \<and> x \<noteq> NUL) ?s = ?i" by (subst takeWhile_append2) auto
  then have "strchr ?s (CHR ''/'') = Some (length ?i)" by (simp add: strchr_def Let_def)
  moreover have "cut_to 64 ?s = ?s" using assms by (simp add: cut_to_def)
  ultimately show ?thesis by (simp add: split_cidr_def Let_def)
qed

lemma clone_mac_distinct:
  assumes "length (cfg_mac cfg) = 6" "i < 256" "j < 256" "i \<noteq> j"
  shows "clone_mac cfg i \<noteq> clone_mac cfg j"
proof
  assume "clone_mac cfg i = clone_mac cfg j"
  then have "clone_mac cfg i ! 5 = clone_mac cfg j ! 5" by simp
  then have "(of_nat i :: u8) = of_nat j" using assms(1) by (simp add: clone_mac_def)
  then have "unat (of_nat i :: u8) = unat (of_nat j :: u8)" by (rule arg_cong)
  then show False using assms by (simp add: unat_of_nat)
qed

lemma clone_tap_distinct:
  assumes "i < 10 ^ 12" "j < 10 ^ 12" "i \<noteq> j"
  shows "clone_tap i \<noteq> clone_tap j"
  using assms length_show_dec [of i 12] length_show_dec [of j 12] show_dec_inj [of i j] by (auto simp: clone_tap_def cut_to_def IFNAMSIZ_def)



definition net_config_demo :: vm_config where
  "net_config_demo = empty_config\<lparr>cfg_has_net := True, cfg_mac := [0x52, 0x54, 0, 0x12, 0x34, 0xff], cfg_ip := inet_ntop 0x0a0000fe @ ''/'' @ show_dec 24\<rparr>"


end
