(* ===== verification/Snap_Device.thy ===== *)
theory Snap_Device
  imports Prelude
begin

text \<open>
  The kernel module \<^verbatim>\<open>kmod/vmtainer_snap.c\<close>: a character device on which each open file can hold one buffer of kernel memory and
  map it into user space.

  The kernel below the module is a parameter: whether \<open>kzalloc\<close>, \<open>vmalloc_user\<close>, \<open>remap_vmalloc_range\<close> and the copies from and to
  user space succeed is an argument of each operation, and so is which memory \<open>vmalloc_user\<close> hands out and what that memory holds.
  Buffers have numbers.  The pages of a buffer that has been freed stay with the mappings of it, which hold references to them.
\<close>

type_synonym filp = nat
type_synonym buf = nat

record snap_ctx =
  ctx_buf :: "buf option"
  ctx_size :: u64

text \<open>A mapping: the file it was made through, the buffer whose pages it shows, its length.\<close>

record vma =
  map_file :: filp
  map_buf :: buf
  map_len :: u64

record snap_state =
  private_data :: "filp \<rightharpoonup> snap_ctx"
  contents :: "buf \<Rightarrow> nat \<Rightarrow> u8"
  mappings :: "vma list"

definition ENOMEM :: int where "ENOMEM = 12"
definition EFAULT :: int where "EFAULT = 14"
definition EINVAL :: int where "EINVAL = 22"
definition ENOTTY :: int where "ENOTTY = 25"

text \<open>\<open>PAGE_ALIGN\<close>, which wraps to 0 for the last page of numbers.\<close>

definition page_align :: "u64 \<Rightarrow> u64" where
  "page_align x = (x + 4095) AND NOT 4095"

definition vmtainer_snap_open :: "bool \<Rightarrow> filp \<Rightarrow> snap_state \<Rightarrow> int \<times> snap_state" where
  "vmtainer_snap_open mem f s =
     (if \<not> mem then (- ENOMEM, s) else (0, s\<lparr>private_data := (private_data s)(f \<mapsto> \<lparr>ctx_buf = None, ctx_size = 0\<rparr>)\<rparr>))"

definition vmtainer_snap_release :: "filp \<Rightarrow> snap_state \<Rightarrow> int \<times> snap_state" where
  "vmtainer_snap_release f s =
     (case private_data s f of
        None \<Rightarrow> (0, s)
      | Some _ \<Rightarrow> (0, s\<lparr>private_data := (private_data s)(f := None)\<rparr>))"

text \<open>What a caller passes: an unreadable address, or the number stored there.\<close>

datatype snap_cmd = SNAP_ALLOC "u64 option" | SNAP_INFO bool | SNAP_other

text \<open>\<^verbatim>\<open>struct vmtainer_snap_info\<close>\<close>

record snap_info =
  info_size :: u64
  info_phys_addr :: u64

definition free_old :: "snap_ctx \<Rightarrow> snap_ctx" where
  "free_old c = (case ctx_buf c of None \<Rightarrow> c | Some _ \<Rightarrow> c\<lparr>ctx_buf := None, ctx_size := 0\<rparr>)"

text \<open>\<open>mem\<close> is the buffer that \<open>vmalloc_user\<close> returns, if it does.\<close>

definition snap_alloc :: "u64 option \<Rightarrow> buf option \<Rightarrow> filp \<Rightarrow> snap_ctx \<Rightarrow> snap_state \<Rightarrow> int \<times> snap_state" where
  "snap_alloc arg mem f c s =
     (case arg of
        None \<Rightarrow> (- EFAULT, s)
      | Some req_size \<Rightarrow>
          (let aligned_size = page_align req_size
           in if req_size = 0 then (- EINVAL, s)
              else if aligned_size = 0 then (- EINVAL, s)
              else (let c1 = free_old c
                    in case mem of
                         None \<Rightarrow> (- ENOMEM, s\<lparr>private_data := (private_data s)(f \<mapsto> c1)\<rparr>)
                       | Some b \<Rightarrow>
                           (0, s\<lparr>contents := (contents s)(b := (\<lambda>i. if i < unat aligned_size then 0 else contents s b i)),
                                 private_data := (private_data s)(f \<mapsto> c1\<lparr>ctx_buf := Some b, ctx_size := aligned_size\<rparr>)\<rparr>))))"

definition vmtainer_snap_ioctl :: "snap_cmd \<Rightarrow> buf option \<Rightarrow> filp \<Rightarrow> snap_state \<Rightarrow> int \<times> snap_info option \<times> snap_state" where
  "vmtainer_snap_ioctl cmd mem f s =
     (case private_data s f of
        None \<Rightarrow> (- EINVAL, None, s)
      | Some c \<Rightarrow>
          (case cmd of
             SNAP_ALLOC arg \<Rightarrow> (case snap_alloc arg mem f c s of (ret, s1) \<Rightarrow> (ret, None, s1))
           | SNAP_INFO writable \<Rightarrow>
               (if writable then (0, Some \<lparr>info_size = ctx_size c, info_phys_addr = 0\<rparr>, s) else (- EFAULT, None, s))
           | SNAP_other \<Rightarrow> (- ENOTTY, None, s)))"

text \<open>\<open>remap\<close> is what \<open>remap_vmalloc_range\<close> returns.\<close>

definition vmtainer_snap_mmap :: "u64 \<Rightarrow> u64 \<Rightarrow> u64 \<Rightarrow> int \<Rightarrow> filp \<Rightarrow> snap_state \<Rightarrow> int \<times> snap_state" where
  "vmtainer_snap_mmap vm_start vm_end vm_pgoff remap f s =
     (case private_data s f of
        None \<Rightarrow> (- EINVAL, s)
      | Some c \<Rightarrow>
          (if vm_pgoff \<noteq> 0 then (- EINVAL, s)
           else (let wanted = vm_end - vm_start
                 in case ctx_buf c of
                      None \<Rightarrow> (- EINVAL, s)
                    | Some b \<Rightarrow>
                        (if ctx_size c < wanted then (- EINVAL, s)
                         else if remap \<noteq> 0 then (remap, s)
                         else (0, s\<lparr>mappings := mappings s @ [\<lparr>map_file = f, map_buf = b, map_len = wanted\<rparr>]\<rparr>)))))"

section \<open>Runs\<close>

text \<open>What user space does with a mapping: load, store, and unmap.\<close>

definition user_load :: "vma \<Rightarrow> nat \<Rightarrow> snap_state \<Rightarrow> u8 option" where
  "user_load m i s = (if i < unat (map_len m) then Some (contents s (map_buf m) i) else None)"

definition user_store :: "vma \<Rightarrow> nat \<Rightarrow> u8 \<Rightarrow> snap_state \<Rightarrow> snap_state" where
  "user_store m i x s = s\<lparr>contents := (contents s)(map_buf m := (contents s (map_buf m))(i := x))\<rparr>"

definition user_unmap :: "nat \<Rightarrow> snap_state \<Rightarrow> snap_state" where
  "user_unmap k s = s\<lparr>mappings := take k (mappings s) @ drop (Suc k) (mappings s)\<rparr>"

text \<open>Memory that \<open>vmalloc_user\<close> may return: no file owns it and no mapping holds its pages.\<close>

definition unused :: "snap_state \<Rightarrow> buf \<Rightarrow> bool" where
  "unused s b \<longleftrightarrow> (\<forall>f c. private_data s f = Some c \<longrightarrow> ctx_buf c \<noteq> Some b) \<and> (\<forall>m \<in> set (mappings s). map_buf m \<noteq> b)"

text \<open>
  The steps of a system with any number of processes.  The kernel opens a file under a number that is neither open nor mapped, and
  keeps a mapped file alive, so that it is released after the last mapping is gone.
\<close>

inductive snap_step :: "snap_state \<Rightarrow> snap_state \<Rightarrow> bool" where
  opened: "private_data s f = None \<Longrightarrow> (\<forall>m \<in> set (mappings s). map_file m \<noteq> f) \<Longrightarrow> vmtainer_snap_open mem f s = (r, s') \<Longrightarrow> snap_step s s'"
| released: "\<forall>m \<in> set (mappings s). map_file m \<noteq> f \<Longrightarrow> vmtainer_snap_release f s = (r, s') \<Longrightarrow> snap_step s s'"
| ioctl: "(\<forall>b. mem = Some b \<longrightarrow> unused s b) \<Longrightarrow> vmtainer_snap_ioctl cmd mem f s = (r, info, s') \<Longrightarrow> snap_step s s'"
| mmapped: "vmtainer_snap_mmap a e off remap f s = (r, s') \<Longrightarrow> snap_step s s'"
| stored: "m \<in> set (mappings s) \<Longrightarrow> i < unat (map_len m) \<Longrightarrow> snap_step s (user_store m i x s)"
| unmapped: "k < length (mappings s) \<Longrightarrow> snap_step s (user_unmap k s)"

definition snap_start :: "(buf \<Rightarrow> nat \<Rightarrow> u8) \<Rightarrow> snap_state" where
  "snap_start mem = \<lparr>private_data = Map.empty, contents = mem, mappings = []\<rparr>"

inductive snap_reach :: "(buf \<Rightarrow> nat \<Rightarrow> u8) \<Rightarrow> snap_state \<Rightarrow> bool" for mem where
  start: "snap_reach mem (snap_start mem)"
| step: "snap_reach mem s \<Longrightarrow> snap_step s s' \<Longrightarrow> snap_reach mem s'"

inductive_cases snap_step_cases: "snap_step s s'"

text \<open>The file that a buffer belongs to: the one that holds it or through which it is mapped.\<close>

definition belongs :: "snap_state \<Rightarrow> buf \<Rightarrow> filp \<Rightarrow> bool" where
  "belongs s b f \<longleftrightarrow> (\<exists>c. private_data s f = Some c \<and> ctx_buf c = Some b) \<or> (\<exists>m \<in> set (mappings s). map_buf m = b \<and> map_file m = f)"

definition snap_inv :: "snap_state \<Rightarrow> bool" where
  "snap_inv s \<longleftrightarrow> (\<forall>b f g. belongs s b f \<and> belongs s b g \<longrightarrow> f = g) \<and>
     (\<forall>f c. private_data s f = Some c \<longrightarrow> (ctx_buf c = None \<longleftrightarrow> ctx_size c = 0) \<and> unat (ctx_size c) mod 4096 = 0) \<and>
     (\<forall>m \<in> set (mappings s). private_data s (map_file m) \<noteq> None)"


section \<open>Lemmas\<close>

lemma ctx_update: "c\<lparr>ctx_buf := b, ctx_size := n\<rparr> = \<lparr>ctx_buf = b, ctx_size = n\<rparr>"
  by (cases c) simp

lemma snap_alloc_cases:
  assumes "snap_alloc arg mem f c s = (r, s')"
  obtains "s' = s" "r < 0"
  | "s' = s\<lparr>private_data := (private_data s)(f \<mapsto> free_old c)\<rparr>" "r < 0"
  | b n where "mem = Some b" "arg = Some n" "page_align n \<noteq> 0" "r = 0"
      "s' = s\<lparr>contents := (contents s)(b := (\<lambda>i. if i < unat (page_align n) then 0 else contents s b i)),
        private_data := (private_data s)(f \<mapsto> \<lparr>ctx_buf = Some b, ctx_size = page_align n\<rparr>)\<rparr>"
  using assms
  by (auto simp: snap_alloc_def Let_def ENOMEM_def EFAULT_def EINVAL_def free_old_def ctx_update split: option.splits if_splits)

lemma ioctl_cases:
  assumes "vmtainer_snap_ioctl cmd mem f s = (r, info, s')"
  obtains "s' = s" | c where "private_data s f = Some c" "s' = s\<lparr>private_data := (private_data s)(f \<mapsto> free_old c)\<rparr>"
  | b c n where "private_data s f = Some c" "mem = Some b" "page_align n \<noteq> 0"
      "s' = s\<lparr>contents := (contents s)(b := (\<lambda>i. if i < unat (page_align n) then 0 else contents s b i)),
        private_data := (private_data s)(f \<mapsto> \<lparr>ctx_buf = Some b, ctx_size = page_align n\<rparr>)\<rparr>"
  using assms
  by (auto simp: vmtainer_snap_ioctl_def elim!: snap_alloc_cases split: option.splits snap_cmd.splits if_splits prod.splits)

lemma mmap_cases:
  assumes "vmtainer_snap_mmap a e off remap f s = (r, s')"
  obtains "s' = s" | c b where "private_data s f = Some c" "ctx_buf c = Some b" "e - a \<le> ctx_size c" "r = 0"
      "s' = s\<lparr>mappings := mappings s @ [\<lparr>map_file = f, map_buf = b, map_len = e - a\<rparr>]\<rparr>"
  using assms by (auto simp: vmtainer_snap_mmap_def Let_def not_less split: option.splits if_splits)

lemma unat_page_align: "unat (page_align x) = (unat x + 4095) mod 2 ^ 64 div 4096 * 4096"
proof -
  have "page_align x = (x + 4095) AND NOT (mask 12)" by (simp add: page_align_def mask_eq_exp_minus_1)
  then show ?thesis using unat_and_not_mask [of 12 "x + 4095"] by (simp add: unat_word_ariths)
qed

lemma page_align_mod: "unat (page_align x) mod 4096 = 0"
  by (simp add: unat_page_align)

lemma page_align_small:
  assumes "unat x \<le> 2 ^ 64 - 4096"
  shows "unat x \<le> unat (page_align x) \<and> unat (page_align x) < unat x + 4096"
proof -
  have "unat (page_align x) = (unat x + 4095) div 4096 * 4096" using assms by (simp add: unat_page_align)
  then show ?thesis using div_mult_mod_eq [of "unat x + 4095" 4096] mod_less_divisor [of 4096 "unat x + 4095"] by linarith
qed

lemma page_align_large:
  assumes "2 ^ 64 - 4096 < unat x"
  shows "page_align x = 0"
proof -
  have "unat x < 2 ^ 64" using unsigned_less [of x, where 'a = nat] by simp
  then have "(unat x + 4095) mod 2 ^ 64 < 4096" using assms by (simp add: mod_if) arith
  then have "unat (page_align x) = 0" by (simp add: unat_page_align)
  then show ?thesis by (simp add: unat_eq_zero)
qed

definition ctx_ok :: "snap_ctx \<Rightarrow> bool" where
  "ctx_ok c \<longleftrightarrow> (ctx_buf c = None \<longleftrightarrow> ctx_size c = 0) \<and> unat (ctx_size c) mod 4096 = 0"

lemma snap_invI:
  assumes "snap_inv s" and "\<And>a g. belongs s' a g \<Longrightarrow> belongs s a g" and "\<And>f c. private_data s' f = Some c \<Longrightarrow> ctx_ok c"
    and "\<And>m. m \<in> set (mappings s') \<Longrightarrow> private_data s' (map_file m) \<noteq> None"
  shows "snap_inv s'"
proof -
  have "f = g" if "belongs s' b f" "belongs s' b g" for b f g
    using assms(1) assms(2) [OF that(1)] assms(2) [OF that(2)] unfolding snap_inv_def by blast
  then show ?thesis using assms(3,4) unfolding snap_inv_def ctx_ok_def by blast
qed

lemma snap_invD: "snap_inv s \<Longrightarrow> private_data s f = Some c \<Longrightarrow> ctx_ok c" "snap_inv s \<Longrightarrow> m \<in> set (mappings s) \<Longrightarrow> private_data s (map_file m) \<noteq> None"
  unfolding snap_inv_def ctx_ok_def by blast+

lemma snap_inv_alloc:
  assumes "snap_inv s" "private_data s f = Some c" "unused s b" "page_align n \<noteq> 0"
    and s': "s' = s\<lparr>contents := x, private_data := (private_data s)(f \<mapsto> \<lparr>ctx_buf = Some b, ctx_size = page_align n\<rparr>)\<rparr>"
  shows "snap_inv s'"
proof -
  have b: "(a = b \<and> g = f) \<or> (a \<noteq> b \<and> belongs s a g)" if "belongs s' a g" for a g
    using that assms(3) by (fastforce simp: s' belongs_def unused_def split: if_splits)
  have "g = h" if "belongs s' a g" "belongs s' a h" for a g h
    using b [OF that(1)] b [OF that(2)] assms(1) unfolding snap_inv_def by blast
  then show ?thesis using assms(4) page_align_mod [of n] snap_invD [OF assms(1)]
    unfolding snap_inv_def by (auto simp: s' ctx_ok_def)
qed

lemma snap_inv_free:
  assumes "snap_inv s" "private_data s f = Some c"
  shows "snap_inv (s\<lparr>private_data := (private_data s)(f \<mapsto> free_old c)\<rparr>)"
proof (rule snap_invI [OF assms(1)])
  show "belongs s a g" if "belongs (s\<lparr>private_data := (private_data s)(f \<mapsto> free_old c)\<rparr>) a g" for a g
    using that assms(2) by (auto simp: belongs_def free_old_def split: option.splits if_splits)
  have "ctx_ok (free_old c)" using snap_invD(1) [OF assms] by (auto simp: ctx_ok_def free_old_def split: option.splits)
  then show "ctx_ok d" if "private_data (s\<lparr>private_data := (private_data s)(f \<mapsto> free_old c)\<rparr>) g = Some d" for g d
    using that snap_invD(1) [OF assms(1)] by (auto split: if_splits)
qed (use snap_invD(2) [OF assms(1)] in simp)

lemma snap_inv_map:
  assumes "snap_inv s" "private_data s f = Some c" "ctx_buf c = Some b"
  shows "snap_inv (s\<lparr>mappings := mappings s @ [\<lparr>map_file = f, map_buf = b, map_len = n\<rparr>]\<rparr>)"
proof (rule snap_invI [OF assms(1)])
  show "belongs s a g" if "belongs (s\<lparr>mappings := mappings s @ [\<lparr>map_file = f, map_buf = b, map_len = n\<rparr>]\<rparr>) a g" for a g
    using that assms(2,3) by (auto simp: belongs_def)
qed (use snap_invD [OF assms(1)] assms(2) in auto)

lemma snap_inv_step:
  assumes "snap_step s s'" and i: "snap_inv s"
  shows "snap_inv s'"
  using assms(1)
proof cases
  case (opened f mem r)
  show ?thesis
    by (rule snap_invI [OF i])
      (use opened snap_invD [OF i] in \<open>auto simp: vmtainer_snap_open_def belongs_def ctx_ok_def split: if_splits\<close>)
next
  case (released f r)
  show ?thesis
    by (rule snap_invI [OF i])
      (use released snap_invD [OF i] in \<open>auto simp: vmtainer_snap_release_def belongs_def split: option.splits if_splits\<close>)
next
  case (ioctl mem cmd f r info)
  from ioctl(2) show ?thesis
    by (cases rule: ioctl_cases) (use i ioctl(1) in \<open>auto intro: snap_inv_alloc snap_inv_free\<close>)
next
  case (mmapped a e off remap f r)
  then show ?thesis by (cases rule: mmap_cases) (use i in \<open>auto intro: snap_inv_map\<close>)
next
  case (stored m i x)
  show ?thesis by (rule snap_invI [OF assms(2)]) (use stored snap_invD [OF assms(2)] in \<open>auto simp: user_store_def belongs_def\<close>)
next
  case (unmapped k)
  show ?thesis
    by (rule snap_invI [OF i]) (use unmapped snap_invD [OF i] in \<open>auto simp: user_unmap_def belongs_def dest: in_set_takeD in_set_dropD\<close>)
qed

lemma snap_reach_inv: "snap_reach mem s \<Longrightarrow> snap_inv s"
  by (induction rule: snap_reach.induct) (auto simp: snap_inv_step, simp add: snap_inv_def snap_start_def belongs_def)



text \<open>
  Claim C30.  A buffer is as large as asked for, zero, and mapped whole.  For a size up to the last page of numbers an allocation
  that gets memory succeeds, whatever the file held before and whatever the memory held; the reported size is the least
  multiple of a page that is large enough, a mapping from offset 0 of at most that size succeeds and shows zeroes, and one that is larger is
  refused.  A size that would wrap to 0 when it is rounded up is refused and changes nothing.
\<close>

theorem snap_alloc_maps:
  assumes "private_data s f = Some c" and "n \<noteq> 0" and "vmtainer_snap_ioctl (SNAP_ALLOC (Some n)) (Some b) f s = (r, info, s')"
  shows "if unat n \<le> 2 ^ 64 - 4096
    then r = 0 \<and> (\<exists>sz. vmtainer_snap_ioctl (SNAP_INFO True) None f s' = (0, Some \<lparr>info_size = sz, info_phys_addr = 0\<rparr>, s') \<and>
        n \<le> sz \<and> unat sz < unat n + 4096 \<and> unat sz mod 4096 = 0 \<and>
        (\<forall>start len. if len \<le> sz
          then \<exists>m s2. vmtainer_snap_mmap start (start + len) 0 0 f s' = (0, s2) \<and> mappings s2 = mappings s' @ [m] \<and> map_len m = len \<and>
            (\<forall>i < unat len. user_load m i s2 = Some 0)
          else vmtainer_snap_mmap start (start + len) 0 0 f s' = (- EINVAL, s')))
    else r = - EINVAL \<and> s' = s"
proof (cases "unat n \<le> 2 ^ 64 - 4096")
  case True
  let ?sz = "page_align n"
  have z: "unat n \<le> unat ?sz" "unat ?sz < unat n + 4096" using page_align_small [OF True] by simp_all
  have n0: "?sz \<noteq> 0" using z(1) assms(2) by (auto simp: unat_eq_zero)
  have s': "r = 0" "private_data s' f = Some \<lparr>ctx_buf = Some b, ctx_size = ?sz\<rparr>" "\<forall>i < unat ?sz. contents s' b i = 0"
    using assms n0 by (auto simp: vmtainer_snap_ioctl_def snap_alloc_def Let_def ctx_update free_old_def split: option.splits)
  have "\<exists>m s2. vmtainer_snap_mmap start (start + len) 0 0 f s' = (0, s2) \<and> mappings s2 = mappings s' @ [m] \<and> map_len m = len \<and>
      (\<forall>i < unat len. user_load m i s2 = Some 0)" if "len \<le> ?sz" for start len
    using that s' by (auto simp: vmtainer_snap_mmap_def not_less user_load_def word_le_nat_alt)
  moreover have "vmtainer_snap_mmap start (start + len) 0 0 f s' = (- EINVAL, s')" if "\<not> len \<le> ?sz" for start len
    using that s' by (simp add: vmtainer_snap_mmap_def not_le)
  moreover have "vmtainer_snap_ioctl (SNAP_INFO True) None f s' = (0, Some \<lparr>info_size = ?sz, info_phys_addr = 0\<rparr>, s')"
    using s' by (simp add: vmtainer_snap_ioctl_def)
  ultimately show ?thesis using True s'(1) z page_align_mod [of n] by (auto simp: word_le_nat_alt intro!: exI [of _ ?sz])
next
  case False
  then have "page_align n = 0" by (intro page_align_large) simp
  then show ?thesis using False assms by (simp add: vmtainer_snap_ioctl_def snap_alloc_def)
qed


text \<open>A file with a buffer of one page that is mapped.\<close>

definition demo_open :: snap_state where
  "demo_open = snd (vmtainer_snap_open True 0 (snap_start (\<lambda>_ _. 5)))"

definition demo_alloc :: snap_state where
  "demo_alloc = snd (snd (vmtainer_snap_ioctl (SNAP_ALLOC (Some 100)) (Some 7) 0 demo_open))"

definition demo_vma :: vma where
  "demo_vma = \<lparr>map_file = 0, map_buf = 7, map_len = 4096\<rparr>"

lemma page_align_100: "page_align 100 = 4096"
  by (simp add: page_align_def)

lemma demo_open_eq: "demo_open = \<lparr>private_data = [0 \<mapsto> \<lparr>ctx_buf = None, ctx_size = 0\<rparr>], contents = (\<lambda>_ _. 5), mappings = []\<rparr>"
  by (simp add: demo_open_def vmtainer_snap_open_def snap_start_def)

lemma demo_alloc_eq:
  "vmtainer_snap_ioctl (SNAP_ALLOC (Some 100)) (Some 7) 0 demo_open = (0, None, demo_alloc)"
  "demo_alloc = \<lparr>private_data = [0 \<mapsto> \<lparr>ctx_buf = Some 7, ctx_size = 4096\<rparr>],
     contents = (\<lambda>_ _. 5)(7 := (\<lambda>i. if i < 4096 then 0 else 5)), mappings = []\<rparr>"
  by (simp_all add: demo_alloc_def demo_open_eq vmtainer_snap_ioctl_def snap_alloc_def page_align_100 free_old_def cong: if_cong)

lemma demo_mapped: "vmtainer_snap_mmap 0x10000 0x11000 0 0 0 demo_alloc = (0, demo_alloc\<lparr>mappings := [demo_vma]\<rparr>)"
  by (simp add: vmtainer_snap_mmap_def demo_alloc_eq(2) demo_vma_def)

lemma demo_reach: "snap_reach (\<lambda>_ _. 5) (demo_alloc\<lparr>mappings := [demo_vma]\<rparr>)"
proof (rule snap_reach.step [OF snap_reach.step [OF snap_reach.step [OF snap_reach.start]]])
  show "snap_step (snap_start (\<lambda>_ _. 5)) demo_open"
    by (rule snap_step.opened [of _ 0 True 0]) (simp_all add: snap_start_def vmtainer_snap_open_def demo_open_def)
  show "snap_step demo_open demo_alloc"
    by (rule snap_step.ioctl [OF _ demo_alloc_eq(1)]) (simp add: unused_def demo_open_eq)
  show "snap_step demo_alloc (demo_alloc\<lparr>mappings := [demo_vma]\<rparr>)" by (rule snap_step.mmapped [OF demo_mapped])
qed


theorem snap_alloc_maps_witness:
  "\<exists>m s2. vmtainer_snap_mmap 0x10000 (0x10000 + 4096) 0 0 0 demo_alloc = (0, s2) \<and> mappings s2 = mappings demo_alloc @ [m] \<and>
     user_load m 99 s2 = Some 0"
proof -
  have p: "private_data demo_open 0 = Some \<lparr>ctx_buf = None, ctx_size = 0\<rparr>" by (simp add: demo_open_eq)
  have "vmtainer_snap_ioctl (SNAP_INFO True) None 0 demo_alloc = (0, Some \<lparr>info_size = 4096, info_phys_addr = 0\<rparr>, demo_alloc)"
    by (simp add: vmtainer_snap_ioctl_def demo_alloc_eq(2))
  then have "\<forall>start len. len \<le> 4096 \<longrightarrow> (\<exists>m s2. vmtainer_snap_mmap start (start + len) 0 0 0 demo_alloc = (0, s2) \<and>
      mappings s2 = mappings demo_alloc @ [m] \<and> (\<forall>i < unat len. user_load m i s2 = Some 0))"
    using snap_alloc_maps [OF p _ demo_alloc_eq(1)] by (auto split: if_splits) blast
  from this [rule_format, of 4096 "0x10000"] show ?thesis by auto
qed

end
