(* ===== verification/Example_Host.thy ===== *)
theory Example_Host
  imports Copies
begin

text \<open>
  The example monitor of \<^verbatim>\<open>docs/example-vmm\<close>, a second and separate program: its data (\<^verbatim>\<open>vmm.h\<close>) and its environment.  As for the main
  monitor, calls to the host are logged, oldest first, and what the host answers is a parameter, any function of the log and
  the call.  A negative answer is the negated \<open>errno\<close>.  The messages of \<open>LOG\<close> and \<open>DBG\<close> are left out, as is the mutex of the block device,
  which makes each access to its registers one step.
\<close>

section \<open>Processor state\<close>

text \<open>\<^verbatim>\<open>struct kvm_segment\<close>, \<open>kvm_dtable\<close>, \<open>kvm_sregs\<close>, \<open>kvm_regs\<close>, \<open>kvm_cpuid_entry2\<close> and \<open>kvm_debugregs\<close> of the KVM interface.\<close>

record x_segment =
  sg_selector :: u16
  sg_base :: u64
  sg_limit :: u32
  sg_type :: u8
  sg_s :: u8
  sg_dpl :: u8
  sg_present :: u8
  sg_avl :: u8
  sg_l :: u8
  sg_db :: u8
  sg_g :: u8
  sg_unusable :: u8

record x_dtable =
  dt_base :: u64
  dt_limit :: u16

record x_sregs =
  sr_cs :: x_segment
  sr_ds :: x_segment
  sr_es :: x_segment
  sr_fs :: x_segment
  sr_gs :: x_segment
  sr_ss :: x_segment
  sr_tr :: x_segment
  sr_ldt :: x_segment
  sr_gdt :: x_dtable
  sr_idt :: x_dtable
  sr_cr0 :: u64
  sr_cr3 :: u64
  sr_cr4 :: u64
  sr_efer :: u64
  sr_rest :: "u64 list"

record x_regs =
  rg_rsi :: u64
  rg_rsp :: u64
  rg_rip :: u64
  rg_rflags :: u64
  rg_rest :: "u64 list"

record x_cpuid_entry =
  ce_function :: u32
  ce_index :: u32
  ce_flags :: u32
  ce_eax :: u32
  ce_ebx :: u32
  ce_ecx :: u32
  ce_edx :: u32

record x_debugregs =
  dr_db :: "u64 list"
  dr_dr6 :: u64
  dr_dr7 :: u64
  dr_flags :: u64

section \<open>Calls to the host\<close>

datatype open_mode = O_rdwr | O_rdonly

datatype ex_call =
    X_calloc string
  | X_malloc nat
  | X_open string open_mode
  | X_close int
  | X_fstat int
  | X_read int nat
  | X_lseek_end int
  | X_pread int nat int
  | X_pwrite int "u8 list" int
  | X_kvm_api int
  | X_kvm_user_memory int
  | X_create_vm int
  | X_create_irqchip int
  | X_create_pit int
  | X_mmap_ram u64
  | X_munmap int u64
  | X_set_region int u64
  | X_create_vcpu int int
  | X_vcpu_mmap_size int
  | X_mmap_run int u64
  | X_get_sregs int
  | X_set_sregs int x_sregs
  | X_get_regs int
  | X_set_regs int x_regs
  | X_set_mp_state int u32
  | X_supported_cpuid int nat
  | X_set_cpuid int "x_cpuid_entry list"
  | X_get_debugregs int
  | X_set_debugregs int x_debugregs
  | X_irq_line int u32 u32
  | X_putchar u8
  | X_errputc u8
  | X_run int
  | X_thread_create nat
  | X_thread_join nat
  | X_exit int

type_synonym ex_log = "ex_call list"

record ex_os =
  eo_ret :: "ex_log \<Rightarrow> ex_call \<Rightarrow> int"
  eo_data :: "ex_log \<Rightarrow> ex_call \<Rightarrow> u8 list"
  eo_sregs :: "ex_log \<Rightarrow> x_sregs"
  eo_regs :: "ex_log \<Rightarrow> x_regs"
  eo_cpuid :: "ex_log \<Rightarrow> x_cpuid_entry list"

definition EINTR :: int where "EINTR = 4"

section \<open>The machine\<close>

text \<open>
  \<^verbatim>\<open>struct vmm\<close>, with its groups of members as records of their own.  A pointer is the address that \<open>mmap\<close> answered, 0 for
  \<open>NULL\<close> and -1 for \<open>MAP_FAILED\<close>; \<open>x_ram\<close> is the memory behind \<open>mem\<close>.
\<close>

record x_uart =
  c_lcr :: u8
  c_dll :: u8
  c_dlh :: u8
  c_ier :: u8
  c_fcr :: u8
  c_mcr :: u8
  c_msr :: u8
  c_scr :: u8
  c_lsr :: u8

record x_disk =
  disk_fd :: int
  disk_size :: u64
  disk_num_sectors :: u32

record x_ide =
  i_status :: u8
  i_error :: u8
  i_nsect :: u8
  i_lba_low :: u8
  i_lba_mid :: u8
  i_lba_high :: u8
  i_drive_head :: u8
  i_control :: u8
  i_lba :: u32
  i_data :: "u16 list"
  i_data_pos :: nat
  i_data_len :: nat

record x_vio =
  vio_status :: u32
  vio_isr :: u32
  vio_queue_sel :: u32
  vio_guest_page_size :: u32
  vio_queue_num :: u32
  vio_queue_align :: u32
  vio_queue_pfn :: u32
  vio_used_idx :: u16
  vio_config :: "u8 list"

record x_vcpu =
  vc_id :: nat
  vc_fd :: int
  vc_run :: int
  vc_mmap_size :: u64
  vc_is_bsp :: bool

record x_vmm =
  x_kvm_fd :: int
  x_vm_fd :: int
  x_mem_size :: u64
  x_mem :: int
  x_ram :: guest_ram
  x_nr_vcpus :: nat
  x_vcpus :: "x_vcpu option list"
  x_com1 :: x_uart
  x_disk :: x_disk
  x_ide :: x_ide
  x_vio :: x_vio

text \<open>\<^verbatim>\<open>calloc\<close>: everything is zero, also the descriptor of the disk image.\<close>

definition zero_uart :: x_uart where
  "zero_uart = \<lparr>c_lcr = 0, c_dll = 0, c_dlh = 0, c_ier = 0, c_fcr = 0, c_mcr = 0, c_msr = 0, c_scr = 0, c_lsr = 0\<rparr>"

definition zero_ide :: x_ide where
  "zero_ide = \<lparr>i_status = 0, i_error = 0, i_nsect = 0, i_lba_low = 0, i_lba_mid = 0, i_lba_high = 0, i_drive_head = 0,
     i_control = 0, i_lba = 0, i_data = replicate 256 0, i_data_pos = 0, i_data_len = 0\<rparr>"

definition zero_vio :: x_vio where
  "zero_vio = \<lparr>vio_status = 0, vio_isr = 0, vio_queue_sel = 0, vio_guest_page_size = 0, vio_queue_num = 0, vio_queue_align = 0,
     vio_queue_pfn = 0, vio_used_idx = 0, vio_config = replicate 128 0\<rparr>"

definition zero_vmm :: x_vmm where
  "zero_vmm = \<lparr>x_kvm_fd = 0, x_vm_fd = 0, x_mem_size = 0, x_mem = 0, x_ram = fresh_ram 0, x_nr_vcpus = 0, x_vcpus = [],
     x_com1 = zero_uart, x_disk = \<lparr>disk_fd = 0, disk_size = 0, disk_num_sectors = 0\<rparr>, x_ide = zero_ide, x_vio = zero_vio\<rparr>"

section \<open>Reading files\<close>

text \<open>
  \<open>read_file\<close> of \<^verbatim>\<open>kernel.c\<close>: the loop reads until the buffer is full or the file ends, and again when a signal interrupts it.  A host that reads
  more than it was asked for writes past the buffer (\<open>None\<close>).
\<close>

partial_function (option) read_loop :: "ex_os \<Rightarrow> int \<Rightarrow> nat \<Rightarrow> u8 list \<Rightarrow> ex_log \<Rightarrow> (u8 list option \<times> ex_log) option" where
  "read_loop w fd sz buf tr =
     (if length buf < sz
      then (let c = X_read fd (sz - length buf); n = eo_ret w tr c; tr1 = tr @ [c]
            in if n < 0 then (if n = - EINTR then read_loop w fd sz buf tr1 else Some (None, tr1))
               else if n = 0 then Some (Some buf, tr1)
               else if int (sz - length buf) < n then None
               else read_loop w fd sz (buf @ fixed (nat n) (eo_data w tr c)) tr1)
      else Some (Some buf, tr))"

definition ex_read_file :: "ex_os \<Rightarrow> string \<Rightarrow> ex_log \<Rightarrow> (u8 list option \<times> ex_log) option" where
  "ex_read_file w path tr =
     (let fd = eo_ret w tr (X_open path O_rdonly); tr1 = tr @ [X_open path O_rdonly]
      in if fd < 0 then Some (None, tr1)
         else (let sz = eo_ret w tr1 (X_fstat fd); tr2 = tr1 @ [X_fstat fd]
               in if sz < 0 then Some (None, tr2 @ [X_close fd])
                  else (let tr3 = tr2 @ [X_malloc (nat sz)]
                        in if eo_ret w tr2 (X_malloc (nat sz)) = 0 then Some (None, tr3 @ [X_close fd])
                           else map_option (\<lambda>(b, tr4). (b, tr4 @ [X_close fd])) (read_loop w fd (nat sz) [] tr3))))"

section \<open>A host with files\<close>

text \<open>A host for concrete runs: it has given files, whose descriptor is the position of the \<open>open\<close> in the log, and says yes to everything else.\<close>

definition x_opened :: "ex_log \<Rightarrow> int \<Rightarrow> string" where
  "x_opened tr fd = (case tr ! nat fd of X_open p _ \<Rightarrow> p | _ \<Rightarrow> [])"

definition zero_seg :: x_segment where
  "zero_seg = \<lparr>sg_selector = 0, sg_base = 0, sg_limit = 0, sg_type = 0, sg_s = 0, sg_dpl = 0, sg_present = 0, sg_avl = 0, sg_l = 0,
     sg_db = 0, sg_g = 0, sg_unusable = 0\<rparr>"

definition zero_sregs :: x_sregs where
  "zero_sregs = \<lparr>sr_cs = zero_seg, sr_ds = zero_seg, sr_es = zero_seg, sr_fs = zero_seg, sr_gs = zero_seg, sr_ss = zero_seg,
     sr_tr = zero_seg, sr_ldt = zero_seg, sr_gdt = \<lparr>dt_base = 0, dt_limit = 0\<rparr>, sr_idt = \<lparr>dt_base = 0, dt_limit = 0\<rparr>,
     sr_cr0 = 0, sr_cr3 = 0, sr_cr4 = 0, sr_efer = 0, sr_rest = []\<rparr>"

definition x_file_os :: "(string \<Rightarrow> u8 list) \<Rightarrow> ex_os" where
  "x_file_os files =
     \<lparr>eo_ret = (\<lambda>tr c. case c of
                  X_open _ _ \<Rightarrow> int (length tr)
                | X_fstat fd \<Rightarrow> int (length (files (x_opened tr fd)))
                | X_read _ n \<Rightarrow> int n
                | X_kvm_api _ \<Rightarrow> 12
                | _ \<Rightarrow> 1),
      eo_data = (\<lambda>tr c. case c of X_read fd n \<Rightarrow> take n (files (x_opened tr fd)) | _ \<Rightarrow> []),
      eo_sregs = (\<lambda>_. zero_sregs),
      eo_regs = (\<lambda>_. \<lparr>rg_rsi = 0, rg_rsp = 0, rg_rip = 0, rg_rflags = 0, rg_rest = []\<rparr>),
      eo_cpuid = (\<lambda>_. [\<lparr>ce_function = 1, ce_index = 0, ce_flags = 0, ce_eax = 0, ce_ebx = 0, ce_ecx = 0, ce_edx = 0\<rparr>])\<rparr>"

lemma x_opened_append: "nat fd < length tr \<Longrightarrow> x_opened (tr @ tr') fd = x_opened tr fd"
  by (simp add: x_opened_def nth_append)

lemma x_file_os_reads: "\<exists>tr'. ex_read_file (x_file_os files) p tr = Some (Some (files p), tr')"
proof -
  let ?w = "x_file_os files" and ?fd = "int (length tr)" and ?tr1 = "tr @ [X_open p O_rdonly]"
  have o1: "x_opened (?tr1 @ cs) ?fd = p" for cs by (simp add: x_opened_def nth_append)
  have l: "\<exists>tr'. read_loop ?w ?fd (length (files p)) [] (?tr1 @ cs) = Some (Some (files p), tr')" for cs
  proof (cases "files p = []")
    case True
    then show ?thesis by (simp add: read_loop.simps)
  next
    case False
    then have "read_loop ?w ?fd (length (files p)) [] (?tr1 @ cs) =
        read_loop ?w ?fd (length (files p)) (files p) ((?tr1 @ cs) @ [X_read ?fd (length (files p))])"
      using o1 [of cs] by (subst read_loop.simps) (simp add: x_file_os_def Let_def)
    then show ?thesis by (subst (asm) (2) read_loop.simps) simp
  qed
  have "eo_ret ?w tr (X_open p O_rdonly) = ?fd" "eo_ret ?w ?tr1 (X_fstat ?fd) = int (length (files p))"
    "eo_ret ?w t (X_malloc n) = 1" for t n using o1 [of "[]"] by (simp_all add: x_file_os_def)
  with l [of "[X_fstat ?fd, X_malloc (length (files p))]"] show ?thesis by (auto simp: ex_read_file_def Let_def)
qed

end
