(* ===== verification/Example_Acpi.thy ===== *)
theory Example_Acpi
  imports Example_Host
begin

text \<open>
  The ACPI tables of the example monitor (\<^verbatim>\<open>docs/example-vmm/acpi.c\<close>) and a reader of such tables, as an operating system follows them from the
  root pointer to the local APICs.
\<close>

section \<open>Tables\<close>

definition ACPI_BASE :: nat where "ACPI_BASE = 0xE0000"

record acpi_table_head =
  th_signature :: string
  th_length :: u32
  th_revision :: u8
  th_checksum :: u8
  th_oem_id :: "u8 list"
  th_oem_table_id :: "u8 list"
  th_oem_revision :: u32
  th_creator_id :: u32
  th_creator_revision :: u32

definition head_bytes :: "acpi_table_head \<Rightarrow> u8 list" where
  "head_bytes h = fixed 4 (bytes (th_signature h)) @ le_bytes 4 (th_length h) @ [th_revision h, th_checksum h] @
     fixed 6 (th_oem_id h) @ fixed 8 (th_oem_table_id h) @ le_bytes 4 (th_oem_revision h) @
     le_bytes 4 (th_creator_id h) @ le_bytes 4 (th_creator_revision h)"

definition HEAD_SIZE :: nat where "HEAD_SIZE = 36"

record rsdp =
  rp_signature :: string
  rp_checksum :: u8
  rp_oem_id :: string
  rp_revision :: u8
  rp_rsdt_addr :: u32
  rp_length :: u32
  rp_xsdt_addr :: u64
  rp_ext_checksum :: u8

definition rsdp_bytes :: "rsdp \<Rightarrow> u8 list" where
  "rsdp_bytes p = fixed 8 (bytes (rp_signature p)) @ [rp_checksum p] @ fixed 6 (bytes (rp_oem_id p)) @ [rp_revision p] @
     le_bytes 4 (rp_rsdt_addr p) @ le_bytes 4 (rp_length p) @ le_bytes 8 (rp_xsdt_addr p) @ [rp_ext_checksum p, 0, 0, 0]"

record madt_lapic =
  la_type :: u8
  la_length :: u8
  la_processor_id :: u8
  la_local_apic_id :: u8
  la_flags :: u32

definition lapic_bytes :: "madt_lapic \<Rightarrow> u8 list" where
  "lapic_bytes e = [la_type e, la_length e, la_processor_id e, la_local_apic_id e] @ le_bytes 4 (la_flags e)"

text \<open>\<open>struct madt\<close> is the head with the address of the local APICs and the flags, \<open>struct fadt\<close> the head with two addresses.\<close>

definition MADT_SIZE :: nat where "MADT_SIZE = HEAD_SIZE + 8"
definition FADT_SIZE :: nat where "FADT_SIZE = HEAD_SIZE + 8"

section \<open>Operations\<close>

definition set_checksum :: "guest_ram \<Rightarrow> nat \<Rightarrow> nat \<Rightarrow> nat \<Rightarrow> guest_ram option" where
  "set_checksum r a len checksum_offset = do {
     r1 \<leftarrow> ram_put r (a + checksum_offset) [0];
     bs \<leftarrow> ram_get r1 a len;
     ram_put r1 (a + checksum_offset) [- sum_list bs]
   }"

definition fill_table_head :: "string \<Rightarrow> u8 \<Rightarrow> u32 \<Rightarrow> acpi_table_head" where
  "fill_table_head sig rv len =
     \<lparr>th_signature = sig, th_length = len, th_revision = rv, th_checksum = 0, th_oem_id = bytes ''EXVMM'',
      th_oem_table_id = bytes ''EXVMM  '', th_oem_revision = 1, th_creator_id = 0x564D4D45, th_creator_revision = 1\<rparr>"

text \<open>The allocator: the only member of \<open>acpi_ctx\<close> it uses is the offset of the first free byte.\<close>

definition acpi_alloc :: "nat \<Rightarrow> nat \<Rightarrow> nat \<Rightarrow> nat \<times> nat" where
  "acpi_alloc off sz align =
     (let p = (if align \<noteq> 0 \<and> off mod align \<noteq> 0 then off + (align - off mod align) else off) in (p, p + sz))"

definition lapic_entry :: "nat \<Rightarrow> madt_lapic" where
  "lapic_entry i = \<lparr>la_type = 0, la_length = 8, la_processor_id = of_nat i, la_local_apic_id = of_nat i, la_flags = 1\<rparr>"

record acpi_offsets =
  rsdp_off :: nat
  rsdt_off :: nat
  xsdt_off :: nat
  madt_off :: nat
  dsdt_off :: nat
  fadt_off :: nat

definition rsdt_size :: nat where "rsdt_size = HEAD_SIZE + 2 * 4"
definition xsdt_size :: nat where "xsdt_size = HEAD_SIZE + 2 * 8"
definition madt_size :: "nat \<Rightarrow> nat" where "madt_size n = MADT_SIZE + n * 8"

text \<open>The allocations of \<open>acpi_install\<close>, in order, for \<open>n\<close> processors.\<close>

definition acpi_layout :: "nat \<Rightarrow> acpi_offsets" where
  "acpi_layout n =
     (let (p1, o1) = acpi_alloc 0 36 16;
          (p2, o2) = acpi_alloc o1 rsdt_size 16;
          (p3, o3) = acpi_alloc o2 xsdt_size 16;
          (p4, o4) = acpi_alloc o3 (madt_size n) 16;
          (p5, o5) = acpi_alloc o4 HEAD_SIZE 16;
          (p6, o6) = acpi_alloc o5 FADT_SIZE 16
      in \<lparr>rsdp_off = p1, rsdt_off = p2, xsdt_off = p3, madt_off = p4, dsdt_off = p5, fadt_off = p6\<rparr>)"

text \<open>The stores of \<open>acpi_install\<close>, in order; the entries of the processors are stored one after another.\<close>

definition lapic_writes :: "nat \<Rightarrow> nat \<Rightarrow> (nat \<times> u8 list) list" where
  "lapic_writes a n = map (\<lambda>i. (a + i * 8, lapic_bytes (lapic_entry i))) [0..<n]"

definition acpi_writes :: "nat \<Rightarrow> acpi_offsets \<Rightarrow> (nat \<times> u8 list) list" where
  "acpi_writes n l =
     (let rsdp = ACPI_BASE + rsdp_off l; rsdt = ACPI_BASE + rsdt_off l; xsdt = ACPI_BASE + xsdt_off l;
          madt = ACPI_BASE + madt_off l; dsdt = ACPI_BASE + dsdt_off l; fadt = ACPI_BASE + fadt_off l
      in [(rsdp, rsdp_bytes \<lparr>rp_signature = ''RSD PTR '', rp_checksum = 0, rp_oem_id = ''EXVMM '', rp_revision = 2,
             rp_rsdt_addr = 0, rp_length = 0, rp_xsdt_addr = 0, rp_ext_checksum = 0\<rparr>),
          (rsdt, head_bytes (fill_table_head ''RSDT'' 1 (of_nat rsdt_size))),
          (xsdt, head_bytes (fill_table_head ''XSDT'' 1 (of_nat xsdt_size))),
          (madt, head_bytes (fill_table_head ''APIC'' 1 (of_nat (madt_size n)))),
          (madt + HEAD_SIZE, le_bytes 4 (0xFEE00000 :: u32)),
          (madt + HEAD_SIZE + 4, le_bytes 4 (0 :: u32))] @
         lapic_writes (madt + MADT_SIZE) n @
         [(dsdt, head_bytes (fill_table_head ''DSDT'' 2 (of_nat HEAD_SIZE))),
          filled fadt FADT_SIZE,
          (fadt, head_bytes (fill_table_head ''FACP'' 2 (of_nat FADT_SIZE))),
          (fadt + HEAD_SIZE, le_bytes 4 (0 :: u32)),
          (fadt + HEAD_SIZE + 4, le_bytes 4 (of_nat dsdt :: u32)),
          (rsdt + HEAD_SIZE, le_bytes 4 (of_nat madt :: u32)),
          (rsdt + HEAD_SIZE + 4, le_bytes 4 (of_nat fadt :: u32)),
          (xsdt + HEAD_SIZE, le_bytes 8 (of_nat madt :: u64)),
          (xsdt + HEAD_SIZE + 8, le_bytes 8 (of_nat fadt :: u64)),
          (rsdp + 16, le_bytes 4 (of_nat rsdt :: u32)),
          (rsdp + 24, le_bytes 8 (of_nat xsdt :: u64)),
          (rsdp + 20, le_bytes 4 (36 :: u32))])"

fun set_checksums :: "guest_ram \<Rightarrow> (nat \<times> nat \<times> nat) list \<Rightarrow> guest_ram option" where
  "set_checksums r [] = Some r"
| "set_checksums r ((a, len, k) # cs) = (case set_checksum r a len k of None \<Rightarrow> None | Some r1 \<Rightarrow> set_checksums r1 cs)"

definition acpi_sums :: "nat \<Rightarrow> acpi_offsets \<Rightarrow> (nat \<times> nat \<times> nat) list" where
  "acpi_sums n l =
     [(ACPI_BASE + rsdp_off l, 20, 8), (ACPI_BASE + rsdp_off l, 36, 32), (ACPI_BASE + rsdt_off l, rsdt_size, 9),
      (ACPI_BASE + xsdt_off l, xsdt_size, 9), (ACPI_BASE + madt_off l, madt_size n, 9),
      (ACPI_BASE + fadt_off l, FADT_SIZE, 9), (ACPI_BASE + dsdt_off l, HEAD_SIZE, 9)]"

definition acpi_install :: "x_vmm \<Rightarrow> (int \<times> x_vmm) option" where
  "acpi_install v =
     (if unat (x_mem_size v) < ACPI_BASE + 0x10000 then Some (-1, v)
      else (let n = x_nr_vcpus v; l = acpi_layout n
            in do {
              r1 \<leftarrow> pokes (x_ram v) (acpi_writes n l);
              r2 \<leftarrow> set_checksums r1 (acpi_sums n l);
              Some (0, v\<lparr>x_ram := r2\<rparr>)
            }))"

section \<open>A reader of the tables\<close>

text \<open>A table is accepted if it has the signature that was asked for and its bytes add up to zero.\<close>

definition acpi_table :: "guest_ram \<Rightarrow> string \<Rightarrow> nat \<Rightarrow> u8 list option" where
  "acpi_table r sig a = do {
     len \<leftarrow> ram_u32 r (a + 4);
     bs \<leftarrow> ram_get r a (unat len);
     if take 4 bs = bytes sig \<and> sum_list bs = 0 then Some bs else None
   }"

text \<open>The local APICs that are enabled, from the interrupt controller structures of a MADT.\<close>

function lapics :: "u8 list \<Rightarrow> u8 list option" where
  "lapics ics =
     (if ics = [] then Some []
      else if length ics < 2 \<or> unat (ics ! 1) < 2 \<or> length ics < unat (ics ! 1) then None
      else (case lapics (drop (unat (ics ! 1)) ics) of
              None \<Rightarrow> None
            | Some ids \<Rightarrow>
                Some (if ics ! 0 = 0 \<and> 8 \<le> length ics \<and> (le_val (take 4 (drop 4 ics)) :: u32) AND 1 = 1 then ics ! 3 # ids else ids)))"
  by pat_completeness auto
termination
  by (relation "measure length") auto

declare lapics.simps [simp del]

text \<open>The addresses in the body of an RSDT (4 bytes each) or XSDT (8 bytes each).\<close>

definition table_addrs :: "nat \<Rightarrow> u8 list \<Rightarrow> nat list" where
  "table_addrs k bs = map (\<lambda>i. unat (le_val (take k (drop (HEAD_SIZE + k * i) bs)) :: u64)) [0..<(length bs - HEAD_SIZE) div k]"

definition find_table :: "guest_ram \<Rightarrow> string \<Rightarrow> nat list \<Rightarrow> u8 list option" where
  "find_table r sig as = (case List.map_filter (acpi_table r sig) as of [] \<Rightarrow> None | t # _ \<Rightarrow> Some t)"

definition acpi_root :: "guest_ram \<Rightarrow> (nat \<times> nat) option" where
  "acpi_root r = do {
     p \<leftarrow> ram_get r ACPI_BASE 36;
     if take 8 p = bytes ''RSD PTR '' \<and> sum_list (take 20 p) = 0 \<and> sum_list p = 0
     then Some (unat (le_val (take 4 (drop 16 p)) :: u32), unat (le_val (take 8 (drop 24 p)) :: u64)) else None
   }"

definition acpi_find :: "guest_ram \<Rightarrow> bool \<Rightarrow> string \<Rightarrow> u8 list option" where
  "acpi_find r wide sig = do {
     (rsdt, xsdt) \<leftarrow> acpi_root r;
     t \<leftarrow> (if wide then acpi_table r ''XSDT'' xsdt else acpi_table r ''RSDT'' rsdt);
     find_table r sig (table_addrs (if wide then 8 else 4) t)
   }"

definition acpi_cpus :: "guest_ram \<Rightarrow> bool \<Rightarrow> u8 list option" where
  "acpi_cpus r wide = do { t \<leftarrow> acpi_find r wide ''APIC''; lapics (drop MADT_SIZE t) }"

definition acpi_dsdt :: "guest_ram \<Rightarrow> bool \<Rightarrow> u8 list option" where
  "acpi_dsdt r wide = do {
     t \<leftarrow> acpi_find r wide ''FACP'';
     acpi_table r ''DSDT'' (unat (le_val (take 4 (drop 40 t)) :: u32))
   }"

section \<open>Checksums\<close>

lemma sum_list_update_u8:
  "k < length bs \<Longrightarrow> sum_list (bs[k := (x :: u8)]) = sum_list bs - bs ! k + x"
  by (induction bs arbitrary: k) (auto simp: algebra_simps split: nat.splits)

definition checksummed :: "u8 list \<Rightarrow> nat \<Rightarrow> u8 list" where
  "checksummed bs k = bs[k := - sum_list (bs[k := 0])]"

lemma checksummed_zero: "k < length bs \<Longrightarrow> sum_list (checksummed bs k) = 0"
  by (simp add: checksummed_def sum_list_update_u8)

lemma length_checksummed [simp]: "length (checksummed bs k) = length bs"
  by (simp add: checksummed_def)

lemma put_byte:
  assumes "ram_get r a n = Some bs" and "k < n" and "ram_put r (a + k) [x] = Some r'"
  shows "ram_get r' a n = Some (bs[k := x])"
proof -
  have "ram_peek r' a n = (ram_peek r a n)[k := x]"
    using assms(2,3) by (intro nth_equalityI) (auto simp: ram_peek_def ram_put_Some mem_poke_def nth_list_update)
  then show ?thesis using assms by (auto simp: ram_get_Some ram_ok_def ram_put_Some)
qed

lemma set_checksum_ok:
  assumes "ram_get r a len = Some bs" and "k < len"
  shows "\<exists>r'. set_checksum r a len k = Some r' \<and> ram_get r' a len = Some (checksummed bs k) \<and> touches r r' {a + k}"
proof -
  from assms have "a + k + length [0 :: u8] \<le> ram_bytes r" by (auto simp: ram_get_Some ram_ok_def)
  from guest.put_defined [OF this] obtain r1 where r1: "ram_put r (a + k) [0] = Some r1" by blast
  note g1 = put_byte [OF assms r1]
  from assms have "a + k + length [x :: u8] \<le> ram_bytes r1" for x using guest.put_size [OF r1] by (auto simp: ram_get_Some ram_ok_def)
  from guest.put_defined [OF this] obtain r2 where r2: "ram_put r1 (a + k) [- sum_list (bs[k := 0])] = Some r2" by blast
  have "ram_get r2 a len = Some (checksummed bs k)" using put_byte [OF g1 assms(2) r2] by (simp add: checksummed_def)
  moreover have "touches r r2 {a + k}" using touches_trans [of r r1 "{a + k}" r2] touches_put [OF r1] touches_put [OF r2] by simp
  ultimately show ?thesis using r1 r2 g1 by (simp add: set_checksum_def)
qed

text \<open>A list of sums leaves a table alone, or gives it its sum, if no other sum falls into the table.\<close>

lemma set_checksums_append:
  "set_checksums r (xs @ ys) = (case set_checksums r xs of None \<Rightarrow> None | Some r1 \<Rightarrow> set_checksums r1 ys)"
  by (induction xs arbitrary: r) (auto split: option.splits)

lemma set_checksum_touches:
  assumes "set_checksum r a len k = Some r'"
  shows "touches r r' {a + k}"
proof -
  from assms obtain r1 x where r: "ram_put r (a + k) [0] = Some r1" "ram_put r1 (a + k) [x] = Some r'"
    by (auto simp: set_checksum_def bind_eq_Some_conv)
  from touches_put [OF r(1)] touches_put [OF r(2)] show ?thesis by (auto intro: touches_trans)
qed

lemma set_checksums_touches: "set_checksums r cs = Some r' \<Longrightarrow> touches r r' ((\<lambda>(a, len, k). a + k) ` set cs)"
proof (induction cs arbitrary: r)
  case (Cons c cs)
  obtain a len k where c: "c = (a, len, k)" by (metis prod_cases3)
  with Cons.prems obtain r1 where r1: "set_checksum r a len k = Some r1" "set_checksums r1 cs = Some r'" by (auto split: option.splits)
  show ?case
  proof (rule touches_trans)
    show "touches r r1 ((\<lambda>(a, len, k). a + k) ` set (c # cs))"
      by (rule touches_mono [OF set_checksum_touches [OF r1(1)]]) (simp add: c)
    show "touches r1 r' ((\<lambda>(a, len, k). a + k) ` set (c # cs))"
      by (rule touches_mono [OF Cons.IH [OF r1(2)]]) (simp add: subset_insertI)
  qed
qed simp

lemma set_checksums_defined:
  "list_all (\<lambda>(a, len, k). a + len \<le> ram_bytes r \<and> k < len) cs \<Longrightarrow> \<exists>r'. set_checksums r cs = Some r'"
proof (induction cs arbitrary: r)
  case (Cons c cs)
  obtain a len k where c: "c = (a, len, k)" by (metis prod_cases3)
  with Cons.prems ram_get_defined [of a len r] set_checksum_ok [of r a len _ k] obtain r1 where
    r1: "set_checksum r a len k = Some r1" by auto
  have "ram_bytes r1 = ram_bytes r" using set_checksum_touches [OF r1] by (simp add: touches_def)
  with Cons r1 c show ?case by simp
qed simp

lemma set_checksums_kept:
  assumes "set_checksums r cs = Some r'" and "list_all (\<lambda>(b, _, j). b + j < a \<or> a + n \<le> b + j) cs"
  shows "ram_get r' a n = ram_get r a n"
proof (rule touches_get [OF set_checksums_touches [OF assms(1)]])
  show "{a..<a + n} \<inter> (\<lambda>(a, len, k). a + k) ` set cs = {}" using assms(2) by (fastforce simp: list_all_iff)
qed

lemma set_checksums_nth:
  assumes "set_checksums r (xs @ (a, len, k) # ys) = Some r'" and "ram_get r a len = Some bs" and "k < len"
    and "list_all (\<lambda>(b, _, j). b + j < a \<or> a + len \<le> b + j) (xs @ ys)"
  shows "ram_get r' a len = Some (checksummed bs k)"
proof -
  from assms(1) obtain r1 r2 where r: "set_checksums r xs = Some r1" "set_checksum r1 a len k = Some r2" "set_checksums r2 ys = Some r'"
    by (auto simp: set_checksums_append split: option.splits)
  have "ram_get r1 a len = Some bs" using set_checksums_kept [OF r(1)] assms(2,4) by simp
  from set_checksum_ok [OF this assms(3)] r(2) have "ram_get r2 a len = Some (checksummed bs k)" by auto
  then show ?thesis using set_checksums_kept [OF r(3)] assms(4) by simp
qed

section \<open>What is in the tables\<close>

lemma length_head_bytes [simp]: "length (head_bytes h) = 36"
  by (simp add: head_bytes_def)

lemma length_rsdp_bytes [simp]: "length (rsdp_bytes p) = 36"
  by (simp add: rsdp_bytes_def)

lemma length_lapic_bytes [simp]: "length (lapic_bytes e) = 8"
  by (simp add: lapic_bytes_def)

lemmas acpi_sizes = HEAD_SIZE_def MADT_SIZE_def FADT_SIZE_def rsdt_size_def xsdt_size_def madt_size_def ACPI_BASE_def

text \<open>The address of the DSDT for \<open>n\<close> processors; the other tables before it are at fixed places and the FADT is right behind.\<close>

definition dsdt_at :: "nat \<Rightarrow> nat" where "dsdt_at n = (204 + 8 * n + 15) div 16 * 16"

lemma align_16: "(off :: nat) mod 16 = m \<Longrightarrow> (off + 15) div 16 * 16 = (if m = 0 then off else off + (16 - m))"
proof -
  assume m: "off mod 16 = m"
  then have o: "off = 16 * (off div 16) + m" and lt: "m < 16" by auto
  have a: "(16 * q + m + 15) div 16 = q + (m + 15) div 16" for q by simp
  have b: "(m + 15) div 16 = (if m = 0 then 0 else 1)" using lt by (auto simp: div_nat_eqI)
  have "(off + 15) div 16 = off div 16 + (if m = 0 then 0 else 1)" using a [of "off div 16"] b o by simp
  then show ?thesis using o lt by (simp split: if_splits)
qed

lemma acpi_alloc_16: "acpi_alloc off sz 16 = ((off + 15) div 16 * 16, (off + 15) div 16 * 16 + sz)"
  using align_16 [OF refl, of off] by (simp add: acpi_alloc_def)

lemma acpi_layout_eq:
  "acpi_layout n = \<lparr>rsdp_off = 0, rsdt_off = 48, xsdt_off = 96, madt_off = 160, dsdt_off = dsdt_at n, fadt_off = dsdt_at n + 48\<rparr>"
proof -
  have "(k * 16 + 51) div 16 * 16 = k * 16 + (48 :: nat)" for k by simp
  then have "(dsdt_at n + 36 + 15) div 16 * 16 = dsdt_at n + 48" by (simp add: dsdt_at_def)
  then show ?thesis by (simp add: acpi_layout_def acpi_alloc_16 acpi_sizes dsdt_at_def algebra_simps)
qed

lemma dsdt_at_bounds: "204 + 8 * n \<le> dsdt_at n" "dsdt_at n \<le> 219 + 8 * n"
  unfolding dsdt_at_def by simp_all

text \<open>The stores with the entries of the processors as one block.\<close>

definition lapic_block :: "nat \<Rightarrow> u8 list" where
  "lapic_block n = concat (map (\<lambda>i. lapic_bytes (lapic_entry i)) [0..<n])"

lemma length_lapic_block [simp]: "length (lapic_block n) = 8 * n"
  by (induction n) (simp_all add: lapic_block_def)

definition acpi_stores :: "nat \<Rightarrow> (nat \<times> u8 list) list" where
  "acpi_stores n =
     [(0xE0000, rsdp_bytes \<lparr>rp_signature = ''RSD PTR '', rp_checksum = 0, rp_oem_id = ''EXVMM '', rp_revision = 2,
         rp_rsdt_addr = 0, rp_length = 0, rp_xsdt_addr = 0, rp_ext_checksum = 0\<rparr>),
      (0xE0030, head_bytes (fill_table_head ''RSDT'' 1 44)),
      (0xE0060, head_bytes (fill_table_head ''XSDT'' 1 52)),
      (0xE00A0, head_bytes (fill_table_head ''APIC'' 1 (of_nat (44 + n * 8)))),
      (0xE00C4, le_bytes 4 (0xFEE00000 :: u32)),
      (0xE00C8, le_bytes 4 (0 :: u32)),
      (0xE00CC, lapic_block n),
      (0xE0000 + dsdt_at n, head_bytes (fill_table_head ''DSDT'' 2 36)),
      (0xE0030 + dsdt_at n, replicate 44 0),
      (0xE0030 + dsdt_at n, head_bytes (fill_table_head ''FACP'' 2 44)),
      (0xE0054 + dsdt_at n, le_bytes 4 (0 :: u32)),
      (0xE0058 + dsdt_at n, le_bytes 4 (of_nat (0xE0000 + dsdt_at n) :: u32)),
      (0xE0054, le_bytes 4 (0xE00A0 :: u32)),
      (0xE0058, le_bytes 4 (of_nat (0xE0030 + dsdt_at n) :: u32)),
      (0xE0084, le_bytes 8 (0xE00A0 :: u64)),
      (0xE008C, le_bytes 8 (of_nat (0xE0030 + dsdt_at n) :: u64)),
      (0xE0010, le_bytes 4 (0xE0030 :: u32)),
      (0xE0018, le_bytes 8 (0xE0060 :: u64)),
      (0xE0014, le_bytes 4 (36 :: u32))]"

lemma acpi_stores_pokes:
  assumes "n \<le> 8000" and "0xF0000 \<le> ram_bytes r"
  shows "pokes r (acpi_writes n (acpi_layout n)) = pokes r (acpi_stores n)"
proof -
  have w: "acpi_writes n (acpi_layout n) = take 6 (acpi_stores n) @ lapic_writes 0xE00CC n @ drop 7 (acpi_stores n)"
    unfolding acpi_writes_def acpi_stores_def acpi_layout_eq Let_def
    by (simp add: acpi_sizes filled_def)
  have "acpi_stores n = take 6 (acpi_stores n) @ (0xE00CC, lapic_block n) # drop 7 (acpi_stores n)"
    by (simp add: acpi_stores_def)
  moreover have "pokes r (xs @ lapic_writes 0xE00CC n @ ys) = pokes r (xs @ (0xE00CC, lapic_block n) # ys)" for xs ys
    unfolding lapic_writes_def lapic_block_def by (rule pokes_block_mid) (use assms in simp_all)
  ultimately show ?thesis using w by metis
qed

text \<open>The tables as the stores leave them, before the checksums.\<close>

definition rsdp_image :: "u8 list" where
  "rsdp_image = rsdp_bytes \<lparr>rp_signature = ''RSD PTR '', rp_checksum = 0, rp_oem_id = ''EXVMM '', rp_revision = 2,
     rp_rsdt_addr = 0xE0030, rp_length = 36, rp_xsdt_addr = 0xE0060, rp_ext_checksum = 0\<rparr>"

definition rsdt_image :: "nat \<Rightarrow> u8 list" where
  "rsdt_image n = head_bytes (fill_table_head ''RSDT'' 1 44) @ le_bytes 4 (0xE00A0 :: u32) @ le_bytes 4 (of_nat (0xE0030 + dsdt_at n) :: u32)"

definition xsdt_image :: "nat \<Rightarrow> u8 list" where
  "xsdt_image n = head_bytes (fill_table_head ''XSDT'' 1 52) @ le_bytes 8 (0xE00A0 :: u64) @ le_bytes 8 (of_nat (0xE0030 + dsdt_at n) :: u64)"

definition madt_image :: "nat \<Rightarrow> u8 list" where
  "madt_image n = head_bytes (fill_table_head ''APIC'' 1 (of_nat (44 + n * 8))) @ le_bytes 4 (0xFEE00000 :: u32) @
     le_bytes 4 (0 :: u32) @ lapic_block n"

definition fadt_image :: "nat \<Rightarrow> u8 list" where
  "fadt_image n = head_bytes (fill_table_head ''FACP'' 2 44) @ le_bytes 4 (0 :: u32) @ le_bytes 4 (of_nat (0xE0000 + dsdt_at n) :: u32)"

lemma store_nth:
  assumes "pokes r (acpi_stores n) = Some r1"
    and "k < 19" and "acpi_stores n ! k = (a, bs)" and "clear_of (drop (Suc k) (acpi_stores n)) a (length bs)"
  shows "ram_get r1 a (length bs) = Some bs"
  by (rule pokes_nth [OF assms(1) _ assms(3,4)]) (use assms(2) in \<open>simp add: acpi_stores_def\<close>)

lemma stored_rsdt:
  assumes "pokes r (acpi_stores n) = Some r1"
  shows "ram_get r1 0xE0030 44 = Some (rsdt_image n)"
proof -
  note b = dsdt_at_bounds [of n]
  have "ram_get r1 0xE0030 36 = Some (head_bytes (fill_table_head ''RSDT'' 1 44))"
    using store_nth [OF assms, of 1 "0xE0030" "head_bytes (fill_table_head ''RSDT'' 1 44)"] b by (simp add: acpi_stores_def)
  moreover have "ram_get r1 0xE0054 4 = Some (le_bytes 4 (0xE00A0 :: u32))"
    using store_nth [OF assms, of 12 "0xE0054" "le_bytes 4 (0xE00A0 :: u32)"] b by (simp add: acpi_stores_def)
  moreover have "ram_get r1 0xE0058 4 = Some (le_bytes 4 (of_nat (0xE0030 + dsdt_at n) :: u32))"
    using store_nth [OF assms, of 13 "0xE0058" "le_bytes 4 (of_nat (0xE0030 + dsdt_at n) :: u32)"] b by (simp add: acpi_stores_def)
  ultimately show ?thesis using ram_get_append3 [of r1 "0xE0030" 36 _ 4 _ 4] by (simp add: rsdt_image_def)
qed

lemma stored_xsdt:
  assumes "pokes r (acpi_stores n) = Some r1"
  shows "ram_get r1 0xE0060 52 = Some (xsdt_image n)"
proof -
  note b = dsdt_at_bounds [of n]
  have "ram_get r1 0xE0060 36 = Some (head_bytes (fill_table_head ''XSDT'' 1 52))"
    using store_nth [OF assms, of 2 "0xE0060" "head_bytes (fill_table_head ''XSDT'' 1 52)"] b by (simp add: acpi_stores_def)
  moreover have "ram_get r1 0xE0084 8 = Some (le_bytes 8 (0xE00A0 :: u64))"
    using store_nth [OF assms, of 14 "0xE0084" "le_bytes 8 (0xE00A0 :: u64)"] b by (simp add: acpi_stores_def)
  moreover have "ram_get r1 0xE008C 8 = Some (le_bytes 8 (of_nat (0xE0030 + dsdt_at n) :: u64))"
    using store_nth [OF assms, of 15 "0xE008C" "le_bytes 8 (of_nat (0xE0030 + dsdt_at n) :: u64)"] b by (simp add: acpi_stores_def)
  ultimately show ?thesis using ram_get_append3 [of r1 "0xE0060" 36 _ 8 _ 8] by (simp add: xsdt_image_def)
qed

lemma stored_madt:
  assumes "pokes r (acpi_stores n) = Some r1"
  shows "ram_get r1 0xE00A0 (44 + n * 8) = Some (madt_image n)"
proof -
  note b = dsdt_at_bounds [of n]
  have h: "ram_get r1 0xE00A0 36 = Some (head_bytes (fill_table_head ''APIC'' 1 (of_nat (44 + n * 8))))"
    using store_nth [OF assms, of 3 "0xE00A0" "head_bytes (fill_table_head ''APIC'' 1 (of_nat (44 + n * 8)))"] b by (simp add: acpi_stores_def)
  have f: "ram_get r1 0xE00C4 4 = Some (le_bytes 4 (0xFEE00000 :: u32))"
    using store_nth [OF assms, of 4 "0xE00C4" "le_bytes 4 (0xFEE00000 :: u32)"] b by (simp add: acpi_stores_def)
  have z: "ram_get r1 0xE00C8 4 = Some (le_bytes 4 (0 :: u32))"
    using store_nth [OF assms, of 5 "0xE00C8" "le_bytes 4 (0 :: u32)"] b by (simp add: acpi_stores_def)
  have l: "ram_get r1 0xE00CC (8 * n) = Some (lapic_block n)"
    using store_nth [OF assms, of 6 "0xE00CC" "lapic_block n"] b by (simp add: acpi_stores_def)
  have "ram_get r1 0xE00A0 44 = Some (head_bytes (fill_table_head ''APIC'' 1 (of_nat (44 + n * 8))) @ le_bytes 4 (0xFEE00000 :: u32) @ le_bytes 4 (0 :: u32))"
    using ram_get_append3 [of r1 "0xE00A0" 36 _ 4 _ 4] h f z by simp
  from ram_get_append [OF this, of "8 * n"] l show ?thesis by (simp add: madt_image_def mult.commute)
qed

lemma stored_fadt:
  assumes "pokes r (acpi_stores n) = Some r1"
  shows "ram_get r1 (0xE0030 + dsdt_at n) 44 = Some (fadt_image n)"
proof -
  note b = dsdt_at_bounds [of n]
  have "ram_get r1 (0xE0030 + dsdt_at n) 36 = Some (head_bytes (fill_table_head ''FACP'' 2 44))"
    using store_nth [OF assms, of 9 "0xE0030 + dsdt_at n" "head_bytes (fill_table_head ''FACP'' 2 44)"] b by (simp add: acpi_stores_def)
  moreover have "ram_get r1 (0xE0030 + dsdt_at n + 36) 4 = Some (le_bytes 4 (0 :: u32))"
    using store_nth [OF assms, of 10 "0xE0054 + dsdt_at n" "le_bytes 4 (0 :: u32)"] b by (simp add: acpi_stores_def add.commute)
  moreover have "ram_get r1 (0xE0030 + dsdt_at n + 36 + 4) 4 = Some (le_bytes 4 (of_nat (0xE0000 + dsdt_at n) :: u32))"
    using store_nth [OF assms, of 11 "0xE0058 + dsdt_at n" "le_bytes 4 (of_nat (0xE0000 + dsdt_at n) :: u32)"] b
    by (simp add: acpi_stores_def add.commute)
  ultimately show ?thesis using ram_get_append3 [of r1 "0xE0030 + dsdt_at n" 36 _ 4 _ 4] by (simp add: fadt_image_def)
qed

lemma stored_dsdt:
  assumes "pokes r (acpi_stores n) = Some r1"
  shows "ram_get r1 (0xE0000 + dsdt_at n) 36 = Some (head_bytes (fill_table_head ''DSDT'' 2 36))"
  using store_nth [OF assms, of 7 "0xE0000 + dsdt_at n" "head_bytes (fill_table_head ''DSDT'' 2 36)"] dsdt_at_bounds [of n]
  by (simp add: acpi_stores_def)

lemma stored_rsdp:
  assumes "pokes r (acpi_stores n) = Some r1"
  shows "ram_get r1 0xE0000 36 = Some rsdp_image"
proof -
  note b = dsdt_at_bounds [of n]
  define p0 where "p0 = rsdp_bytes \<lparr>rp_signature = ''RSD PTR '', rp_checksum = 0, rp_oem_id = ''EXVMM '', rp_revision = 2,
         rp_rsdt_addr = 0, rp_length = 0, rp_xsdt_addr = 0, rp_ext_checksum = 0\<rparr>"
  have s0: "acpi_stores n ! 0 = (0xE0000, p0)" "0 < length (acpi_stores n)" by (simp_all add: acpi_stores_def p0_def)
  have a: "ram_get r1 0xE0000 16 = Some (take 16 p0)"
    using pokes_nth_sub [OF assms s0(2,1), of "0xE0000" 16] b by (simp add: acpi_stores_def p0_def)
  have e: "ram_get r1 0xE0020 4 = Some (take 4 (drop 32 p0))"
    using pokes_nth_sub [OF assms s0(2,1), of "0xE0020" 4] b by (simp add: acpi_stores_def p0_def)
  have x: "ram_get r1 0xE0010 4 = Some (le_bytes 4 (0xE0030 :: u32))"
    using store_nth [OF assms, of 16 "0xE0010" "le_bytes 4 (0xE0030 :: u32)"] b by (simp add: acpi_stores_def)
  have y: "ram_get r1 0xE0014 4 = Some (le_bytes 4 (36 :: u32))"
    using store_nth [OF assms, of 18 "0xE0014" "le_bytes 4 (36 :: u32)"] b by (simp add: acpi_stores_def)
  have z: "ram_get r1 0xE0018 8 = Some (le_bytes 8 (0xE0060 :: u64))"
    using store_nth [OF assms, of 17 "0xE0018" "le_bytes 8 (0xE0060 :: u64)"] b by (simp add: acpi_stores_def)
  have "ram_get r1 0xE0000 24 = Some (take 16 p0 @ le_bytes 4 (0xE0030 :: u32) @ le_bytes 4 (36 :: u32))"
    using ram_get_append3 [of r1 "0xE0000" 16 _ 4 _ 4] a x y by simp
  then have "ram_get r1 0xE0000 36 = Some ((take 16 p0 @ le_bytes 4 (0xE0030 :: u32) @ le_bytes 4 (36 :: u32)) @
      le_bytes 8 (0xE0060 :: u64) @ take 4 (drop 32 p0))"
    using ram_get_append3 [of r1 "0xE0000" 24 _ 8 _ 4] z e by simp
  moreover have "take 16 p0 @ le_bytes 4 (0xE0030 :: u32) @ le_bytes 4 (36 :: u32) @ le_bytes 8 (0xE0060 :: u64) @ take 4 (drop 32 p0) = rsdp_image"
    by (simp add: p0_def rsdp_image_def rsdp_bytes_def)
  ultimately show ?thesis by simp
qed

section \<open>Reading the tables\<close>

lemma rsdp_sums:
  assumes "set_checksums r ((a, 20, 8) # (a, 36, 32) # cs) = Some r'" and "ram_get r a 36 = Some p"
    and "list_all (\<lambda>(b, _, j). b + j < a \<or> a + 36 \<le> b + j) cs"
  shows "\<exists>q. ram_get r' a 36 = Some q \<and> sum_list (take 20 q) = 0 \<and> sum_list q = 0 \<and> take 8 q = take 8 p \<and>
    take 16 (drop 16 q) = take 16 (drop 16 p)"
proof -
  from assms(1) obtain r1 r2 where r: "set_checksum r a 20 8 = Some r1" "set_checksum r1 a 36 32 = Some r2" "set_checksums r2 cs = Some r'"
    by (auto split: option.splits)
  have lp: "length p = 36" using guest.get_length [OF assms(2)] .
  have h: "ram_get r a 20 = Some (take 20 p)" and t: "ram_get r (a + 20) 16 = Some (drop 20 p)"
    using ram_get_sub [OF assms(2), of a 20] ram_get_sub [OF assms(2), of "a + 20" 16] lp by simp_all
  have h1: "ram_get r1 a 20 = Some (checksummed (take 20 p) 8)" and t1: "ram_get r1 (a + 20) 16 = Some (drop 20 p)"
    using set_checksum_ok [OF h, of 8] touches_get [OF set_checksum_touches [OF r(1)], of "a + 20" 16] r(1) t by auto
  let ?p1 = "checksummed (take 20 p) 8 @ drop 20 p"
  have g1: "ram_get r1 a 36 = Some ?p1" using ram_get_append [OF h1 t1] by simp
  from set_checksum_ok [OF g1, of 32] r(2) have "ram_get r2 a 36 = Some (checksummed ?p1 32)" by auto
  then have "ram_get r' a 36 = Some (checksummed ?p1 32)" using set_checksums_kept [OF r(3)] assms(3) by simp
  moreover have "sum_list (take 20 (checksummed ?p1 32)) = 0"
    using checksummed_zero [of 8 "take 20 p"] lp by (simp add: checksummed_def)
  moreover have "sum_list (checksummed ?p1 32) = 0" using lp by (intro checksummed_zero) simp
  moreover have "take 8 (checksummed ?p1 32) = take 8 p" using lp by (simp add: checksummed_def)
  moreover have "take 16 (drop 16 (checksummed ?p1 32)) = take 16 (drop 16 p)"
    using lp by (auto simp: checksummed_def nth_append intro!: nth_equalityI)
  ultimately show ?thesis by blast
qed

lemma acpi_table_sums:
  assumes "ram_get r a len = Some (checksummed bs 9)" and "take 8 bs = bytes sig @ le_bytes 4 (of_nat len :: u32)"
    and "length sig = 4" and "len < 2 ^ 32" and "10 \<le> len"
  shows "acpi_table r sig a = Some (checksummed bs 9)" and "bytes sig' \<noteq> bytes sig \<Longrightarrow> acpi_table r sig' a = None"
proof -
  have lb: "length bs = len" using guest.get_length [OF assms(1)] by simp
  have t8: "take 8 (checksummed bs 9) = bytes sig @ le_bytes 4 (of_nat len :: u32)" using assms(2) by (simp add: checksummed_def)
  have "ram_get r (a + 4) 4 = Some (take 4 (drop 4 (checksummed bs 9)))" using ram_get_sub [OF assms(1), of "a + 4" 4] assms(5) by simp
  also have "take 4 (drop 4 (checksummed bs 9)) = drop 4 (take 8 (checksummed bs 9))" by (simp add: drop_take)
  finally have u: "ram_u32 r (a + 4) = Some (of_nat len)" using t8 assms(3) by (simp add: ram_u32_def)
  have t4: "take 4 (checksummed bs 9) = bytes sig"
  proof -
    have "take 4 (checksummed bs 9) = take 4 (take 8 (checksummed bs 9))" by simp
    then show ?thesis using t8 assms(3) by simp
  qed
  have "sum_list (checksummed bs 9) = 0" using assms(5) lb by (intro checksummed_zero) simp
  then show "acpi_table r sig a = Some (checksummed bs 9)" and "bytes sig' \<noteq> bytes sig \<Longrightarrow> acpi_table r sig' a = None"
    using u t4 assms(1,4) unat_u32 [of len] by (simp_all add: acpi_table_def)
qed

lemma lapic_bytes_entry:
  "lapic_bytes (lapic_entry i) = [0, 8, of_nat i, of_nat i] @ le_bytes 4 (1 :: u32)"
  by (simp add: lapic_bytes_def lapic_entry_def)

lemma lapics_entries: "lapics (concat (map (\<lambda>i. lapic_bytes (lapic_entry i)) js)) = Some (map of_nat js)"
proof (induction js)
  case Nil
  then show ?case by (simp add: lapics.simps)
next
  case (Cons j js)
  let ?t = "concat (map (\<lambda>i. lapic_bytes (lapic_entry i)) js)"
  let ?x = "lapic_bytes (lapic_entry j) @ ?t"
  have x: "?x = 0 # 8 # of_nat j # of_nat j # le_bytes 4 (1 :: u32) @ ?t" by (simp add: lapic_bytes_entry)
  have "drop 8 ?x = ?t" "?x ! 1 = 8" "?x ! 0 = 0" "?x ! 3 = of_nat j" "take 4 (drop 4 ?x) = le_bytes 4 (1 :: u32)" "8 \<le> length ?x"
    unfolding x by simp_all
  moreover have "lapic_bytes (lapic_entry j) \<noteq> []" by (simp add: lapic_bytes_entry)
  ultimately show ?case using Cons by (simp add: lapics.simps [of ?x])
qed

lemma head_image: "length sig = 4 \<Longrightarrow> take 8 (head_bytes (fill_table_head sig v len)) = bytes sig @ le_bytes 4 len"
  by (simp add: head_bytes_def fill_table_head_def)

lemma checksummed_drop: "k < m \<Longrightarrow> drop m (checksummed bs k) = drop m bs"
  by (simp add: checksummed_def)

lemma le_val_cast: "length bs \<le> 4 \<Longrightarrow> unat (le_val bs :: u64) = unat (le_val bs :: u32)"
proof -
  assume l: "length bs \<le> 4"
  have "(le_val bs :: u64) = ucast (le_val bs :: u32)"
    by (rule bit_word_eqI) (use l in \<open>auto simp: bit_simps bit_le_val\<close>)
  then show ?thesis by (simp add: unsigned_ucast_eq take_bit_nat_eq_self unsigned_less [THEN less_le_trans])
qed

lemma acpi_sums_eq:
  "acpi_sums n (acpi_layout n) = [(0xE0000, 20, 8), (0xE0000, 36, 32), (0xE0030, 44, 9), (0xE0060, 52, 9),
     (0xE00A0, 44 + n * 8, 9), (0xE0030 + dsdt_at n, 44, 9), (0xE0000 + dsdt_at n, 36, 9)]"
  by (simp add: acpi_sums_def acpi_layout_eq acpi_sizes)

lemma acpi_stores_range: "n \<le> 8000 \<Longrightarrow> list_all (\<lambda>(a, bs). 0xE0000 \<le> a \<and> a + length bs \<le> 0xF0000) (acpi_stores n)"
  using dsdt_at_bounds [of n] by (simp add: acpi_stores_def)

lemma acpi_install_defined:
  assumes "n = x_nr_vcpus v" and "n \<le> 8000" and "ram_bytes (x_ram v) = unat (x_mem_size v)" and "0xF0000 \<le> unat (x_mem_size v)"
  shows "\<exists>r1 r2. acpi_install v = Some (0, v\<lparr>x_ram := r2\<rparr>) \<and> pokes (x_ram v) (acpi_stores n) = Some r1 \<and>
    set_checksums r1 (acpi_sums n (acpi_layout n)) = Some r2 \<and> touches (x_ram v) r2 {0xE0000..<0xF0000}"
proof -
  have "list_all (\<lambda>(a, bs). a + length bs \<le> ram_bytes (x_ram v)) (acpi_stores n)"
    using acpi_stores_range [OF assms(2)] assms(3,4) by (auto simp: list_all_iff)
  then have "fits (ram_bytes (x_ram v)) (acpi_stores n)" by (simp add: fits_def)
  from pokes_defined [OF this] obtain r1 where r1: "pokes (x_ram v) (acpi_stores n) = Some r1" by blast
  have "list_all (\<lambda>(a, len, k). a + len \<le> ram_bytes r1 \<and> k < len) (acpi_sums n (acpi_layout n))"
    using dsdt_at_bounds [of n] assms pokes_bytes [OF r1] by (simp add: acpi_sums_eq)
  from set_checksums_defined [OF this] obtain r2 where r2: "set_checksums r1 (acpi_sums n (acpi_layout n)) = Some r2" by blast
  have "touches r1 r2 {0xE0000..<0xF0000}"
    by (rule touches_mono [OF set_checksums_touches [OF r2]]) (use dsdt_at_bounds [of n] assms(2) in \<open>simp add: acpi_sums_eq\<close>)
  with pokes_touches [OF r1 acpi_stores_range [OF assms(2)]] have "touches (x_ram v) r2 {0xE0000..<0xF0000}" by (rule touches_trans)
  moreover have "acpi_install v = Some (0, v\<lparr>x_ram := r2\<rparr>)"
    using assms r1 r2 acpi_stores_pokes [OF assms(2), of "x_ram v"] by (simp add: acpi_install_def ACPI_BASE_def Let_def)
  ultimately show ?thesis using r1 r2 by blast
qed

text \<open>The tables as an operating system finds them.\<close>

lemma acpi_tables_found:
  assumes "pokes r (acpi_stores n) = Some r1" and "set_checksums r1 (acpi_sums n (acpi_layout n)) = Some r2" and "n \<le> 8000"
  shows "acpi_root r2 = Some (0xE0030, 0xE0060)"
    and "acpi_table r2 ''RSDT'' 0xE0030 = Some (checksummed (rsdt_image n) 9)"
    and "acpi_table r2 ''XSDT'' 0xE0060 = Some (checksummed (xsdt_image n) 9)"
    and "acpi_table r2 ''APIC'' 0xE00A0 = Some (checksummed (madt_image n) 9)"
    and "acpi_table r2 ''FACP'' 0xE00A0 = None"
    and "acpi_table r2 ''FACP'' (0xE0030 + dsdt_at n) = Some (checksummed (fadt_image n) 9)"
    and "acpi_table r2 ''DSDT'' (0xE0000 + dsdt_at n) = Some (checksummed (head_bytes (fill_table_head ''DSDT'' 2 36)) 9)"
proof -
  note b = dsdt_at_bounds [of n] and s = assms(2) [unfolded acpi_sums_eq] and st = assms(1)
  have "list_all (\<lambda>(b, _, j). b + j < 0xE0000 \<or> 0xE0000 + 36 \<le> b + j) [(0xE0030, 44, 9), (0xE0060, 52, 9),
     (0xE00A0, 44 + n * 8, 9), (0xE0030 + dsdt_at n, 44, 9), (0xE0000 + dsdt_at n, 36, 9 :: nat)]" using b by simp
  from rsdp_sums [OF s stored_rsdp [OF st] this] obtain q where q: "ram_get r2 0xE0000 36 = Some q" "sum_list (take 20 q) = 0" "sum_list q = 0"
    "take 8 q = take 8 rsdp_image" "take 16 (drop 16 q) = take 16 (drop 16 rsdp_image)" by blast
  have i: "take 8 rsdp_image = bytes ''RSD PTR ''"
    "take 16 (drop 16 rsdp_image) = le_bytes 4 (0xE0030 :: u32) @ le_bytes 4 (36 :: u32) @ le_bytes 8 (0xE0060 :: u64)"
    by (simp_all add: rsdp_image_def rsdp_bytes_def)
  have "take 4 (drop 16 q) = take 4 (take 16 (drop 16 q))" "take 8 (drop 24 q) = take 8 (drop 8 (take 16 (drop 16 q)))"
    by (simp_all add: drop_take)
  then have "take 4 (drop 16 q) = le_bytes 4 (0xE0030 :: u32)" "take 8 (drop 24 q) = le_bytes 8 (0xE0060 :: u64)"
    using q(5) i(2) by simp_all
  then show "acpi_root r2 = Some (0xE0030, 0xE0060)" using q i(1) by (simp add: acpi_root_def ACPI_BASE_def)
  have "ram_get r2 0xE0030 44 = Some (checksummed (rsdt_image n) 9)"
    using set_checksums_nth [of r1 "[(0xE0000, 20, 8), (0xE0000, 36, 32)]", OF _ stored_rsdt [OF st]] s b by simp
  from acpi_table_sums(1) [OF this, of "''RSDT''"] show "acpi_table r2 ''RSDT'' 0xE0030 = Some (checksummed (rsdt_image n) 9)"
    by (simp add: rsdt_image_def head_image)
  have "ram_get r2 0xE0060 52 = Some (checksummed (xsdt_image n) 9)"
    using set_checksums_nth [of r1 "[(0xE0000, 20, 8), (0xE0000, 36, 32), (0xE0030, 44, 9)]", OF _ stored_xsdt [OF st]] s b by simp
  from acpi_table_sums(1) [OF this, of "''XSDT''"] show "acpi_table r2 ''XSDT'' 0xE0060 = Some (checksummed (xsdt_image n) 9)"
    by (simp add: xsdt_image_def head_image)
  have m: "ram_get r2 0xE00A0 (44 + n * 8) = Some (checksummed (madt_image n) 9)"
    using set_checksums_nth [of r1 "[(0xE0000, 20, 8), (0xE0000, 36, 32), (0xE0030, 44, 9), (0xE0060, 52, 9)]", OF _ stored_madt [OF st]] s b by simp
  have mi: "take 8 (madt_image n) = bytes ''APIC'' @ le_bytes 4 (of_nat (44 + n * 8) :: u32)"
    by (simp add: madt_image_def head_image)
  have lt: "44 + n * 8 < 2 ^ 32" using assms(3) by simp
  from acpi_table_sums [OF m mi _ lt] show "acpi_table r2 ''APIC'' 0xE00A0 = Some (checksummed (madt_image n) 9)"
    and "acpi_table r2 ''FACP'' 0xE00A0 = None" by (simp_all add: bytes_def)
  have "ram_get r2 (0xE0030 + dsdt_at n) 44 = Some (checksummed (fadt_image n) 9)"
    using set_checksums_nth [of r1 "[(0xE0000, 20, 8), (0xE0000, 36, 32), (0xE0030, 44, 9), (0xE0060, 52, 9), (0xE00A0, 44 + n * 8, 9)]",
        OF _ stored_fadt [OF st]] s b by simp
  from acpi_table_sums(1) [OF this, of "''FACP''"] show "acpi_table r2 ''FACP'' (0xE0030 + dsdt_at n) = Some (checksummed (fadt_image n) 9)"
    by (simp add: fadt_image_def head_image)
  have d: "ram_get r2 (0xE0000 + dsdt_at n) 36 = Some (checksummed (head_bytes (fill_table_head ''DSDT'' 2 36)) 9)"
    using set_checksums_nth [of r1 "[(0xE0000, 20, 8), (0xE0000, 36, 32), (0xE0030, 44, 9), (0xE0060, 52, 9), (0xE00A0, 44 + n * 8, 9),
        (0xE0030 + dsdt_at n, 44, 9)]", OF _ stored_dsdt [OF st]] s b by simp
  from acpi_table_sums(1) [OF d, of "''DSDT''"] head_image [of "''DSDT''" 2 36]
  show "acpi_table r2 ''DSDT'' (0xE0000 + dsdt_at n) = Some (checksummed (head_bytes (fill_table_head ''DSDT'' 2 36)) 9)" by simp
qed

lemma rsdt_addrs:
  assumes "n \<le> 8000"
  shows "table_addrs 4 (checksummed (rsdt_image n) 9) = [0xE00A0, 0xE0030 + dsdt_at n]"
proof -
  have d: "0xE0030 + dsdt_at n < 2 ^ 32" using dsdt_at_bounds [of n] assms by simp
  have "drop 36 (checksummed (rsdt_image n) 9) = le_bytes 4 (0xE00A0 :: u32) @ le_bytes 4 (of_nat (0xE0030 + dsdt_at n) :: u32)"
    "drop 40 (checksummed (rsdt_image n) 9) = le_bytes 4 (of_nat (0xE0030 + dsdt_at n) :: u32)"
    unfolding rsdt_image_def by (simp_all add: checksummed_drop)
  moreover have "length (rsdt_image n) = 44" by (simp add: rsdt_image_def)
  ultimately show ?thesis using unat_u32 [OF d]
    by (simp add: table_addrs_def HEAD_SIZE_def upt_rec le_val_cast del: of_nat_add)
qed

lemma xsdt_addrs:
  assumes "n \<le> 8000"
  shows "table_addrs 8 (checksummed (xsdt_image n) 9) = [0xE00A0, 0xE0030 + dsdt_at n]"
proof -
  have d: "0xE0030 + dsdt_at n < 2 ^ 64" using dsdt_at_bounds [of n] assms by simp
  have "drop 36 (checksummed (xsdt_image n) 9) = le_bytes 8 (0xE00A0 :: u64) @ le_bytes 8 (of_nat (0xE0030 + dsdt_at n) :: u64)"
    "drop 44 (checksummed (xsdt_image n) 9) = le_bytes 8 (of_nat (0xE0030 + dsdt_at n) :: u64)"
    unfolding xsdt_image_def by (simp_all add: checksummed_drop)
  moreover have "length (xsdt_image n) = 52" by (simp add: xsdt_image_def)
  ultimately show ?thesis using unat_u64 [OF d]
    by (simp add: table_addrs_def HEAD_SIZE_def upt_rec del: of_nat_add)
qed

text \<open>
  Claim C37.  The example monitor's ACPI tables are well-formed.  With RAM up to the BIOS area and at most 8000 processors \<open>acpi_install\<close>
  succeeds and stores only between E0000 and F0000.  An operating system that starts at the root pointer, follows
  either of the two root tables and accepts a table only with the right signature and a zero checksum
  finds in the MADT exactly one enabled local APIC per processor, numbered in order (in 8 bits), and through the FADT the DSDT.
\<close>

theorem acpi_tables_ok:
  assumes "ram_bytes (x_ram v) = unat (x_mem_size v)" and "0xF0000 \<le> unat (x_mem_size v)" and "x_nr_vcpus v \<le> 8000"
  shows "\<exists>v'. acpi_install v = Some (0, v') \<and> touches (x_ram v) (x_ram v') {0xE0000..<0xF0000} \<and>
    acpi_cpus (x_ram v') wide = Some (map of_nat [0..<x_nr_vcpus v]) \<and> acpi_dsdt (x_ram v') wide \<noteq> None"
proof -
  let ?n = "x_nr_vcpus v"
  from acpi_install_defined [OF refl assms(3,1,2)] obtain r1 r2 where i: "acpi_install v = Some (0, v\<lparr>x_ram := r2\<rparr>)" and
    t: "touches (x_ram v) r2 {0xE0000..<0xF0000}" and r: "pokes (x_ram v) (acpi_stores ?n) = Some r1"
    "set_checksums r1 (acpi_sums ?n (acpi_layout ?n)) = Some r2" by blast
  note f = acpi_tables_found [OF r assms(3)]
  have m: "acpi_find r2 wide ''APIC'' = Some (checksummed (madt_image ?n) 9)"
    and a: "acpi_find r2 wide ''FACP'' = Some (checksummed (fadt_image ?n) 9)"
    using f rsdt_addrs [OF assms(3)] xsdt_addrs [OF assms(3)] by (simp_all add: acpi_find_def find_table_def List.map_filter_simps)
  have "drop MADT_SIZE (checksummed (madt_image ?n) 9) = lapic_block ?n"
    by (simp add: acpi_sizes checksummed_drop) (simp add: madt_image_def)
  with m lapics_entries [of "[0..<?n]"] have c: "acpi_cpus r2 wide = Some (map of_nat [0..<?n])" by (simp add: acpi_cpus_def lapic_block_def)
  have d: "0xE0000 + dsdt_at ?n < 2 ^ 32" using dsdt_at_bounds [of ?n] assms(3) by simp
  have "take 4 (drop 40 (checksummed (fadt_image ?n) 9)) = le_bytes 4 (of_nat (0xE0000 + dsdt_at ?n) :: u32)"
    by (simp add: checksummed_drop) (simp add: fadt_image_def)
  with a f(7) unat_u32 [OF d] have "acpi_dsdt r2 wide \<noteq> None" by (simp add: acpi_dsdt_def del: of_nat_add)
  with i t c show ?thesis by auto
qed

text \<open>A machine with 1 MB of RAM and two processors.\<close>

definition demo_example :: x_vmm where
  "demo_example = zero_vmm\<lparr>x_mem_size := 0x100000, x_ram := fresh_ram 0x100000, x_nr_vcpus := 2\<rparr>"

theorem acpi_tables_ok_witness:
  "\<exists>v'. acpi_install demo_example = Some (0, v') \<and> acpi_cpus (x_ram v') True = Some [0, 1] \<and> acpi_dsdt (x_ram v') True \<noteq> None"
proof -
  have "map of_nat [0..<2] = [0, 1 :: u8]" by (simp add: upt_rec)
  with acpi_tables_ok [of demo_example True] show ?thesis by (auto simp: demo_example_def fresh_ram_def)
qed

end
