(* ===== verification/Example_Bios.thy ===== *)
theory Example_Bios
  imports Example_Acpi Boot
begin

text \<open>
  The low memory of the example monitor (\<^verbatim>\<open>docs/example-vmm/bios.c\<close>): BIOS image, memory map, option ROM, interrupt vectors, the table of processors of the
  MP specification and the reset vector of the application processors.  \<open>struct e820entry\<close> and \<open>struct real_intr_desc\<close> are those of
  the main monitor (theory \<open>Boot\<close>); the constants are those of \<^verbatim>\<open>bios.h\<close> and \<^verbatim>\<open>bios_offsets.h\<close>.
\<close>

section \<open>Constants\<close>

datatype x_boot_const = X_IVT_BEGIN | X_IVT_END | X_BDA_START | X_BDA_END | X_EBDA_START | X_EBDA_END | X_E820_MAP_START | X_VGA_RAM_BEGIN | X_VGA_RAM_END
  | X_VGA_ROM_BEGIN | X_VGA_ROM_OEM_STRING | X_VGA_ROM_OEM_STRING_SIZE | X_VGA_ROM_MODES | X_VGA_ROM_MODES_SIZE | X_VGA_ROM_END | X_MB_BIOS_BEGIN | X_MB_BIOS_END
  | X_MB_BIOS_SIZE | X_REAL_INTR_VECTORS

fun x_at :: "x_boot_const \<Rightarrow> nat" where
  "x_at X_IVT_BEGIN = 0"
| "x_at X_IVT_END = 0x3ff"
| "x_at X_BDA_START = 0x400"
| "x_at X_BDA_END = 0x4ff"
| "x_at X_EBDA_START = 0x9fc00"
| "x_at X_EBDA_END = 0x9ffff"
| "x_at X_E820_MAP_START = 0x9fc00"
| "x_at X_VGA_RAM_BEGIN = 0xa0000"
| "x_at X_VGA_RAM_END = 0xbffff"
| "x_at X_VGA_ROM_BEGIN = 0xc0000"
| "x_at X_VGA_ROM_OEM_STRING = 0xc0000"
| "x_at X_VGA_ROM_OEM_STRING_SIZE = 16"
| "x_at X_VGA_ROM_MODES = 0xc0000 + 16"
| "x_at X_VGA_ROM_MODES_SIZE = 32"
| "x_at X_VGA_ROM_END = 0xc7fff"
| "x_at X_MB_BIOS_BEGIN = 0xf0000"
| "x_at X_MB_BIOS_END = 0xfffff"
| "x_at X_MB_BIOS_SIZE = 0xfffff - 0xf0000 + 1"
| "x_at X_REAL_INTR_VECTORS = 256"

declare x_at.simps [simp del]

definition X_E820_RAM :: u32 where "X_E820_RAM = 1"
definition X_E820_RESERVED :: u32 where "X_E820_RESERVED = 2"
definition X_bios_int10 :: nat where "X_bios_int10 = 0x40"
definition X_bios_int15 :: nat where "X_bios_int15 = 0x80"
definition X_bios_intfake :: nat where "X_bios_intfake = 0x30"
definition BIOS_BIN_PATH :: string where "BIOS_BIN_PATH = ''bios.bin''"
definition MP_TABLE_BASE :: nat where "MP_TABLE_BASE = x_at X_MB_BIOS_BEGIN + 0xd000"
definition MP_FPTR_ADDR :: nat where "MP_FPTR_ADDR = MP_TABLE_BASE"
definition MP_TABLE_ADDR :: nat where "MP_TABLE_ADDR = MP_TABLE_BASE + 16"

lemmas x_bios_consts = x_at.simps X_E820_RAM_def
  X_E820_RESERVED_def X_bios_int10_def X_bios_int15_def X_bios_intfake_def MP_TABLE_BASE_def MP_FPTR_ADDR_def MP_TABLE_ADDR_def

section \<open>BIOS image, memory map, vectors\<close>

text \<open>\<open>read_bios_file\<close> is the same text as \<open>read_file\<close> of \<^verbatim>\<open>kernel.c\<close>.\<close>

definition read_bios_file :: "ex_os \<Rightarrow> string \<Rightarrow> ex_log \<Rightarrow> (u8 list option \<times> ex_log) option" where
  "read_bios_file w path tr = ex_read_file w path tr"

definition x_e820_entries :: "u64 \<Rightarrow> e820entry list" where
  "x_e820_entries mem_size =
     [\<lparr>e_addr = of_nat (x_at X_IVT_BEGIN), e_size = of_nat (x_at X_EBDA_START - x_at X_IVT_BEGIN), e_type = X_E820_RAM\<rparr>,
      \<lparr>e_addr = of_nat (x_at X_EBDA_START), e_size = of_nat (x_at X_VGA_RAM_BEGIN - x_at X_EBDA_START), e_type = X_E820_RESERVED\<rparr>,
      \<lparr>e_addr = of_nat (x_at X_VGA_RAM_BEGIN), e_size = of_nat (x_at X_MB_BIOS_BEGIN - x_at X_VGA_RAM_BEGIN), e_type = X_E820_RESERVED\<rparr>,
      \<lparr>e_addr = of_nat (x_at X_MB_BIOS_BEGIN), e_size = of_nat (x_at X_MB_BIOS_SIZE), e_type = X_E820_RESERVED\<rparr>,
      \<lparr>e_addr = 0x100000, e_size = mem_size - 0x100000, e_type = X_E820_RAM\<rparr>]"

definition x_setup_e820 :: "u64 \<Rightarrow> (nat \<times> u8 list) list" where
  "x_setup_e820 mem_size =
     (let es = x_e820_entries mem_size
      in map (\<lambda>i. (x_at X_E820_MAP_START + 4 + 20 * i, e820_bytes (es ! i))) [0..<length es] @
         [(x_at X_E820_MAP_START, le_bytes 4 (of_nat (length es) :: u32))])"

definition x_setup_vga_rom :: "(nat \<times> u8 list) list" where
  "x_setup_vga_rom =
     [filled (x_at X_VGA_ROM_BEGIN) (x_at X_VGA_ROM_END - x_at X_VGA_ROM_BEGIN + 1),
      (x_at X_VGA_ROM_OEM_STRING, strncpy (x_at X_VGA_ROM_OEM_STRING_SIZE) (bytes ''KVM VESA'')),
      (x_at X_VGA_ROM_MODES, le_bytes 2 (0x0112 :: u16)), (x_at X_VGA_ROM_MODES + 2, le_bytes 2 (0xffff :: u16))]"

definition x_ivt :: ivt where
  "x_ivt = (replicate (x_at X_REAL_INTR_VECTORS) (of_nat X_bios_intfake, of_nat (x_at X_MB_BIOS_BEGIN div 16)))
     [0x10 := (of_nat X_bios_int10, of_nat (x_at X_MB_BIOS_BEGIN div 16)), 0x15 := (of_nat X_bios_int15, of_nat (x_at X_MB_BIOS_BEGIN div 16))]"

definition install_ivt :: "(nat \<times> u8 list) list" where
  "install_ivt = [(x_at X_IVT_BEGIN, ivt_bytes x_ivt)]"

section \<open>The MP table\<close>

record mp_fptr =
  fp_signature :: string
  fp_table_addr :: u32
  fp_length :: u8
  fp_spec_rev :: u8
  fp_checksum :: u8

definition fptr_bytes :: "mp_fptr \<Rightarrow> u8 list" where
  "fptr_bytes p = fixed 4 (bytes (fp_signature p)) @ le_bytes 4 (fp_table_addr p) @ [fp_length p, fp_spec_rev p, fp_checksum p, 0, 0, 0, 0, 0]"

record mp_table_head =
  mh_signature :: string
  mh_base_table_length :: u16
  mh_spec_rev :: u8
  mh_checksum :: u8
  mh_oem_id :: string
  mh_product_id :: string
  mh_entry_count :: u16
  mh_local_apic_addr :: u32

definition mp_head_bytes :: "mp_table_head \<Rightarrow> u8 list" where
  "mp_head_bytes h = fixed 4 (bytes (mh_signature h)) @ le_bytes 2 (mh_base_table_length h) @ [mh_spec_rev h, mh_checksum h] @
     fixed 8 (bytes (mh_oem_id h)) @ fixed 12 (bytes (mh_product_id h)) @ replicate 6 0 @ le_bytes 2 (mh_entry_count h) @
     le_bytes 4 (mh_local_apic_addr h) @ replicate 4 0"

record mp_cpu =
  cp_entry_type :: u8
  cp_local_apic_id :: u8
  cp_local_apic_version :: u8
  cp_cpu_flags :: u8
  cp_cpu_signature :: u32
  cp_feature_flags :: u32

definition mp_cpu_bytes :: "mp_cpu \<Rightarrow> u8 list" where
  "mp_cpu_bytes c = [cp_entry_type c, cp_local_apic_id c, cp_local_apic_version c, cp_cpu_flags c] @
     le_bytes 4 (cp_cpu_signature c) @ le_bytes 4 (cp_feature_flags c) @ replicate 8 0"

record mp_bus =
  bu_entry_type :: u8
  bu_bus_id :: u8
  bu_bus_type :: string

definition mp_bus_bytes :: "mp_bus \<Rightarrow> u8 list" where
  "mp_bus_bytes b = [bu_entry_type b, bu_bus_id b] @ fixed 6 (bytes (bu_bus_type b))"

record mp_io_apic =
  ia_entry_type :: u8
  ia_apic_id :: u8
  ia_apic_version :: u8
  ia_apic_flags :: u8
  ia_apic_addr :: u32

definition mp_io_apic_bytes :: "mp_io_apic \<Rightarrow> u8 list" where
  "mp_io_apic_bytes a = [ia_entry_type a, ia_apic_id a, ia_apic_version a, ia_apic_flags a] @ le_bytes 4 (ia_apic_addr a)"

record mp_irq =
  iq_entry_type :: u8
  iq_int_type :: u8
  iq_irq_flags :: u16
  iq_src_bus :: u8
  iq_src_irq :: u8
  iq_dst_apic :: u8
  iq_dst_irq :: u8

definition mp_irq_bytes :: "mp_irq \<Rightarrow> u8 list" where
  "mp_irq_bytes q = [iq_entry_type q, iq_int_type q] @ le_bytes 2 (iq_irq_flags q) @ [iq_src_bus q, iq_src_irq q, iq_dst_apic q, iq_dst_irq q]"

text \<open>The function clears the checksum byte and returns the value for it.\<close>

definition mp_checksum :: "guest_ram \<Rightarrow> nat \<Rightarrow> nat \<Rightarrow> nat \<Rightarrow> (u8 \<times> guest_ram) option" where
  "mp_checksum r a len checksum_off = do {
     r1 \<leftarrow> ram_put r (a + checksum_off) [0];
     bs \<leftarrow> ram_get r1 a len;
     Some (- sum_list bs, r1)
   }"

definition mp_fptr_init :: mp_fptr where
  "mp_fptr_init = \<lparr>fp_signature = ''_MP_'', fp_table_addr = of_nat MP_TABLE_ADDR, fp_length = 1, fp_spec_rev = 4, fp_checksum = 0\<rparr>"

definition mp_head_init :: "nat \<Rightarrow> mp_table_head" where
  "mp_head_init n = \<lparr>mh_signature = ''PCMP'', mh_base_table_length = 0, mh_spec_rev = 4, mh_checksum = 0, mh_oem_id = ''EXVMM   '',
     mh_product_id = ''EXAMPLE     '', mh_entry_count = of_nat (n + 1 + 1 + 16), mh_local_apic_addr = 0xfee00000\<rparr>"

definition mp_cpu_entry :: "nat \<Rightarrow> mp_cpu" where
  "mp_cpu_entry i = \<lparr>cp_entry_type = 0, cp_local_apic_id = of_nat i, cp_local_apic_version = 0x14,
     cp_cpu_flags = (if i = 0 then 3 else 1), cp_cpu_signature = 0, cp_feature_flags = 1\<rparr>"

definition mp_bus_entry :: mp_bus where
  "mp_bus_entry = \<lparr>bu_entry_type = 1, bu_bus_id = 0, bu_bus_type = ''ISA   ''\<rparr>"

definition mp_io_apic_entry :: "nat \<Rightarrow> mp_io_apic" where
  "mp_io_apic_entry n = \<lparr>ia_entry_type = 2, ia_apic_id = of_nat (n + 1), ia_apic_version = 0x11, ia_apic_flags = 1, ia_apic_addr = 0xfec00000\<rparr>"

definition mp_irq_entry :: "nat \<Rightarrow> nat \<Rightarrow> mp_irq" where
  "mp_irq_entry n i = \<lparr>iq_entry_type = 3, iq_int_type = 0, iq_irq_flags = 0x000f, iq_src_bus = 0, iq_src_irq = of_nat i,
     iq_dst_apic = of_nat (n + 1), iq_dst_irq = of_nat i\<rparr>"

text \<open>The entries behind the head: pointers to the next entry as addresses.\<close>

definition mp_entry_writes :: "nat \<Rightarrow> (nat \<times> u8 list) list" where
  "mp_entry_writes n =
     (let cpu = MP_TABLE_ADDR + 44; bus = cpu + n * 20; ioa = bus + 8; irq = ioa + 8
      in map (\<lambda>i. (cpu + i * 20, mp_cpu_bytes (mp_cpu_entry i))) [0..<n] @
         [(bus, mp_bus_bytes mp_bus_entry), (ioa, mp_io_apic_bytes (mp_io_apic_entry n))] @
         map (\<lambda>i. (irq + i * 8, mp_irq_bytes (mp_irq_entry n i))) [0..<16])"

definition mp_base_length :: "nat \<Rightarrow> u16" where
  "mp_base_length n = of_nat (44 + n * 20 + 8 + 8 + 16 * 8)"

definition setup_mp_table :: "nat \<Rightarrow> guest_ram \<Rightarrow> guest_ram option" where
  "setup_mp_table n r = do {
     r1 \<leftarrow> ram_put r MP_FPTR_ADDR (fptr_bytes mp_fptr_init);
     (c1, r2) \<leftarrow> mp_checksum r1 MP_FPTR_ADDR 16 10;
     r3 \<leftarrow> ram_put r2 (MP_FPTR_ADDR + 10) [c1];
     r4 \<leftarrow> pokes r3 ((MP_TABLE_ADDR, mp_head_bytes (mp_head_init n)) # mp_entry_writes n @
       [(MP_TABLE_ADDR + 4, le_bytes 2 (mp_base_length n))]);
     (c2, r5) \<leftarrow> mp_checksum r4 MP_TABLE_ADDR (unat (mp_base_length n)) 7;
     ram_put r5 (MP_TABLE_ADDR + 7) [c2]
   }"

section \<open>Installation\<close>

definition x_bios_areas :: "(nat \<times> u8 list) list" where
  "x_bios_areas = [filled (x_at X_BDA_START) (x_at X_BDA_END - x_at X_BDA_START + 1), filled (x_at X_EBDA_START) (x_at X_EBDA_END - x_at X_EBDA_START + 1),
     filled (x_at X_MB_BIOS_BEGIN) (x_at X_MB_BIOS_SIZE)]"

definition bios_blob :: "u8 list option \<Rightarrow> (nat \<times> u8 list) list" where
  "bios_blob f = (case f of None \<Rightarrow> [] | Some bs \<Rightarrow> [(x_at X_MB_BIOS_BEGIN, take (x_at X_MB_BIOS_SIZE) bs)])"

definition reset_vector :: "(nat \<times> u8 list) list" where
  "reset_vector = [(x_at X_MB_BIOS_END - 15, [0xfa]), (x_at X_MB_BIOS_END - 15 + 1, [0xf4]), (x_at X_MB_BIOS_END - 15 + 2, replicate 13 0x90)]"

definition bios_install :: "ex_os \<Rightarrow> x_vmm \<Rightarrow> ex_log \<Rightarrow> (x_vmm \<times> ex_log) option" where
  "bios_install w v tr = do {
     r1 \<leftarrow> pokes (x_ram v) x_bios_areas;
     (f, tr1) \<leftarrow> read_bios_file w BIOS_BIN_PATH tr;
     r2 \<leftarrow> pokes r1 (bios_blob f);
     r3 \<leftarrow> pokes r2 (x_setup_e820 (x_mem_size v));
     r4 \<leftarrow> pokes r3 x_setup_vga_rom;
     r5 \<leftarrow> pokes r4 install_ivt;
     r6 \<leftarrow> setup_mp_table (x_nr_vcpus v) r5;
     r7 \<leftarrow> pokes r6 reset_vector;
     Some (v\<lparr>x_ram := r7\<rparr>, tr1)
   }"

section \<open>A reader of the MP table\<close>

text \<open>The identifiers of the enabled processors among \<open>k\<close> entries, which must use up the table exactly.\<close>

fun mp_parse :: "nat \<Rightarrow> u8 list \<Rightarrow> u8 list option" where
  "mp_parse 0 bs = (if bs = [] then Some [] else None)"
| "mp_parse (Suc k) bs =
     (if bs = [] then None
      else (let len = (if hd bs = 0 then 20 else 8)
            in if length bs < len then None
               else map_option (\<lambda>ids. if hd bs = 0 \<and> bs ! 3 AND 1 = 1 then bs ! 1 # ids else ids) (mp_parse k (drop len bs))))"

definition mp_cpus :: "guest_ram \<Rightarrow> u8 list option" where
  "mp_cpus r = do {
     p \<leftarrow> ram_get r MP_FPTR_ADDR 16;
     if take 4 p = bytes ''_MP_'' \<and> sum_list p = 0
     then (let a = unat (le_val (take 4 (drop 4 p)) :: u32)
           in do {
             len \<leftarrow> ram_u16 r (a + 4);
             t \<leftarrow> ram_get r a (unat len);
             if take 4 t = bytes ''PCMP'' \<and> sum_list t = 0 then mp_parse (unat (le_val (take 2 (drop 34 t)) :: u16)) (drop 44 t) else None
           })
     else None
   }"

section \<open>What the MP table says\<close>

lemma mp_lengths [simp]:
  "length (fptr_bytes p) = 16" "length (mp_head_bytes h) = 44" "length (mp_cpu_bytes c) = 20" "length (mp_bus_bytes b) = 8"
  "length (mp_io_apic_bytes a) = 8" "length (mp_irq_bytes q) = 8"
  by (simp_all add: fptr_bytes_def mp_head_bytes_def mp_cpu_bytes_def mp_bus_bytes_def mp_io_apic_bytes_def mp_irq_bytes_def)

lemma mp_checksum_set:
  "Option.bind (mp_checksum r a len k) (\<lambda>(c, r1). ram_put r1 (a + k) [c]) = set_checksum r a len k"
  by (simp add: mp_checksum_def set_checksum_def bind_assoc split: Option.bind_splits)

lemma mp_checksum_set_then:
  "Option.bind (mp_checksum r a len k) (\<lambda>(c, r1). Option.bind (ram_put r1 (a + k) [c]) f) = Option.bind (set_checksum r a len k) f"
  by (simp add: mp_checksum_def set_checksum_def bind_assoc split: Option.bind_splits)

definition mp_cpu_block :: "nat \<Rightarrow> u8 list" where
  "mp_cpu_block n = concat (map (\<lambda>i. mp_cpu_bytes (mp_cpu_entry i)) [0..<n])"

definition mp_irq_block :: "nat \<Rightarrow> u8 list" where
  "mp_irq_block n = concat (map (\<lambda>i. mp_irq_bytes (mp_irq_entry n i)) [0..<16])"

lemma length_mp_blocks [simp]: "length (mp_cpu_block n) = n * 20" "length (mp_irq_block n) = 128"
proof -
  show "length (mp_cpu_block n) = n * 20" by (induction n) (simp_all add: mp_cpu_block_def)
  show "length (mp_irq_block n) = 128" by (simp add: mp_irq_block_def length_concat comp_def sum_list_triv)
qed

definition mp_stores :: "nat \<Rightarrow> (nat \<times> u8 list) list" where
  "mp_stores n =
     [(0xFD010, mp_head_bytes (mp_head_init n)), (0xFD03C, mp_cpu_block n), (0xFD03C + n * 20, mp_bus_bytes mp_bus_entry),
      (0xFD044 + n * 20, mp_io_apic_bytes (mp_io_apic_entry n)), (0xFD04C + n * 20, mp_irq_block n),
      (0xFD014, le_bytes 2 (mp_base_length n))]"

lemma mp_stores_pokes:
  assumes "n \<le> 603" and "0x100000 \<le> ram_bytes r"
  shows "pokes r ((MP_TABLE_ADDR, mp_head_bytes (mp_head_init n)) # mp_entry_writes n @ [(MP_TABLE_ADDR + 4, le_bytes 2 (mp_base_length n))]) =
    pokes r (mp_stores n)"
proof -
  let ?cpu = "map (\<lambda>i. (0xFD03C + i * 20, mp_cpu_bytes (mp_cpu_entry i))) [0..<n]"
  let ?irq = "map (\<lambda>i. (0xFD04C + n * 20 + i * 8, mp_irq_bytes (mp_irq_entry n i))) [0..<16]"
  let ?mid = "[(0xFD03C + n * 20, mp_bus_bytes mp_bus_entry), (0xFD044 + n * 20, mp_io_apic_bytes (mp_io_apic_entry n))]"
  let ?h = "(0xFD010, mp_head_bytes (mp_head_init n))"
  let ?l = "[(0xFD014, le_bytes 2 (mp_base_length n))]"
  have e: "(MP_TABLE_ADDR, mp_head_bytes (mp_head_init n)) # mp_entry_writes n @ [(MP_TABLE_ADDR + 4, le_bytes 2 (mp_base_length n))] =
      [?h] @ ?cpu @ ?mid @ ?irq @ ?l"
    by (simp add: mp_entry_writes_def x_bios_consts Let_def)
  have "pokes r ([?h] @ ?cpu @ ?mid @ ?irq @ ?l) = pokes r ([?h] @ (0xFD03C, mp_cpu_block n) # ?mid @ ?irq @ ?l)"
    unfolding mp_cpu_block_def by (rule pokes_block_mid) (use assms in simp_all)
  also have "\<dots> = pokes r (([?h, (0xFD03C, mp_cpu_block n)] @ ?mid) @ ?irq @ ?l)" by simp
  also have "\<dots> = pokes r (([?h, (0xFD03C, mp_cpu_block n)] @ ?mid) @ (0xFD04C + n * 20, mp_irq_block n) # ?l)"
    unfolding mp_irq_block_def by (rule pokes_block_mid) (use assms in simp_all)
  also have "\<dots> = pokes r (mp_stores n)" by (simp add: mp_stores_def)
  finally show ?thesis unfolding e .
qed

lemma setup_mp_table_eq:
  assumes "n \<le> 603" and "0x100000 \<le> ram_bytes r"
  shows "setup_mp_table n r = do {
     r1 \<leftarrow> ram_put r 0xFD000 (fptr_bytes mp_fptr_init);
     r3 \<leftarrow> set_checksum r1 0xFD000 16 10;
     r4 \<leftarrow> pokes r3 (mp_stores n);
     set_checksum r4 0xFD010 (188 + n * 20) 7 }"
proof -
  have "unat (of_nat (44 + n * 20 + 8 + 8 + 16 * 8) :: u16) = 44 + n * 20 + 8 + 8 + 16 * 8"
    using assms(1) by (intro unat_u16) simp
  then have len: "unat (mp_base_length n) = 188 + n * 20" by (simp add: mp_base_length_def del: of_nat_add of_nat_mult)
  let ?ws = "(MP_TABLE_ADDR, mp_head_bytes (mp_head_init n)) # mp_entry_writes n @ [(MP_TABLE_ADDR + 4, le_bytes 2 (mp_base_length n))]"
  have st: "pokes r3 ?ws = pokes r3 (mp_stores n)" if "set_checksum r1 0xFD000 16 10 = Some r3" "ram_put r 0xFD000 b = Some r1" for r1 r3 b
    using that assms(2) guest.put_size [OF that(2)] set_checksum_touches [OF that(1)]
    by (intro mp_stores_pokes assms(1)) (simp add: touches_def)
  have c: "MP_FPTR_ADDR = 0xFD000" "0xFD010 = MP_TABLE_ADDR" by (simp_all add: x_bios_consts)
  show ?thesis
    unfolding setup_mp_table_def mp_checksum_set mp_checksum_set_then len c
    using st by (simp split: Option.bind_splits del: pokes.simps)
qed

definition mp_image :: "nat \<Rightarrow> u8 list" where
  "mp_image n = mp_head_bytes ((mp_head_init n)\<lparr>mh_base_table_length := mp_base_length n\<rparr>) @ mp_cpu_block n @
     mp_bus_bytes mp_bus_entry @ mp_io_apic_bytes (mp_io_apic_entry n) @ mp_irq_block n"

lemma length_mp_image [simp]: "length (mp_image n) = 188 + n * 20"
  by (simp add: mp_image_def)

lemma mp_stored:
  assumes "pokes r (mp_stores n) = Some r'"
  shows "ram_get r' 0xFD010 (188 + n * 20) = Some (mp_image n)"
proof -
  let ?h = "mp_head_bytes (mp_head_init n)"
  have h0: "mp_stores n ! 0 = (0xFD010, ?h)" "0 < length (mp_stores n)" by (simp_all add: mp_stores_def)
  have a: "ram_get r' 0xFD010 4 = Some (take 4 ?h)" "ram_get r' 0xFD016 38 = Some (drop 6 ?h)"
    using pokes_nth_sub [OF assms h0(2,1), of "0xFD010" 4] pokes_nth_sub [OF assms h0(2,1), of "0xFD016" 38] by (simp_all add: mp_stores_def)
  have l: "ram_get r' 0xFD014 2 = Some (le_bytes 2 (mp_base_length n))"
    using pokes_nth [OF assms, of 5 "0xFD014" "le_bytes 2 (mp_base_length n)"] by (simp add: mp_stores_def)
  have "ram_get r' 0xFD010 44 = Some (take 4 ?h @ le_bytes 2 (mp_base_length n) @ drop 6 ?h)"
    using ram_get_append3 [OF a(1), of 2 _ 38] l a(2) by simp
  also have "take 4 ?h @ le_bytes 2 (mp_base_length n) @ drop 6 ?h = mp_head_bytes ((mp_head_init n)\<lparr>mh_base_table_length := mp_base_length n\<rparr>)"
    by (simp add: mp_head_bytes_def)
  finally have h: "ram_get r' 0xFD010 44 = Some (mp_head_bytes ((mp_head_init n)\<lparr>mh_base_table_length := mp_base_length n\<rparr>))" .
  have c: "ram_get r' 0xFD03C (n * 20) = Some (mp_cpu_block n)"
    using pokes_nth [OF assms, of 1 "0xFD03C" "mp_cpu_block n"] by (simp add: mp_stores_def)
  have b: "ram_get r' (0xFD03C + n * 20) 8 = Some (mp_bus_bytes mp_bus_entry)"
    using pokes_nth [OF assms, of 2 "0xFD03C + n * 20" "mp_bus_bytes mp_bus_entry"] by (simp add: mp_stores_def)
  have i: "ram_get r' (0xFD044 + n * 20) 8 = Some (mp_io_apic_bytes (mp_io_apic_entry n))"
    using pokes_nth [OF assms, of 3 "0xFD044 + n * 20" "mp_io_apic_bytes (mp_io_apic_entry n)"] by (simp add: mp_stores_def)
  have q: "ram_get r' (0xFD04C + n * 20) 128 = Some (mp_irq_block n)"
    using pokes_nth [OF assms, of 4 "0xFD04C + n * 20" "mp_irq_block n"] by (simp add: mp_stores_def)
  from ram_get_append3 [OF h, of "n * 20" _ 8] c b have
    "ram_get r' 0xFD010 (44 + n * 20 + 8) = Some (mp_head_bytes ((mp_head_init n)\<lparr>mh_base_table_length := mp_base_length n\<rparr>) @ mp_cpu_block n @ mp_bus_bytes mp_bus_entry)"
    by (simp add: add.commute)
  from ram_get_append3 [OF this, of 8 _ 128] i q show ?thesis
    by (simp add: mp_image_def add.assoc add.commute add.left_commute)
qed

lemma mp_table_built:
  assumes "n \<le> 603" and "0x100000 \<le> ram_bytes r"
  shows "\<exists>r'. setup_mp_table n r = Some r' \<and> ram_get r' 0xFD000 16 = Some (checksummed (fptr_bytes mp_fptr_init) 10) \<and>
    ram_get r' 0xFD010 (188 + n * 20) = Some (checksummed (mp_image n) 7) \<and> touches r r' {0xFD000..<0xFD0CC + n * 20}"
proof -
  let ?A = "{0xFD000..<0xFD0CC + n * 20}"
  from assms guest.put_defined [of "0xFD000" "fptr_bytes mp_fptr_init" r] obtain r1 where
    r1: "ram_put r 0xFD000 (fptr_bytes mp_fptr_init) = Some r1" by auto
  from set_checksum_ok [OF guest.get_put_same [OF r1], of 10] obtain r3 where r3: "set_checksum r1 0xFD000 16 10 = Some r3"
    "ram_get r3 0xFD000 16 = Some (checksummed (fptr_bytes mp_fptr_init) 10)" "touches r1 r3 {0xFD00A}" by auto
  have b3: "ram_bytes r3 = ram_bytes r" using guest.put_size [OF r1] r3(3) by (simp add: touches_def)
  have "fits (ram_bytes r3) (mp_stores n)" using assms b3 by (simp add: mp_stores_def)
  from pokes_defined [OF this] obtain r4 where r4: "pokes r3 (mp_stores n) = Some r4" by blast
  from set_checksum_ok [OF mp_stored [OF r4], of 7] obtain r' where r': "set_checksum r4 0xFD010 (188 + n * 20) 7 = Some r'"
    "ram_get r' 0xFD010 (188 + n * 20) = Some (checksummed (mp_image n) 7)" "touches r4 r' {0xFD017}" by auto
  have "setup_mp_table n r = Some r'" using r1 r3(1) r4 r'(1) by (simp add: setup_mp_table_eq [OF assms] del: pokes.simps)
  moreover have "ram_get r' 0xFD000 16 = Some (checksummed (fptr_bytes mp_fptr_init) 10)"
    using touches_get [OF r'(3), of "0xFD000" 16] pokes_clear [OF r4, of "0xFD000" 16] r3(2) by (simp add: mp_stores_def)
  moreover have "touches r r' ?A"
  proof -
    have "touches r r1 ?A" by (rule touches_mono [OF touches_put [OF r1]]) simp
    moreover have "touches r1 r3 ?A" by (rule touches_mono [OF r3(3)]) simp
    moreover have "touches r3 r4 ?A" by (rule pokes_touches [OF r4]) (simp add: mp_stores_def)
    moreover have "touches r4 r' ?A" by (rule touches_mono [OF r'(3)]) simp
    ultimately show ?thesis by (blast intro: touches_trans)
  qed
  ultimately show ?thesis using r'(2) by blast
qed

lemma mp_parse_cpus:
  "mp_parse (length js + k) (concat (map (\<lambda>i. mp_cpu_bytes (mp_cpu_entry i)) js) @ bs) = map_option (\<lambda>ids. map of_nat js @ ids) (mp_parse k bs)"
proof (induction js)
  case Nil
  then show ?case by (simp add: option.map_ident)
next
  case (Cons j js)
  have "mp_cpu_bytes (mp_cpu_entry j) @ ys = 0 # of_nat j # 0x14 # (if j = 0 then 3 else 1) # drop 4 (mp_cpu_bytes (mp_cpu_entry j)) @ ys" for ys
    by (simp add: mp_cpu_bytes_def mp_cpu_entry_def)
  note x = this
  show ?case unfolding list.map concat.simps append_assoc x list.size add_Suc mp_parse.simps
    using Cons by (simp add: option.map_comp comp_def)
qed

lemma mp_parse_irqs: "mp_parse (length js) (concat (map (\<lambda>i. mp_irq_bytes (mp_irq_entry n i)) js)) = Some []"
proof (induction js)
  case (Cons j js)
  obtain l where l: "mp_irq_bytes (mp_irq_entry n j) = 3 # l" by (simp add: mp_irq_bytes_def mp_irq_entry_def)
  then have "length (3 # l) = 8" using mp_lengths(6) by metis
  then show ?case using Cons l by simp
qed simp

lemma mp_entries_parsed:
  "mp_parse (n + 18) (mp_cpu_block n @ mp_bus_bytes mp_bus_entry @ mp_io_apic_bytes (mp_io_apic_entry n) @ mp_irq_block n) = Some (map of_nat [0..<n])"
proof -
  obtain l m where l: "mp_bus_bytes mp_bus_entry = 1 # l" "mp_io_apic_bytes (mp_io_apic_entry n) = 2 # m"
    by (simp add: mp_bus_bytes_def mp_bus_entry_def mp_io_apic_bytes_def mp_io_apic_entry_def)
  then have len: "length (1 # l) = 8" "length (2 # m) = 8" using mp_lengths(4,5) by metis+
  have "mp_parse 16 (mp_irq_block n) = Some []" using mp_parse_irqs [of "[0..<16]" n] by (simp add: mp_irq_block_def)
  then have "mp_parse (Suc (Suc 16)) (mp_bus_bytes mp_bus_entry @ mp_io_apic_bytes (mp_io_apic_entry n) @ mp_irq_block n) = Some []"
    using len unfolding l mp_parse.simps by simp
  moreover have "Suc (Suc 16) = 18" by simp
  ultimately show ?thesis using mp_parse_cpus [of "[0..<n]" 18] by (simp add: mp_cpu_block_def)
qed

lemma mp_cpus_read:
  assumes "ram_get r 0xFD000 16 = Some (checksummed (fptr_bytes mp_fptr_init) 10)"
    and "ram_get r 0xFD010 (188 + n * 20) = Some (checksummed (mp_image n) 7)" and "n \<le> 603"
  shows "mp_cpus r = Some (map of_nat [0..<n])"
proof -
  let ?p = "checksummed (fptr_bytes mp_fptr_init) 10" and ?t = "checksummed (mp_image n) 7"
  have p: "take 4 ?p = bytes ''_MP_''" "sum_list ?p = 0" "take 4 (drop 4 ?p) = le_bytes 4 (0xFD010 :: u32)"
    using checksummed_zero [of 10 "fptr_bytes mp_fptr_init"]
    by (simp_all add: checksummed_def drop_update_swap) (simp_all add: fptr_bytes_def mp_fptr_init_def x_bios_consts)
  have bl: "unat (mp_base_length n) = 188 + n * 20"
    using assms(3) unat_u16 [of "44 + n * 20 + 8 + 8 + 16 * 8"] by (simp add: mp_base_length_def del: of_nat_add of_nat_mult)
  have ec: "unat (mh_entry_count (mp_head_init n)) = n + 18"
    using assms(3) unat_u16 [of "n + 1 + 1 + 16"] by (simp add: mp_head_init_def del: of_nat_add of_nat_Suc)
  have t: "take 4 ?t = bytes ''PCMP''" "sum_list ?t = 0" "take 2 (drop 4 ?t) = le_bytes 2 (mp_base_length n)"
    "take 2 (drop 34 ?t) = le_bytes 2 (mh_entry_count (mp_head_init n))"
    using checksummed_zero [of 7 "mp_image n"]
    by (simp_all add: checksummed_def drop_update_swap) (simp_all add: mp_image_def mp_head_bytes_def mp_head_init_def)
  have d: "drop 44 ?t = mp_cpu_block n @ mp_bus_bytes mp_bus_entry @ mp_io_apic_bytes (mp_io_apic_entry n) @ mp_irq_block n"
    by (simp add: checksummed_drop) (simp add: mp_image_def)
  have "ram_get r 0xFD014 2 = Some (take 2 (drop 4 ?t))" using ram_get_sub [OF assms(2), of "0xFD014" 2] by simp
  then have "ram_u16 r 0xFD014 = Some (mp_base_length n)" using t(3) by (simp add: ram_u16_def)
  then show ?thesis using assms(1,2) p t d bl ec mp_entries_parsed [of n] by (simp add: mp_cpus_def x_bios_consts Let_def)
qed

section \<open>What the installation leaves\<close>

definition x_low_writes :: "u8 list option \<Rightarrow> u64 \<Rightarrow> (nat \<times> u8 list) list" where
  "x_low_writes f sz = x_bios_areas @ bios_blob f @ x_setup_e820 sz @ x_setup_vga_rom @ install_ivt"

lemma length_x_ivt [simp]: "length x_ivt = 256"
  by (simp add: x_ivt_def x_bios_consts)

lemmas x_low_lists = x_bios_areas_def x_setup_e820_def x_setup_vga_rom_def install_ivt_def x_e820_entries_def filled_def Let_def upt_rec

lemma x_low_range: "list_all (\<lambda>(a, bs). 0 \<le> a \<and> a + length bs \<le> 0x100000) (x_low_writes f sz)"
  by (simp add: x_low_writes_def x_low_lists x_bios_consts bios_blob_def split: option.splits)

text \<open>What the real-mode code of a kernel relies on: memory map, interrupt vectors, the reset vector and the two tables of the MP specification.\<close>

definition x_bios_ready :: "nat \<Rightarrow> u64 \<Rightarrow> guest_ram \<Rightarrow> bool" where
  "x_bios_ready n sz r \<longleftrightarrow>
     ram_get r 0x9fc00 104 = Some (le_bytes 4 (5 :: u32) @ concat (map e820_bytes (x_e820_entries sz))) \<and>
     ram_get r 0 1024 = Some (ivt_bytes x_ivt) \<and>
     ram_get r 0xFFFF0 15 = Some (0xfa # 0xf4 # replicate 13 0x90) \<and>
     ram_get r 0xFD000 16 = Some (checksummed (fptr_bytes mp_fptr_init) 10) \<and>
     ram_get r 0xFD010 (188 + n * 20) = Some (checksummed (mp_image n) 7)"

lemma x_low_stored:
  assumes "pokes r (x_low_writes f sz) = Some r'"
  shows "ram_get r' 0x9fc00 104 = Some (le_bytes 4 (5 :: u32) @ concat (map e820_bytes (x_e820_entries sz)))" (is ?e)
    and "ram_get r' 0 1024 = Some (ivt_bytes x_ivt)" (is ?i)
    and "f = Some bs \<Longrightarrow> length bs \<le> 0xd000 \<Longrightarrow> ram_get r' 0xF0000 (length bs) = Some bs"
proof -
  let ?es = "x_e820_entries sz"
  from assms obtain ra where ra: "pokes ra (x_setup_e820 sz @ x_setup_vga_rom @ install_ivt) = Some r'"
    unfolding x_low_writes_def append_assoc [symmetric] pokes_append_Some by blast
  have g: "ram_get r' (0x9fc04 + 20 * i) 20 = Some (e820_bytes (?es ! i))" if "i < 5" for i
  proof -
    have "i \<in> {0, 1, 2, 3, 4}" using that by auto
    then show ?thesis using pokes_nth [OF ra, of i "0x9fc04 + 20 * i" "e820_bytes (?es ! i)"]
      by (auto simp: x_low_lists x_bios_consts)
  qed
  have nr: "ram_get r' 0x9fc00 4 = Some (le_bytes 4 (5 :: u32))"
    using pokes_nth [OF ra, of 5 "0x9fc00" "le_bytes 4 (5 :: u32)"] by (simp add: x_low_lists x_bios_consts)
  from ram_get_append3 [OF nr, of 20 _ 20] g [of 0] g [of 1] have
    "ram_get r' 0x9fc00 44 = Some (le_bytes 4 (5 :: u32) @ e820_bytes (?es ! 0) @ e820_bytes (?es ! 1))" by simp
  from ram_get_append3 [OF this, of 20 _ 20] g [of 2] g [of 3] have
    "ram_get r' 0x9fc00 84 = Some ((le_bytes 4 (5 :: u32) @ e820_bytes (?es ! 0) @ e820_bytes (?es ! 1)) @ e820_bytes (?es ! 2) @ e820_bytes (?es ! 3))"
    by simp
  from ram_get_append [OF this, of 20] g [of 4] show ?e by (simp add: x_e820_entries_def)
  show ?i using pokes_nth [OF ra, of 10 0 "ivt_bytes x_ivt"] by (simp add: x_low_lists x_bios_consts)
  show "ram_get r' 0xF0000 (length bs) = Some bs" if "f = Some bs" "length bs \<le> 0xd000"
  proof -
    have "x_low_writes f sz ! 3 = (0xF0000, bs)" using that by (simp add: x_low_writes_def x_low_lists x_bios_consts bios_blob_def)
    then show ?thesis using pokes_nth [OF assms, of 3 "0xF0000" bs] that
      by (simp add: x_low_writes_def x_low_lists x_bios_consts bios_blob_def)
  qed
qed

lemma bios_install_ok:
  assumes "read_bios_file w BIOS_BIN_PATH tr = Some (f, tr1)" and "x_nr_vcpus v \<le> 603"
    and "0x100000 \<le> ram_bytes (x_ram v)"
  shows "\<exists>r'. bios_install w v tr = Some (v\<lparr>x_ram := r'\<rparr>, tr1) \<and> x_bios_ready (x_nr_vcpus v) (x_mem_size v) r' \<and>
    touches (x_ram v) r' {0..<0x100000} \<and> (\<forall>bs. f = Some bs \<longrightarrow> length bs \<le> 0xd000 \<longrightarrow> ram_get r' 0xF0000 (length bs) = Some bs)"
proof -
  let ?n = "x_nr_vcpus v" and ?sz = "x_mem_size v" and ?A = "{0..<0x100000 :: nat}"
  have "fits (ram_bytes (x_ram v)) (x_low_writes f ?sz)" using x_low_range [of f ?sz] assms(3) by (auto simp: fits_def list_all_iff)
  from pokes_defined [OF this] obtain r5 where r5: "pokes (x_ram v) (x_low_writes f ?sz) = Some r5" by blast
  have b5: "ram_bytes r5 = ram_bytes (x_ram v)" by (rule pokes_bytes [OF r5])
  from mp_table_built [OF assms(2), of r5] assms(3) b5 obtain r6 where r6: "setup_mp_table ?n r5 = Some r6"
    "ram_get r6 0xFD000 16 = Some (checksummed (fptr_bytes mp_fptr_init) 10)"
    "ram_get r6 0xFD010 (188 + ?n * 20) = Some (checksummed (mp_image ?n) 7)" "touches r5 r6 {0xFD000..<0xFD0CC + ?n * 20}" by auto
  have b6: "ram_bytes r6 = ram_bytes (x_ram v)" using r6(4) b5 by (simp add: touches_def)
  have rl: "reset_vector = [(0xFFFF0, [0xfa]), (0xFFFF1, [0xf4]), (0xFFFF2, replicate 13 0x90)]" by (simp add: reset_vector_def x_bios_consts)
  have "fits (ram_bytes r6) reset_vector" using b6 assms(3) by (simp add: rl)
  from pokes_defined [OF this] obtain r7 where r7: "pokes r6 reset_vector = Some r7" by blast
  have "bios_install w v tr = Some (v\<lparr>x_ram := r7\<rparr>, tr1)"
    using assms(1) r5 [unfolded x_low_writes_def pokes_append_Some] r6(1) r7
    by (auto simp: bios_install_def simp del: pokes.simps)
  moreover have "x_bios_ready ?n ?sz r7"
  proof -
    have k: "ram_get r7 a m = ram_get r6 a m" if "a + m \<le> 0xFFFF0" for a m
      by (rule pokes_clear [OF r7]) (use that in \<open>simp add: rl\<close>)
    have k5: "ram_get r6 a m = ram_get r5 a m" if "a + m \<le> 0xFD000" for a m
      by (rule touches_get [OF r6(4)]) (use that in auto)
    have "ram_get r7 0xFFFF0 1 = Some [0xfa]" "ram_get r7 0xFFFF1 1 = Some [0xf4]" "ram_get r7 0xFFFF2 13 = Some (replicate 13 0x90)"
      using pokes_nth [OF r7, of 0 "0xFFFF0" "[0xfa]"] pokes_nth [OF r7, of 1 "0xFFFF1" "[0xf4]"]
        pokes_nth [OF r7, of 2 "0xFFFF2" "replicate 13 0x90"] by (simp_all add: rl)
    then have "ram_get r7 0xFFFF0 15 = Some (0xfa # 0xf4 # replicate 13 0x90)" using ram_get_append3 [of r7 "0xFFFF0" 1 _ 1 _ 13] by simp
    then show ?thesis using k k5 r6(2,3) x_low_stored(1,2) [OF r5] assms(2) by (simp add: x_bios_ready_def)
  qed
  moreover have "touches (x_ram v) r7 ?A"
  proof -
    have "touches (x_ram v) r5 ?A" by (rule pokes_touches [OF r5 x_low_range])
    moreover have "touches r5 r6 ?A" by (rule touches_mono [OF r6(4)]) (use assms(2) in auto)
    moreover have "touches r6 r7 ?A" by (rule pokes_touches [OF r7]) (simp add: rl)
    ultimately show ?thesis by (blast intro: touches_trans)
  qed
  moreover have "ram_get r7 0xF0000 (length bs) = Some bs" if "f = Some bs" "length bs \<le> 0xd000" for bs
  proof -
    have "ram_get r7 0xF0000 (length bs) = ram_get r6 0xF0000 (length bs)"
      by (rule pokes_clear [OF r7]) (use that in \<open>simp add: rl\<close>)
    also have "\<dots> = ram_get r5 0xF0000 (length bs)" by (rule touches_get [OF r6(4)]) (use that in auto)
    finally show ?thesis using x_low_stored(3) [OF r5 that] by simp
  qed
  ultimately show ?thesis by blast
qed

end
