(* ===== verification/Example_Kernel.thy ===== *)
theory Example_Kernel
  imports Example_Host
begin

text \<open>
  The kernel loader of the example monitor (\<^verbatim>\<open>docs/example-vmm/kernel.c\<close>): the checks of the image, the copies of real-mode setup, protected-mode payload and
  initial RAM disk, the patched setup header and the command line.  The loader compares neither setup nor payload with the
  size of RAM; a copy that leaves RAM is undefined (\<open>None\<close>).
\<close>

section \<open>Fields of the setup header\<close>

text \<open>Offsets of the members of \<^verbatim>\<open>struct setup_header\<close> in the file and behind 10000.\<close>

datatype setup_field = SH_setup_sects | SH_root_flags | SH_syssize | SH_ram_size | SH_vid_mode | SH_root_dev | SH_boot_flag | SH_jump
  | SH_magic | SH_version | SH_realmode_swtch | SH_start_sys | SH_kernel_version | SH_type_of_loader | SH_loadflags | SH_setup_move_size
  | SH_code32_start | SH_ramdisk_image | SH_ramdisk_size | SH_bootsect_kludge | SH_heap_end_ptr | SH_ext_loader_ver | SH_ext_loader_type
  | SH_cmd_line_ptr | SH_initrd_addr_max | SH_kernel_alignment | SH_relocatable_kernel | SH_min_alignment | SH_xloadflags | SH_cmdline_size
  | SH_hardware_subarch | SH_hardware_subarch_data | SH_payload_offset | SH_payload_length | SH_setup_data | SH_pref_address | SH_init_size
  | SH_handover_offset

fun sh_at :: "setup_field \<Rightarrow> nat" where
  "sh_at SH_setup_sects = 0x1f1"
| "sh_at SH_root_flags = 0x1f2"
| "sh_at SH_syssize = 0x1f4"
| "sh_at SH_ram_size = 0x1f8"
| "sh_at SH_vid_mode = 0x1fa"
| "sh_at SH_root_dev = 0x1fc"
| "sh_at SH_boot_flag = 0x1fe"
| "sh_at SH_jump = 0x200"
| "sh_at SH_magic = 0x202"
| "sh_at SH_version = 0x206"
| "sh_at SH_realmode_swtch = 0x208"
| "sh_at SH_start_sys = 0x20c"
| "sh_at SH_kernel_version = 0x20e"
| "sh_at SH_type_of_loader = 0x210"
| "sh_at SH_loadflags = 0x211"
| "sh_at SH_setup_move_size = 0x212"
| "sh_at SH_code32_start = 0x214"
| "sh_at SH_ramdisk_image = 0x218"
| "sh_at SH_ramdisk_size = 0x21c"
| "sh_at SH_bootsect_kludge = 0x220"
| "sh_at SH_heap_end_ptr = 0x224"
| "sh_at SH_ext_loader_ver = 0x226"
| "sh_at SH_ext_loader_type = 0x227"
| "sh_at SH_cmd_line_ptr = 0x228"
| "sh_at SH_initrd_addr_max = 0x22c"
| "sh_at SH_kernel_alignment = 0x230"
| "sh_at SH_relocatable_kernel = 0x234"
| "sh_at SH_min_alignment = 0x235"
| "sh_at SH_xloadflags = 0x236"
| "sh_at SH_cmdline_size = 0x238"
| "sh_at SH_hardware_subarch = 0x23c"
| "sh_at SH_hardware_subarch_data = 0x240"
| "sh_at SH_payload_offset = 0x248"
| "sh_at SH_payload_length = 0x24c"
| "sh_at SH_setup_data = 0x250"
| "sh_at SH_pref_address = 0x258"
| "sh_at SH_init_size = 0x260"
| "sh_at SH_handover_offset = 0x264"

declare sh_at.simps [simp del]


lemmas sh_offs = sh_at.simps

section \<open>The loader\<close>

definition x_file_u16 :: "u8 list \<Rightarrow> nat \<Rightarrow> u16" where
  "x_file_u16 f off = le_val (take 2 (drop off f))"

text \<open>The command line without its terminating zero.\<close>

definition install_cmdline :: "guest_ram \<Rightarrow> u8 list \<Rightarrow> guest_ram option" where
  "install_cmdline r cmdline =
     (let len = (if length cmdline + 1 > 0x1000 then 0x1000 else length cmdline + 1)
      in pokes r [filled 0x20000 0x1000, (0x20000, take (len - 1) cmdline), (0x20000 + len - 1, [0]),
           (0x10000 + sh_at SH_cmd_line_ptr, le_bytes 4 (0x20000 :: u32)), (0x10000 + sh_at SH_cmdline_size, le_bytes 4 (of_nat len :: u32))])"

definition x_setup_size :: "u8 list \<Rightarrow> nat" where
  "x_setup_size f = (let n = unat (f ! (sh_at SH_setup_sects)) in ((if n = 0 then 4 else n) + 1) * 512)"

definition x_kernel_ok :: "u8 list \<Rightarrow> bool" where
  "x_kernel_ok f \<longleftrightarrow> \<not> length f < 0x270 \<and> x_file_u16 f (sh_at SH_boot_flag) = 0xAA55 \<and> take 4 (drop (sh_at SH_magic) f) = bytes ''HdrS'' \<and>
     \<not> x_file_u16 f (sh_at SH_version) < 0x200 \<and> \<not> x_setup_size f > length f \<and> length f - x_setup_size f \<noteq> 0"

definition x_initrd_start :: "u64 \<Rightarrow> nat \<Rightarrow> u64" where
  "x_initrd_start mem_size isize = (mem_size - of_nat isize) AND NOT 0xFFF"

text \<open>
  The RAM disk: \<open>None\<close> if the copy is undefined, otherwise the error or the address and size for the header.
\<close>

definition place_x_initrd :: "u64 \<Rightarrow> nat \<Rightarrow> u8 list \<Rightarrow> guest_ram \<Rightarrow> ((u32 \<times> u32 \<times> guest_ram) option) option" where
  "place_x_initrd mem_size payload_length ibuf r =
     (if unat mem_size < length ibuf then Some None
      else (let start = x_initrd_start mem_size (length ibuf);
                min_start = 0x100000 + of_nat payload_length + 0x100000
            in if start < min_start \<or> start < 0x100000 then Some None
               else map_option (\<lambda>r1. Some (ucast start, of_nat (length ibuf), r1)) (ram_put r (unat start) ibuf)))"

definition x_patch_header :: "guest_ram \<Rightarrow> guest_ram option" where
  "x_patch_header r = do {
     r1 \<leftarrow> ram_put r (0x10000 + sh_at SH_type_of_loader) [0xFF];
     fl \<leftarrow> ram_get r1 (0x10000 + sh_at SH_loadflags) 1;
     r2 \<leftarrow> pokes r1 [(0x10000 + sh_at SH_loadflags, [(hd fl AND NOT 2) OR 0x81]), (0x10000 + sh_at SH_code32_start, le_bytes 4 (0x100000 :: u32)),
       (0x10000 + sh_at SH_vid_mode, le_bytes 2 (0 :: u16)), (0x10000 + sh_at SH_heap_end_ptr, le_bytes 2 (0xfe00 :: u16))];
     al \<leftarrow> ram_u32 r2 (0x10000 + sh_at SH_kernel_alignment);
     if al = 0 then ram_put r2 (0x10000 + sh_at SH_kernel_alignment) (le_bytes 4 (0x1000 :: u32)) else Some r2
   }"

definition finish_header :: "u32 \<Rightarrow> u32 \<Rightarrow> u8 list \<Rightarrow> guest_ram \<Rightarrow> guest_ram option" where
  "finish_header initrd_load initrd_size cmdline r = do {
     r1 \<leftarrow> x_patch_header r;
     r2 \<leftarrow> install_cmdline r1 cmdline;
     pokes r2 [(0x10000 + sh_at SH_ramdisk_image, le_bytes 4 initrd_load), (0x10000 + sh_at SH_ramdisk_size, le_bytes 4 initrd_size)]
   }"

definition kernel_load :: "ex_os \<Rightarrow> string \<Rightarrow> string option \<Rightarrow> u8 list \<Rightarrow> x_vmm \<Rightarrow> ex_log \<Rightarrow> (int \<times> x_vmm \<times> ex_log) option" where
  "kernel_load w kernel_path initrd_path cmdline v tr = do {
     (k, tr1) \<leftarrow> ex_read_file w kernel_path tr;
     case k of
       None \<Rightarrow> Some (-1, v, tr1)
     | Some f \<Rightarrow>
         (if \<not> x_kernel_ok f then Some (-1, v, tr1)
          else do {
            r1 \<leftarrow> pokes (x_ram v) [(0x10000, take (x_setup_size f) f), (0x100000, drop (x_setup_size f) f)];
            case initrd_path of
              None \<Rightarrow> map_option (\<lambda>r. (0, v\<lparr>x_ram := r\<rparr>, tr1)) (finish_header 0 0 cmdline r1)
            | Some path \<Rightarrow> do {
                (i, tr2) \<leftarrow> ex_read_file w path tr1;
                case i of
                  None \<Rightarrow> Some (-1, v\<lparr>x_ram := r1\<rparr>, tr2)
                | Some ibuf \<Rightarrow> do {
                    p \<leftarrow> place_x_initrd (x_mem_size v) (length f - x_setup_size f) ibuf r1;
                    case p of
                      None \<Rightarrow> Some (-1, v\<lparr>x_ram := r1\<rparr>, tr2)
                    | Some (load, sz, r2) \<Rightarrow> map_option (\<lambda>r. (0, v\<lparr>x_ram := r\<rparr>, tr2)) (finish_header load sz cmdline r2)
                  }
              }
          })
   }"

section \<open>The patched header\<close>

definition header_writes :: "u8 \<Rightarrow> u32 \<Rightarrow> u32 \<Rightarrow> u32 \<Rightarrow> u8 list \<Rightarrow> (nat \<times> u8 list) list" where
  "header_writes fl al load sz cmdline =
     [(0x10210, [0xFF]), (0x10211, [(fl AND NOT 2) OR 0x81]), (0x10214, le_bytes 4 (0x100000 :: u32)),
      (0x101fa, le_bytes 2 (0 :: u16)), (0x10224, le_bytes 2 (0xfe00 :: u16)),
      (0x10230, le_bytes 4 (if al = 0 then 0x1000 else al)),
      filled 0x20000 0x1000, (0x20000, cmdline), (0x20000 + length cmdline, [0]),
      (0x10228, le_bytes 4 (0x20000 :: u32)), (0x10238, le_bytes 4 (of_nat (length cmdline + 1) :: u32)),
      (0x10218, le_bytes 4 load), (0x1021c, le_bytes 4 sz)]"

lemma x_patch_header_eq:
  assumes "ram_get r 0x10211 1 = Some [fl]" and "ram_u32 r 0x10230 = Some al"
  shows "x_patch_header r = pokes r (take 6 (header_writes fl al load sz cmdline))"
proof -
  let ?ws = "[(0x10211, [(fl AND NOT 2) OR 0x81]), (0x10214, le_bytes 4 (0x100000 :: u32)),
      (0x101fa, le_bytes 2 (0 :: u16)), (0x10224, le_bytes 2 (0xfe00 :: u16))]"
  let ?al = "le_bytes 4 (if al = 0 then 0x1000 else al)"
  have t: "take 6 (header_writes fl al load sz cmdline) = (0x10210, [0xFF]) # ?ws @ [(0x10230, ?al)]"
    by (simp add: header_writes_def)
  have al: "ram_get r 0x10230 4 = Some (le_bytes 4 al)"
  proof -
    from assms(2) obtain z where z: "ram_get r 0x10230 4 = Some z" "al = le_val z" by (auto simp: ram_u32_def)
    then show ?thesis using le_bytes_le_val [OF guest.get_length [OF z(1)], where 'a = 32] by simp
  qed
  show ?thesis
  proof (cases "ram_put r 0x10210 [0xFF]")
    case None
    then show ?thesis by (simp add: x_patch_header_def sh_offs t)
  next
    case (Some r1)
    have f1: "ram_get r1 0x10211 1 = Some [fl]" "ram_get r1 0x10230 4 = Some (le_bytes 4 al)"
      using guest.get_put_other [OF Some, of "0x10211" 1] guest.get_put_other [OF Some, of "0x10230" 4] assms(1) al by simp_all
    have "x_patch_header r = Option.bind (pokes r1 ?ws) (\<lambda>r2. Option.bind (ram_u32 r2 0x10230)
        (\<lambda>al. if al = 0 then ram_put r2 0x10230 (le_bytes 4 (0x1000 :: u32)) else Some r2))"
      using Some f1(1) unfolding x_patch_header_def sh_offs by (simp cong: if_cong)
    also have "\<dots> = pokes r1 (?ws @ [(0x10230, ?al)])"
    proof (cases "pokes r1 ?ws")
      case None
      then show ?thesis unfolding pokes_append [of r1 ?ws] by (simp del: pokes.simps)
    next
      case (Some r2)
      have "ram_get r2 0x10230 4 = Some (le_bytes 4 al)" using pokes_clear [OF Some, of "0x10230" 4] f1(2) by simp
      moreover from this have "ram_put r2 0x10230 (le_bytes 4 al) = Some r2" by (intro put_same) simp
      ultimately show ?thesis unfolding pokes_append [of r1 ?ws] Some by (auto simp: ram_u32_def split: option.splits)
    qed
    finally show ?thesis using Some by (simp add: t)
  qed
qed

lemma finish_header_eq:
  assumes "ram_get r 0x10211 1 = Some [fl]" and "ram_u32 r 0x10230 = Some al" and "length cmdline < 0x1000"
  shows "finish_header load sz cmdline r = pokes r (header_writes fl al load sz cmdline)"
proof -
  let ?ws = "header_writes fl al load sz cmdline"
  let ?c = "[filled 0x20000 0x1000, (0x20000, cmdline), (0x20000 + length cmdline, [0]),
      (0x10228, le_bytes 4 (0x20000 :: u32)), (0x10238, le_bytes 4 (of_nat (length cmdline + 1) :: u32))]"
  have w: "?ws = take 6 ?ws @ ?c @ [(0x10218, le_bytes 4 load), (0x1021c, le_bytes 4 sz)]" by (simp add: header_writes_def)
  have c: "install_cmdline r1 cmdline = pokes r1 ?c" for r1
    using assms(3) by (simp add: install_cmdline_def sh_offs Let_def del: pokes.simps)
  have "finish_header load sz cmdline r = Option.bind (pokes r (take 6 ?ws)) (\<lambda>r1. Option.bind (pokes r1 ?c)
      (\<lambda>r2. pokes r2 [(0x10218, le_bytes 4 load), (0x1021c, le_bytes 4 sz)]))"
    unfolding finish_header_def x_patch_header_eq [OF assms(1,2), of load sz cmdline] c by (simp add: sh_offs del: pokes.simps)
  also have "\<dots> = pokes r ?ws"
    unfolding pokes_bind w [symmetric] ..
  finally show ?thesis .
qed

section \<open>What is loaded\<close>

lemma unat_align_4K: "unat ((x :: u64) AND NOT 0xFFF) = unat x div 0x1000 * 0x1000"
  using unat_and_not_mask [of 12 x] by (simp add: mask_eq_exp_minus_1)

lemma x_initrd_start_unat:
  assumes "isize \<le> unat mem_size"
  shows "unat (x_initrd_start mem_size isize) = (unat mem_size - isize) div 0x1000 * 0x1000"
proof -
  have l: "isize < 2 ^ 64" using assms unsigned_less [of mem_size, where 'a = nat] by simp
  then have "(of_nat isize :: u64) \<le> mem_size" using assms by (simp add: word_le_nat_alt unat_u64)
  then have "unat (mem_size - of_nat isize) = unat mem_size - isize" using unat_u64 [OF l] by (simp add: unat_sub)
  then show ?thesis unfolding x_initrd_start_def unat_align_4K by simp
qed

lemma place_x_initrd_ok:
  assumes "0x201000 + p + length ibuf \<le> unat mem_size" and "ram_bytes r = unat mem_size" and "unat mem_size < 2 ^ 32"
  defines "a \<equiv> (unat mem_size - length ibuf) div 0x1000 * 0x1000"
  shows "\<exists>r'. place_x_initrd mem_size p ibuf r = Some (Some (of_nat a, of_nat (length ibuf), r')) \<and> ram_put r a ibuf = Some r'"
    and "0x200000 + p \<le> a" and "a + length ibuf \<le> unat mem_size" and "a mod 0x1000 = 0"
proof -
  have s: "unat (x_initrd_start mem_size (length ibuf)) = a" unfolding a_def by (rule x_initrd_start_unat) (use assms(1) in simp)
  have "unat mem_size - length ibuf < a + 0x1000" unfolding a_def
    using div_mod_decomp [of "unat mem_size - length ibuf" "0x1000"] mod_less_divisor [of "0x1000" "unat mem_size - length ibuf"] by linarith
  then show lo: "0x200000 + p \<le> a" using assms(1) by linarith
  show hi: "a + length ibuf \<le> unat mem_size" unfolding a_def using assms(1) by (simp add: le_diff_conv2 [symmetric])
  show "a mod 0x1000 = 0" by (simp add: a_def)
  have m: "unat (0x100000 + of_nat p + 0x100000 :: u64) = 0x200000 + p"
    using unat_u64 [of "0x200000 + p"] assms(1,3) by (simp add: algebra_simps)
  have "\<not> x_initrd_start mem_size (length ibuf) < 0x100000 + of_nat p + 0x100000" "\<not> x_initrd_start mem_size (length ibuf) < 0x100000"
    using lo s m by (simp_all add: word_less_nat_alt)
  moreover from hi assms(2) guest.put_defined [of a ibuf r] obtain r' where r': "ram_put r a ibuf = Some r'" by auto
  moreover have "(ucast (x_initrd_start mem_size (length ibuf)) :: u32) = of_nat a" by (simp flip: s)
  ultimately show "\<exists>r'. place_x_initrd mem_size p ibuf r = Some (Some (of_nat a, of_nat (length ibuf), r')) \<and> ram_put r a ibuf = Some r'"
    using assms(1) s by (auto simp: place_x_initrd_def Let_def)
qed

lemma x_setup_size_bound: "1024 \<le> x_setup_size f" "x_setup_size f \<le> 0x20000"
  unfolding x_setup_size_def Let_def using unsigned_less [of "f ! (sh_at SH_setup_sects)", where 'a = nat] by auto

text \<open>All copies of a successful load, with the RAM disk at \<open>a\<close>.\<close>

definition load_writes :: "u8 list \<Rightarrow> nat \<Rightarrow> u8 list \<Rightarrow> u8 list \<Rightarrow> (nat \<times> u8 list) list" where
  "load_writes f a ibuf cmdline =
     [(0x10000, take (x_setup_size f) f), (0x100000, drop (x_setup_size f) f), (a, ibuf)] @
     header_writes (f ! 0x211) (le_val (take 4 (drop 0x230 f))) (of_nat a) (of_nat (length ibuf)) cmdline"

lemma kernel_load_eq:
  assumes "ex_read_file w kernel_path tr = Some (Some f, tr1)" and "x_kernel_ok f" and "ex_read_file w path tr1 = Some (Some ibuf, tr2)"
    and "ram_bytes (x_ram v) = unat (x_mem_size v)" and "unat (x_mem_size v) < 2 ^ 32" and "length cmdline < 0x1000"
    and "0x201000 + (length f - x_setup_size f) + length ibuf \<le> unat (x_mem_size v)"
  defines "a \<equiv> (unat (x_mem_size v) - length ibuf) div 0x1000 * 0x1000"
  shows "\<exists>r. pokes (x_ram v) (load_writes f a ibuf cmdline) = Some r \<and>
    kernel_load w kernel_path (Some path) cmdline v tr = Some (0, v\<lparr>x_ram := r\<rparr>, tr2)"
proof -
  let ?p = "length f - x_setup_size f" and ?k = "[(0x10000, take (x_setup_size f) f), (0x100000, drop (x_setup_size f) f)]"
  let ?h = "header_writes (f ! 0x211) (le_val (take 4 (drop 0x230 f))) (of_nat a) (of_nat (length ibuf)) cmdline"
  have sf: "x_setup_size f \<le> length f" using assms(2) by (simp add: x_kernel_ok_def)
  note sb = x_setup_size_bound [of f]
  obtain q where q: "length f = x_setup_size f + q" using sf le_Suc_ex by blast
  have "fits (ram_bytes (x_ram v)) ?k" using assms(4,7) sb by (simp add: q)
  from pokes_defined [OF this] obtain r1 where r1: "pokes (x_ram v) ?k = Some r1" by blast
  have b1: "ram_bytes r1 = unat (x_mem_size v)" using pokes_bytes [OF r1] assms(4) by simp
  note pl = place_x_initrd_ok [OF assms(7) b1 assms(5), folded a_def]
  from pl(1) obtain r2 where r2: "place_x_initrd (x_mem_size v) ?p ibuf r1 = Some (Some (of_nat a, of_nat (length ibuf), r2))" "ram_put r1 a ibuf = Some r2" by blast
  have p2: "pokes (x_ram v) (?k @ [(a, ibuf)]) = Some r2" using r1 r2(2) by (simp only: pokes_append option.case) simp
  have s: "ram_get r2 b m = Some (take m (drop (b - 0x10000) f))" if "0x10000 \<le> b" "b + m \<le> 0x10000 + x_setup_size f" for b m
  proof -
    have "m \<le> x_setup_size f - (b - 0x10000)" using that by linarith
    then have "take m (drop (b - 0x10000) (take (x_setup_size f) f)) = take m (drop (b - 0x10000) f)" by (simp add: drop_take)
    then show ?thesis using pokes_nth_sub [OF p2, of 0 "0x10000" "take (x_setup_size f) f" b m] that sf sb pl(2) by simp
  qed
  have fl: "ram_get r2 0x10211 1 = Some [f ! 0x211]" using s [of "0x10211" 1] sb sf by (simp add: take_Suc_conv_app_nth Cons_nth_drop_Suc [symmetric])
  have al: "ram_u32 r2 0x10230 = Some (le_val (take 4 (drop 0x230 f)))" using s [of "0x10230" 4] sb by (simp add: ram_u32_def)
  have "fits (ram_bytes r2) ?h" using b1 guest.put_size [OF r2(2)] assms(6,7) by (simp add: header_writes_def filled_def)
  from pokes_defined [OF this] obtain r where r: "pokes r2 ?h = Some r" by blast
  have "pokes (x_ram v) (load_writes f a ibuf cmdline) = Some r"
  proof -
    have "load_writes f a ibuf cmdline = (?k @ [(a, ibuf)]) @ ?h" by (simp add: load_writes_def)
    then show ?thesis using p2 r by (simp only: pokes_append [of _ "?k @ [(a, ibuf)]"] option.case)
  qed
  moreover have "kernel_load w kernel_path (Some path) cmdline v tr = Some (0, v\<lparr>x_ram := r\<rparr>, tr2)"
    unfolding kernel_load_def assms(1) using assms(2,3) r1 r2(1) r finish_header_eq [OF fl al assms(6)]
    by (simp del: pokes.simps)
  ultimately show ?thesis by blast
qed


text \<open>The smallest kernel: one sector of setup behind the boot sector and one byte of payload.\<close>

definition tiny_kernel :: "u8 list" where
  "tiny_kernel = replicate 0x1f1 0 @ [1] @ replicate 12 0 @ [0x55, 0xAA, 0, 0] @ bytes ''HdrS'' @ [0, 2] @ replicate 0x1f9 0x11"

lemma length_tiny_kernel: "length tiny_kernel = 1025"
  by (simp add: tiny_kernel_def)

lemma tiny_kernel_ok: "x_kernel_ok tiny_kernel" "x_setup_size tiny_kernel = 1024"
proof -
  have "tiny_kernel ! 0x1f1 = 1" by (simp add: tiny_kernel_def nth_append)
  then show s: "x_setup_size tiny_kernel = 1024" by (simp add: x_setup_size_def sh_offs)
  have d: "drop 0x1fe tiny_kernel = [0x55, 0xAA, 0, 0] @ bytes ''HdrS'' @ [0, 2] @ replicate 0x1f9 0x11" by (simp add: tiny_kernel_def)
  have "drop 0x202 tiny_kernel = drop 4 (drop 0x1fe tiny_kernel)" "drop 0x206 tiny_kernel = drop 8 (drop 0x1fe tiny_kernel)" by simp_all
  then have "take 2 (drop 0x1fe tiny_kernel) = [0x55, 0xAA]" "take 4 (drop 0x202 tiny_kernel) = bytes ''HdrS''" "take 2 (drop 0x206 tiny_kernel) = [0, 2]"
    by (simp_all add: d)
  then show "x_kernel_ok tiny_kernel" using s by (simp add: x_kernel_ok_def x_file_u16_def sh_offs length_tiny_kernel)
qed

definition demo_machine :: x_vmm where
  "demo_machine = zero_vmm\<lparr>x_mem_size := 0x800000, x_ram := fresh_ram 0x800000, x_nr_vcpus := 2\<rparr>"

definition demo_files :: "string \<Rightarrow> u8 list" where
  "demo_files p = (if p = ''bzImage'' then tiny_kernel else if p = ''initrd'' then [1, 2, 3] else [0x90])"


text \<open>A payload that does not fit is copied past the end of RAM before any size is compared.\<close>

lemma x_kernel_overrun:
  assumes "ex_read_file w kernel_path tr = Some (Some f, tr1)" and "x_kernel_ok f"
    and "ram_bytes (x_ram v) < 0x100000 + (length f - x_setup_size f)"
  shows "kernel_load w kernel_path initrd_path cmdline v tr = None"
proof -
  have "ram_put r 0x100000 (drop (x_setup_size f) f) = None" if "ram_bytes r = ram_bytes (x_ram v)" for r
    using guest.put_None [of r "0x100000" "drop (x_setup_size f) f"] that assms(3) by simp
  then have "pokes (x_ram v) [(0x10000, take (x_setup_size f) f), (0x100000, drop (x_setup_size f) f)] = None"
    by (simp add: guest.put_size split: option.splits)
  then show ?thesis using assms(1,2) by (simp add: kernel_load_def del: pokes.simps)
qed

end
