(* ===== verification/Example_Devices.thy ===== *)
theory Example_Devices
  imports Example_Host
begin

text \<open>
  Port-mapped devices of the example monitor (\<^verbatim>\<open>docs/example-vmm/vmm.c\<close>): the IDE controller, the serial port and the exit handler
  \<open>vmm_handle_io\<close>.  A read of the sector buffer outside its 256 words is undefined (\<open>None\<close>).
\<close>

section \<open>IDE\<close>

text \<open>The sector buffer as bytes in memory.\<close>

fun words_of :: "u8 list \<Rightarrow> u16 list" where
  "words_of (a # b # bs) = le_val [a, b] # words_of bs"
| "words_of bs = []"

definition bytes_of :: "u16 list \<Rightarrow> u8 list" where
  "bytes_of ws = concat (map (le_bytes 2) ws)"

definition ide_lba :: "x_ide \<Rightarrow> u32" where
  "ide_lba i = push_bit 24 (ucast (i_drive_head i AND 0x0f)) OR push_bit 16 (ucast (i_lba_high i)) OR
     push_bit 8 (ucast (i_lba_mid i)) OR ucast (i_lba_low i)"

definition ide_load_sector :: "ex_os \<Rightarrow> x_disk \<Rightarrow> u32 \<Rightarrow> x_ide \<Rightarrow> ex_log \<Rightarrow> x_ide \<times> ex_log" where
  "ide_load_sector w d lba i tr =
     (let off = int (unat lba) * 512
      in if off + 512 > sint (disk_size d) \<or> disk_fd d < 0 then (i\<lparr>i_data := replicate 256 0\<rparr>, tr)
         else (let c = X_pread (disk_fd d) 512 off; n = eo_ret w tr c; n = (if n < 0 then 0 else n)
               in (i\<lparr>i_data := words_of (fixed 512 (take (nat n) (eo_data w tr c))), i_data_pos := 0, i_data_len := 256\<rparr>, tr @ [c])))"

definition ide_store_sector :: "x_disk \<Rightarrow> u32 \<Rightarrow> x_ide \<Rightarrow> ex_log \<Rightarrow> ex_log" where
  "ide_store_sector d lba i tr =
     (if disk_fd d < 0 then tr
      else (let off = int (unat lba) * 512
            in if off + 512 > sint (disk_size d) then tr else tr @ [X_pwrite (disk_fd d) (bytes_of (i_data i)) off]))"

definition ide_identify :: "x_disk \<Rightarrow> x_ide \<Rightarrow> x_ide" where
  "ide_identify d i =
     i\<lparr>i_data := (replicate 256 0)[0 := 0x0040, 49 := 0x0200, 60 := ucast (disk_num_sectors d AND 0xffff),
         61 := ucast (drop_bit 16 (disk_num_sectors d))],
       i_data_pos := 0, i_data_len := 256, i_status := 0x58, i_error := 0\<rparr>"

definition ide_command :: "ex_os \<Rightarrow> x_disk \<Rightarrow> u8 \<Rightarrow> x_ide \<Rightarrow> ex_log \<Rightarrow> x_ide \<times> ex_log" where
  "ide_command w d cmd i tr =
     (if cmd = 0x20 then
        (let lba = ide_lba i; i1 = i\<lparr>i_nsect := (if i_nsect i = 0 then 1 else i_nsect i), i_lba := lba\<rparr>;
             (i2, tr1) = ide_load_sector w d lba i1 tr
         in (i2\<lparr>i_status := 0x58, i_error := 0\<rparr>, tr1))
      else if cmd = 0x30 then
        (i\<lparr>i_nsect := (if i_nsect i = 0 then 1 else i_nsect i), i_lba := ide_lba i, i_data_pos := 0, i_data_len := 256,
           i_status := 0x58, i_error := 0\<rparr>, tr)
      else if cmd = 0xec then (ide_identify d i, tr)
      else if cmd = 0x08 \<or> cmd = 0xef \<or> cmd = 0x00 \<or> cmd = 0x70 then (i\<lparr>i_status := 0x50, i_error := 0\<rparr>, tr)
      else (i\<lparr>i_status := 0x51, i_error := 0x04\<rparr>, tr))"

text \<open>\<^verbatim>\<open>return vmm->ide_data[vmm->ide_data_pos++]\<close>\<close>

definition ide_fetch :: "x_ide \<Rightarrow> (u16 \<times> x_ide) option" where
  "ide_fetch i = (if i_data_pos i < length (i_data i) then Some (i_data i ! i_data_pos i, i\<lparr>i_data_pos := i_data_pos i + 1\<rparr>) else None)"

definition ide_data_in :: "ex_os \<Rightarrow> x_disk \<Rightarrow> x_ide \<Rightarrow> ex_log \<Rightarrow> (u16 \<times> x_ide \<times> ex_log) option" where
  "ide_data_in w d i tr =
     (if i_data_len i \<le> i_data_pos i then
        (if 0 < i_nsect i then
           (let i1 = i\<lparr>i_nsect := i_nsect i - 1\<rparr>
            in if 0 < i_nsect i1 then
                 (let i2 = i1\<lparr>i_lba := i_lba i1 + 1\<rparr>; (i3, tr1) = ide_load_sector w d (i_lba i2) i2 tr
                  in map_option (\<lambda>(x, i4). (x, i4, tr1)) (ide_fetch i3))
               else Some (0, i1\<lparr>i_status := 0x50, i_data_len := 0\<rparr>, tr))
         else Some (0, i, tr))
      else map_option (\<lambda>(x, i1). (x, i1, tr)) (ide_fetch i))"

definition ide_data_out :: "x_disk \<Rightarrow> u16 \<Rightarrow> x_ide \<Rightarrow> ex_log \<Rightarrow> x_ide \<times> ex_log" where
  "ide_data_out d val i tr =
     (let i1 = (if i_data_pos i < 256 then i\<lparr>i_data := (i_data i)[i_data_pos i := val], i_data_pos := i_data_pos i + 1\<rparr> else i)
      in if i_data_pos i1 = 256 then
           (if 0 < i_nsect i1 then
              (let tr1 = ide_store_sector d (i_lba i1) i1 tr; i2 = i1\<lparr>i_nsect := i_nsect i1 - 1\<rparr>
               in if 0 < i_nsect i2 then (i2\<lparr>i_lba := i_lba i2 + 1, i_data_pos := 0, i_data_len := 256, i_status := 0x58\<rparr>, tr1)
                  else (i2\<lparr>i_status := 0x50, i_data_len := 0\<rparr>, tr1))
            else (i1\<lparr>i_status := 0x50, i_data_len := 0\<rparr>, tr))
         else (i1, tr))"

text \<open>
  An access of \<open>size\<close> bytes to a port; of the data area of an input, the bytes that are returned are overwritten and the others stay.
\<close>

definition ide_in :: "ex_os \<Rightarrow> x_disk \<Rightarrow> u16 \<Rightarrow> nat \<Rightarrow> x_ide \<Rightarrow> ex_log \<Rightarrow> (u8 list \<times> x_ide \<times> ex_log) option" where
  "ide_in w d port sz i tr =
     (if port = 0x1f0 \<and> sz = 2 then
        map_option (\<lambda>(val, i1, tr1). ([ucast (val AND 0xff), ucast (drop_bit 8 val)], i1, tr1)) (ide_data_in w d i tr)
      else Some ([if port = 0x1f1 then i_error i
                  else if port = 0x1f2 then i_nsect i
                  else if port = 0x1f3 then i_lba_low i
                  else if port = 0x1f4 then i_lba_mid i
                  else if port = 0x1f5 then i_lba_high i
                  else if port = 0x1f6 then i_drive_head i
                  else if port = 0x1f7 then i_status i
                  else if port = 0x3f6 then i_status i
                  else 0xff], i, tr))"

definition ide_out :: "ex_os \<Rightarrow> x_disk \<Rightarrow> u16 \<Rightarrow> u8 list \<Rightarrow> x_ide \<Rightarrow> ex_log \<Rightarrow> x_ide \<times> ex_log" where
  "ide_out w d port data i tr =
     (if port = 0x1f0 \<and> length data = 2 then ide_data_out d (ucast (data ! 0) OR push_bit 8 (ucast (data ! 1))) i tr
      else if port = 0x1f2 then (i\<lparr>i_nsect := data ! 0\<rparr>, tr)
      else if port = 0x1f3 then (i\<lparr>i_lba_low := data ! 0\<rparr>, tr)
      else if port = 0x1f4 then (i\<lparr>i_lba_mid := data ! 0\<rparr>, tr)
      else if port = 0x1f5 then (i\<lparr>i_lba_high := data ! 0\<rparr>, tr)
      else if port = 0x1f6 then (i\<lparr>i_drive_head := data ! 0\<rparr>, tr)
      else if port = 0x1f7 then ide_command w d (data ! 0) i tr
      else if port = 0x3f6 then (i\<lparr>i_control := data ! 0\<rparr>, tr)
      else (i, tr))"

section \<open>Serial port\<close>

definition x_dlab :: "x_uart \<Rightarrow> bool" where
  "x_dlab u \<longleftrightarrow> c_lcr u AND 0x80 \<noteq> 0"

definition x_serial_in :: "u16 \<Rightarrow> x_uart \<Rightarrow> u8" where
  "x_serial_in port u =
     (if port = 0x3f8 then (if x_dlab u then c_dll u else 0)
      else if port = 0x3f9 then (if x_dlab u then c_dlh u else c_ier u)
      else if port = 0x3fa then (if c_ier u AND 2 \<noteq> 0 then 2 else 1)
      else if port = 0x3fb then c_lcr u
      else if port = 0x3fc then c_mcr u
      else if port = 0x3fd then c_lsr u
      else if port = 0x3fe then c_msr u
      else if port = 0x3ff then c_scr u
      else 0)"

definition x_serial_out :: "int \<Rightarrow> u16 \<Rightarrow> x_uart \<times> ex_log \<Rightarrow> u8 \<Rightarrow> x_uart \<times> ex_log" where
  "x_serial_out vm_fd port s data =
     (case s of (u, tr) \<Rightarrow>
        (if port = 0x3f8 then
           (if x_dlab u then (u\<lparr>c_dll := data\<rparr>, tr)
            else (u, tr @ [X_putchar data] @ (if c_ier u AND 2 \<noteq> 0 then [X_irq_line vm_fd 4 1] else [])))
         else if port = 0x3f9 then (if x_dlab u then (u\<lparr>c_dlh := data\<rparr>, tr) else (u\<lparr>c_ier := data\<rparr>, tr))
         else if port = 0x3fa then (u\<lparr>c_fcr := data\<rparr>, tr)
         else if port = 0x3fb then (u\<lparr>c_lcr := data\<rparr>, tr)
         else if port = 0x3fc then (u\<lparr>c_mcr := data\<rparr>, tr)
         else if port = 0x3ff then (u\<lparr>c_scr := data\<rparr>, tr)
         else (u, tr)))"

section \<open>Port exits\<close>

datatype io_direction = Io_in | Io_out

text \<open>The members of \<open>run->io\<close>, with the data area as a list of \<open>count\<close> items, each of \<open>size\<close> bytes.\<close>

record x_io =
  io_direction :: io_direction
  io_port :: u16
  io_items :: "u8 list list"

definition is_serial :: "u16 \<Rightarrow> bool" where "is_serial p \<longleftrightarrow> 0x3f8 \<le> p \<and> p \<le> 0x3ff"
definition is_ide :: "u16 \<Rightarrow> bool" where "is_ide p \<longleftrightarrow> p = 0x1f0 \<or> 0x1f1 \<le> p \<and> p \<le> 0x1f7 \<or> p = 0x3f6"

definition io_out_item :: "ex_os \<Rightarrow> u16 \<Rightarrow> u8 list \<Rightarrow> x_vmm \<times> ex_log \<Rightarrow> x_vmm \<times> ex_log" where
  "io_out_item w port p s =
     (case s of (v, tr) \<Rightarrow>
        if is_serial port then (let (u, tr1) = foldl (x_serial_out (x_vm_fd v) port) (x_com1 v, tr) p in (v\<lparr>x_com1 := u\<rparr>, tr1))
        else if is_ide port then (let (i, tr1) = ide_out w (x_disk v) port p (x_ide v) tr in (v\<lparr>x_ide := i\<rparr>, tr1))
        else if port = 0xE9 then (v, tr @ map X_errputc p)
        else (v, tr))"

definition io_in_item :: "ex_os \<Rightarrow> u16 \<Rightarrow> u8 list \<Rightarrow> x_vmm \<Rightarrow> ex_log \<Rightarrow> (u8 list \<times> x_vmm \<times> ex_log) option" where
  "io_in_item w port p v tr =
     (if is_serial port then Some (map (\<lambda>_. x_serial_in port (x_com1 v)) p, v, tr)
      else if is_ide port then
        map_option (\<lambda>(bs, i, tr1). (bs @ drop (length bs) p, v\<lparr>x_ide := i\<rparr>, tr1)) (ide_in w (x_disk v) port (length p) (x_ide v) tr)
      else Some (map (\<lambda>_. 0) p, v, tr))"

fun io_in_items :: "ex_os \<Rightarrow> u16 \<Rightarrow> u8 list list \<Rightarrow> x_vmm \<Rightarrow> ex_log \<Rightarrow> (u8 list list \<times> x_vmm \<times> ex_log) option" where
  "io_in_items w port [] v tr = Some ([], v, tr)"
| "io_in_items w port (p # ps) v tr =
     (case io_in_item w port p v tr of
        None \<Rightarrow> None
      | Some (q, v1, tr1) \<Rightarrow> map_option (\<lambda>(qs, v2, tr2). (q # qs, v2, tr2)) (io_in_items w port ps v1 tr1))"

definition vmm_handle_io :: "ex_os \<Rightarrow> x_io \<Rightarrow> x_vmm \<Rightarrow> ex_log \<Rightarrow> (x_io \<times> x_vmm \<times> ex_log) option" where
  "vmm_handle_io w e v tr =
     (case io_direction e of
        Io_out \<Rightarrow> (let (v1, tr1) = foldl (\<lambda>s p. io_out_item w (io_port e) p s) (v, tr) (io_items e) in Some (e, v1, tr1))
      | Io_in \<Rightarrow> map_option (\<lambda>(qs, v1, tr1). (e\<lparr>io_items := qs\<rparr>, v1, tr1)) (io_in_items w (io_port e) (io_items e) v tr))"

section \<open>Bytes and words\<close>

lemma words_of_append: "length xs = 2 * n \<Longrightarrow> words_of (xs @ ys) = words_of xs @ words_of ys"
proof (induction n arbitrary: xs)
  case (Suc n)
  then obtain a b zs where "xs = a # b # zs" "length zs = 2 * n" by (auto simp: length_Suc_conv)
  with Suc show ?case by simp
qed simp

lemma length_words_of: "length bs = 2 * n \<Longrightarrow> length (words_of bs) = n"
proof (induction n arbitrary: bs)
  case (Suc n)
  then obtain a b zs where "bs = a # b # zs" "length zs = 2 * n" by (auto simp: length_Suc_conv)
  with Suc show ?case by simp
qed simp

lemma bytes_of_words_of: "length bs = 2 * n \<Longrightarrow> bytes_of (words_of bs) = bs"
proof (induction n arbitrary: bs)
  case (Suc n)
  then obtain a b zs where z: "bs = a # b # zs" "length zs = 2 * n" by (auto simp: length_Suc_conv)
  have "le_bytes 2 (le_val [a, b] :: u16) = [a, b]" by (rule le_bytes_le_val) simp_all
  with Suc z show ?case by (simp add: bytes_of_def)
qed (simp add: bytes_of_def)

lemma length_bytes_of [simp]: "length (bytes_of ws) = 2 * length ws"
  by (induction ws) (simp_all add: bytes_of_def)

lemma bytes_of_append: "bytes_of (xs @ ys) = bytes_of xs @ bytes_of ys"
  by (simp add: bytes_of_def)

lemma word_port_bytes: "[ucast (x AND 0xff), ucast (drop_bit 8 x)] = le_bytes 2 (x :: u16)"
proof -
  have m: "(0xff :: u16) = mask 8" by (simp add: mask_eq_exp_minus_1)
  have "ucast (x AND 0xff) = (ucast x :: u8)" unfolding m by (rule bit_word_eqI) (auto simp: bit_simps)
  then show ?thesis by (simp add: le_bytes_def word_byte_def upt_rec)
qed

lemma port_word: "length p = 2 \<Longrightarrow> ucast (p ! 0) OR push_bit 8 (ucast (p ! 1)) = (le_val p :: u16)"
  by (auto simp: length_Suc_conv numeral_2_eq_2)

section \<open>The disk behind the image\<close>

text \<open>
  What the image holds after a log of calls, if every write succeeds, and a host that keeps it: reads inside the image are
  complete and return what was written last.
\<close>

definition disk_write :: "int \<Rightarrow> (nat \<Rightarrow> u8) \<Rightarrow> ex_call \<Rightarrow> nat \<Rightarrow> u8" where
  "disk_write fd D c = (case c of X_pwrite fd' bs off \<Rightarrow> (if fd' = fd then mem_poke D (nat off) bs else D) | _ \<Rightarrow> D)"

definition replay :: "int \<Rightarrow> (nat \<Rightarrow> u8) \<Rightarrow> ex_log \<Rightarrow> nat \<Rightarrow> u8" where
  "replay fd D tr = foldl (disk_write fd) D tr"

definition disk_host :: "ex_os \<Rightarrow> int \<Rightarrow> nat \<Rightarrow> (nat \<Rightarrow> u8) \<Rightarrow> bool" where
  "disk_host w fd sz D \<longleftrightarrow> (\<forall>tr n off. off + n \<le> sz \<longrightarrow>
     eo_ret w tr (X_pread fd n (int off)) = int n \<and> eo_data w tr (X_pread fd n (int off)) = map (replay fd D tr) [off..<off + n])"

lemma replay_append [simp]: "replay fd D (tr @ tr') = replay fd (replay fd D tr) tr'"
  by (simp add: replay_def)

lemma replay_simps [simp]:
  "replay fd D [] = D" "replay fd D [X_pread a b c] = D" "replay fd D [X_pwrite fd bs off] = mem_poke D (nat off) bs"
  by (simp_all add: replay_def disk_write_def)

section \<open>Sectors\<close>

text \<open>The image as the controller uses it: descriptor and size are sound, and sector \<open>s\<close> lies inside it.\<close>

definition disk_ok :: "x_disk \<Rightarrow> bool" where
  "disk_ok d \<longleftrightarrow> 0 \<le> disk_fd d \<and> unat (disk_size d) < 2 ^ 63"

definition sector_in :: "x_disk \<Rightarrow> nat \<Rightarrow> bool" where
  "sector_in d s \<longleftrightarrow> s * 512 + 512 \<le> unat (disk_size d) \<and> s < 2 ^ 32"

definition sector_words :: "(nat \<Rightarrow> u8) \<Rightarrow> nat \<Rightarrow> u16 list" where
  "sector_words D s = words_of (map D [s * 512..<s * 512 + 512])"

lemma length_sector_words [simp]: "length (sector_words D s) = 256"
  unfolding sector_words_def by (rule length_words_of) simp

lemma sint_disk_size: "unat x < 2 ^ 63 \<Longrightarrow> sint (x :: u64) = int (unat x)"
proof -
  assume l: "unat x < 2 ^ 63"
  have "- (2 ^ 63) \<le> uint x" by (rule order_trans [of _ 0]) simp_all
  moreover have "int (unat x) < int (2 ^ 63)" using l by (simp only: of_nat_less_iff)
  ultimately have "signed_take_bit 63 (uint x) = uint x" by (intro signed_take_bit_int_eq_self) simp_all
  then show ?thesis by (simp add: sint_uint)
qed

lemma past_size: "unat x < 2 ^ 63 \<Longrightarrow> sint (x :: u64) < int s * 512 + 512 \<longleftrightarrow> \<not> s * 512 + 512 \<le> unat x"
  unfolding sint_disk_size by linarith

lemma ide_load_sector_in:
  assumes "disk_ok d" and "sector_in d s" and "disk_host w (disk_fd d) (unat (disk_size d)) D"
  shows "ide_load_sector w d (of_nat s) i tr =
    (i\<lparr>i_data := sector_words (replay (disk_fd d) D tr) s, i_data_pos := 0, i_data_len := 256\<rparr>, tr @ [X_pread (disk_fd d) 512 (int (s * 512))])"
proof -
  have s: "unat (of_nat s :: u32) = s" using assms(2) by (intro unat_u32) (simp add: sector_in_def)
  have h: "eo_ret w tr (X_pread (disk_fd d) 512 (int (s * 512))) = 512"
    "eo_data w tr (X_pread (disk_fd d) 512 (int (s * 512))) = map (replay (disk_fd d) D tr) [s * 512..<s * 512 + 512]"
    using assms(2,3) by (simp_all add: disk_host_def sector_in_def del: of_nat_mult)
  have f: "take 512 (map (replay (disk_fd d) D tr) [s * 512..<s * 512 + 512]) = map (replay (disk_fd d) D tr) [s * 512..<s * 512 + 512]" by simp
  show ?thesis
    using assms(1,2) h f s past_size [of "disk_size d" s]
    by (simp add: ide_load_sector_def Let_def disk_ok_def sector_in_def sector_words_def)
qed

lemma ide_load_sector_out:
  assumes "disk_ok d" and "s < 2 ^ 32" and "\<not> sector_in d s"
  shows "ide_load_sector w d (of_nat s) i tr = (i\<lparr>i_data := replicate 256 0\<rparr>, tr)"
  using assms unat_u32 [of s] past_size [of "disk_size d" s]
  by (simp add: ide_load_sector_def Let_def disk_ok_def sector_in_def)

section \<open>Reading sectors\<close>

text \<open>A run of reads of the data port, as the string instruction of a driver makes them.\<close>

fun ide_ins :: "ex_os \<Rightarrow> x_disk \<Rightarrow> nat \<Rightarrow> x_ide \<Rightarrow> ex_log \<Rightarrow> (u16 list \<times> x_ide \<times> ex_log) option" where
  "ide_ins w d 0 i tr = Some ([], i, tr)"
| "ide_ins w d (Suc m) i tr =
     (case ide_data_in w d i tr of
        None \<Rightarrow> None
      | Some (x, i1, tr1) \<Rightarrow> map_option (\<lambda>(xs, i2, tr2). (x # xs, i2, tr2)) (ide_ins w d m i1 tr1))"

lemma ide_ins_add:
  "ide_ins w d (m + n) i tr =
     (case ide_ins w d m i tr of
        None \<Rightarrow> None
      | Some (xs, i1, tr1) \<Rightarrow> map_option (\<lambda>(ys, i2, tr2). (xs @ ys, i2, tr2)) (ide_ins w d n i1 tr1))"
proof (induction m arbitrary: i tr)
  case 0
  then show ?case by (simp add: option.map_id)
next
  case (Suc m)
  then show ?case by (auto simp: option.map_comp comp_def case_prod_beta split: option.splits)
qed

lemma ide_ins_buffer:
  assumes "i_data_len i = 256" and "length (i_data i) = 256" and "i_data_pos i + m \<le> 256"
  shows "ide_ins w d m i tr = Some (take m (drop (i_data_pos i) (i_data i)), i\<lparr>i_data_pos := i_data_pos i + m\<rparr>, tr)"
  using assms
proof (induction m arbitrary: i)
  case (Suc m)
  then have "i_data_pos i < 256" by simp
  then have "ide_data_in w d i tr = Some (i_data i ! i_data_pos i, i\<lparr>i_data_pos := i_data_pos i + 1\<rparr>, tr)"
    using Suc.prems by (simp add: ide_data_in_def ide_fetch_def)
  moreover have "take (Suc m) (drop (i_data_pos i) (i_data i)) = i_data i ! i_data_pos i # take m (drop (Suc (i_data_pos i)) (i_data i))"
    using \<open>i_data_pos i < 256\<close> Suc.prems(2) by (simp add: Cons_nth_drop_Suc [symmetric])
  ultimately show ?case using Suc.prems Suc.IH [of "i\<lparr>i_data_pos := Suc (i_data_pos i)\<rparr>"] by simp
qed simp

lemma nsect_pred: "0 < k \<Longrightarrow> k < 256 \<Longrightarrow> (of_nat k :: u8) - 1 = of_nat (k - 1) \<and> (0 < (of_nat k :: u8))"
  by (simp add: of_nat_diff word_greater_zero_iff word_of_nat_eq_0_iff nat_dvd_not_less)

text \<open>The controller in the middle of a read: sector \<open>s\<close> is in the buffer, \<open>k\<close> sectors including it are to be read.\<close>

definition reading :: "x_disk \<Rightarrow> (nat \<Rightarrow> u8) \<Rightarrow> nat \<Rightarrow> nat \<Rightarrow> x_ide \<Rightarrow> bool" where
  "reading d D s k i \<longleftrightarrow> i_lba i = of_nat s \<and> i_nsect i = of_nat k \<and> i_data i = sector_words D s \<and> i_data_len i = 256 \<and> i_data_pos i = 0"

lemma ide_next_sector:
  assumes "disk_ok d" and "sector_in d (s + 1)" and "disk_host w (disk_fd d) (unat (disk_size d)) D"
    and "reading d (replay (disk_fd d) D tr) s k i" and "2 \<le> k" and "k < 256"
  shows "\<exists>i'. ide_ins w d (Suc m) (i\<lparr>i_data_pos := 256\<rparr>) tr = ide_ins w d (Suc m) i' (tr @ [X_pread (disk_fd d) 512 (int ((s + 1) * 512))]) \<and>
    reading d (replay (disk_fd d) D tr) (s + 1) (k - 1) i' \<and> i_status i' = i_status i"
proof -
  let ?i1 = "i\<lparr>i_data_pos := 256, i_nsect := of_nat (k - 1), i_lba := of_nat (s + 1)\<rparr>"
  let ?i' = "?i1\<lparr>i_data := sector_words (replay (disk_fd d) D tr) (s + 1), i_data_pos := 0, i_data_len := 256\<rparr>"
  let ?tr' = "tr @ [X_pread (disk_fd d) 512 (int ((s + 1) * 512))]"
  have n: "(of_nat k :: u8) - 1 = of_nat (k - 1)" "(0 :: u8) < of_nat k" "(0 :: u8) < of_nat (k - 1)"
    using nsect_pred [of k] nsect_pred [of "k - 1"] assms(5,6) by auto
  have "ide_data_in w d (i\<lparr>i_data_pos := 256\<rparr>) tr = map_option (\<lambda>(x, i4). (x, i4, ?tr')) (ide_fetch ?i')"
    using ide_load_sector_in [OF assms(1,2,3), of ?i1 tr] assms(4) n
    by (simp add: ide_data_in_def reading_def Let_def add.commute)
  also have "\<dots> = ide_data_in w d ?i' ?tr'" by (simp add: ide_data_in_def)
  finally have "ide_ins w d (Suc m) (i\<lparr>i_data_pos := 256\<rparr>) tr = ide_ins w d (Suc m) ?i' ?tr'" by simp
  moreover have "reading d (replay (disk_fd d) D tr) (s + 1) (k - 1) ?i'" by (simp add: reading_def)
  ultimately show ?thesis by (intro exI [of _ ?i']) simp
qed

lemma ide_sectors_read:
  assumes "disk_ok d" and "disk_host w (disk_fd d) (unat (disk_size d)) D" and "1 \<le> k" and "k < 256"
    and "reading d (replay (disk_fd d) D tr) s k i" and "\<forall>j < k. sector_in d (s + j)"
  shows "\<exists>i' tr'. ide_ins w d (256 * k) i tr = Some (concat (map (sector_words (replay (disk_fd d) D tr)) [s..<s + k]), i', tr') \<and>
    replay (disk_fd d) D tr' = replay (disk_fd d) D tr \<and> i_data_pos i' = 256 \<and> i_data_len i' = 256 \<and> i_nsect i' = 1 \<and> i_status i' = i_status i"
  using assms(3-6)
proof (induction k arbitrary: s i tr rule: nat_induct_at_least)
  case base
  then have "ide_ins w d 256 i tr = Some (i_data i, i\<lparr>i_data_pos := 256\<rparr>, tr)"
    using ide_ins_buffer [of i 256 w d tr] by (simp add: reading_def)
  with base show ?case by (auto simp: reading_def)
next
  case (Suc k)
  have r: "i_data_len i = 256" "length (i_data i) = 256" "i_data_pos i = 0" "i_data i = sector_words (replay (disk_fd d) D tr) s"
    using Suc.prems(2) by (simp_all add: reading_def)
  obtain m where m: "256 * k = Suc m" using Suc.hyps by (cases "256 * k") auto
  have "sector_in d (s + 1)" using Suc.prems(3) [rule_format, of 1] Suc.hyps by simp
  from ide_next_sector [OF assms(1) this assms(2) Suc.prems(2)] Suc.hyps Suc.prems(1) obtain i1 where
    i1: "ide_ins w d (256 * k) (i\<lparr>i_data_pos := 256\<rparr>) tr = ide_ins w d (256 * k) i1 (tr @ [X_pread (disk_fd d) 512 (int ((s + 1) * 512))])"
    "reading d (replay (disk_fd d) D tr) (s + 1) k i1" "i_status i1 = i_status i" unfolding m by fastforce
  let ?tr1 = "tr @ [X_pread (disk_fd d) 512 (int ((s + 1) * 512))]"
  have rp: "replay (disk_fd d) D ?tr1 = replay (disk_fd d) D tr" by simp
  have "\<forall>j < k. sector_in d (s + 1 + j)" using Suc.prems(3) [rule_format, of "Suc _"] by simp
  from Suc.IH [of ?tr1 "s + 1" i1] this Suc.prems(1) i1(2) rp obtain i' tr' where
    i': "ide_ins w d (256 * k) i1 ?tr1 = Some (concat (map (sector_words (replay (disk_fd d) D tr)) [s + 1..<s + 1 + k]), i', tr')"
    "replay (disk_fd d) D tr' = replay (disk_fd d) D tr" "i_data_pos i' = 256" "i_data_len i' = 256" "i_nsect i' = 1" "i_status i' = i_status i1" by auto
  have "ide_ins w d 256 i tr = Some (i_data i, i\<lparr>i_data_pos := 256\<rparr>, tr)" using ide_ins_buffer [of i 256 w d tr] r by simp
  moreover have "256 * Suc k = 256 + 256 * k" by simp
  moreover have "[s..<s + Suc k] = s # [s + 1..<s + 1 + k]" by (simp add: upt_rec)
  ultimately show ?case using i1 i' r(4) by (simp add: ide_ins_add)
qed

section \<open>Writing sectors\<close>

definition ide_outs :: "x_disk \<Rightarrow> u16 list \<Rightarrow> x_ide \<times> ex_log \<Rightarrow> x_ide \<times> ex_log" where
  "ide_outs d ws s = foldl (\<lambda>(i, tr) x. ide_data_out d x i tr) s ws"

lemma ide_outs_append: "ide_outs d (xs @ ys) s = ide_outs d ys (ide_outs d xs s)"
  by (simp add: ide_outs_def)

lemma ide_outs_part:
  assumes "length (i_data i) = 256" and "i_data_pos i + length xs < 256"
  shows "ide_outs d xs (i, tr) =
    (i\<lparr>i_data := take (i_data_pos i) (i_data i) @ xs @ drop (i_data_pos i + length xs) (i_data i), i_data_pos := i_data_pos i + length xs\<rparr>, tr)"
  using assms
proof (induction xs arbitrary: i)
  case Nil
  then show ?case by (simp add: ide_outs_def)
next
  case (Cons x xs)
  let ?p = "i_data_pos i"
  let ?i1 = "i\<lparr>i_data := (i_data i)[?p := x], i_data_pos := ?p + 1\<rparr>"
  have p: "?p < length (i_data i)" using Cons.prems by simp
  have "ide_data_out d x i tr = (?i1, tr)" using Cons.prems by (simp add: ide_data_out_def Let_def)
  then have "ide_outs d (x # xs) (i, tr) = ide_outs d xs (?i1, tr)" by (simp add: ide_outs_def)
  moreover have "take (Suc ?p) ((i_data i)[?p := x]) = take ?p (i_data i) @ [x]" using p by (simp add: take_Suc_conv_app_nth)
  ultimately show ?case using Cons.IH [of ?i1] Cons.prems by simp
qed

text \<open>The controller in the middle of a write: the buffer is empty, \<open>k\<close> sectors from \<open>s\<close> are to be written.\<close>

definition writing :: "nat \<Rightarrow> nat \<Rightarrow> x_ide \<Rightarrow> bool" where
  "writing s k i \<longleftrightarrow> i_lba i = of_nat s \<and> i_nsect i = of_nat k \<and> length (i_data i) = 256 \<and> i_data_pos i = 0"

lemma ide_sector_written:
  assumes "disk_ok d" and "sector_in d s" and "writing s k i" and "1 \<le> k" and "k < 256" and "length ws = 256"
  shows "\<exists>i'. ide_outs d ws (i, tr) = (i', tr @ [X_pwrite (disk_fd d) (bytes_of ws) (int (s * 512))]) \<and>
    (if k = 1 then i_status i' = 0x50 \<and> length (i_data i') = 256 else writing (s + 1) (k - 1) i')"
proof -
  obtain xs x where ws: "ws = xs @ [x]" using assms(6) by (cases ws rule: rev_cases) auto
  let ?i1 = "i\<lparr>i_data := xs @ [i_data i ! 255], i_data_pos := 255\<rparr>"
  have l: "length (i_data i) = 256" using assms(3) by (simp add: writing_def)
  have "drop 255 (i_data i) = [i_data i ! 255]"
    using l Cons_nth_drop_Suc [of 255 "i_data i"] by simp
  then have a: "ide_outs d xs (i, tr) = (?i1, tr)" using ide_outs_part [of i xs d tr] assms(3,6) by (simp add: writing_def ws)
  let ?i2 = "i\<lparr>i_data := ws, i_data_pos := 256\<rparr>"
  have st: "ide_store_sector d (of_nat s) ?i2 tr = tr @ [X_pwrite (disk_fd d) (bytes_of ws) (int (s * 512))]"
    using assms(1,2) unat_u32 [of s] past_size [of "disk_size d" s]
    by (simp add: ide_store_sector_def Let_def disk_ok_def sector_in_def)
  have n: "(of_nat k :: u8) - 1 = of_nat (k - 1)" "(0 :: u8) < of_nat k" "k \<noteq> 1 \<Longrightarrow> (0 :: u8) < of_nat (k - 1)"
    using nsect_pred [of k] nsect_pred [of "k - 1"] assms(4,5) by auto
  have u: "(xs @ [i_data i ! 255])[255 := x] = ws" using assms(6) by (simp add: ws list_update_append)
  have "ide_outs d ws (i, tr) = ide_data_out d x ?i1 tr" using a by (simp add: ws ide_outs_append) (simp add: ide_outs_def)
  also have "\<dots> = (if k = 1 then (?i2\<lparr>i_nsect := 0, i_status := 0x50, i_data_len := 0\<rparr>, tr @ [X_pwrite (disk_fd d) (bytes_of ws) (int (s * 512))])
      else (?i2\<lparr>i_nsect := of_nat (k - 1), i_lba := of_nat (s + 1), i_data_pos := 0, i_data_len := 256, i_status := 0x58\<rparr>,
            tr @ [X_pwrite (disk_fd d) (bytes_of ws) (int (s * 512))]))"
    using assms(3) n st u by (auto simp: ide_data_out_def writing_def Let_def add.commute)
  finally show ?thesis using assms(6) by (auto simp: writing_def)
qed

lemma ide_sectors_written:
  assumes "disk_ok d" and "1 \<le> k" and "k < 256" and "writing s k i" and "\<forall>j < k. sector_in d (s + j)" and "length ws = 256 * k"
  shows "\<exists>i' tr'. ide_outs d ws (i, tr) = (i', tr') \<and> i_status i' = 0x50 \<and> length (i_data i') = 256 \<and>
    (\<forall>D. replay (disk_fd d) D tr' = mem_poke (replay (disk_fd d) D tr) (s * 512) (bytes_of ws))"
  using assms(2-6)
proof (induction k arbitrary: s i tr ws rule: nat_induct_at_least)
  case base
  from ide_sector_written [OF assms(1) _ base(2), of ws tr] base obtain i' where
    "ide_outs d ws (i, tr) = (i', tr @ [X_pwrite (disk_fd d) (bytes_of ws) (int (s * 512))])" "i_status i' = 0x50" "length (i_data i') = 256" by auto
  then show ?case by (intro exI [of _ i'] exI conjI) (auto simp del: of_nat_mult)
next
  case (Suc k)
  let ?xs = "take 256 ws" and ?ys = "drop 256 ws"
  have "sector_in d s" using Suc.prems(3) [rule_format, of 0] by simp
  from ide_sector_written [OF assms(1) this Suc.prems(2), of ?xs tr] Suc.prems Suc.hyps obtain i1 where
    i1: "ide_outs d ?xs (i, tr) = (i1, tr @ [X_pwrite (disk_fd d) (bytes_of ?xs) (int (s * 512))])" "writing (s + 1) k i1" by (auto split: if_splits)
  let ?tr1 = "tr @ [X_pwrite (disk_fd d) (bytes_of ?xs) (int (s * 512))]"
  have "\<forall>j < k. sector_in d (s + 1 + j)" using Suc.prems(3) [rule_format, of "Suc _"] by simp
  from Suc.IH [OF _ i1(2) this, of ?ys ?tr1] Suc.prems(1,4) obtain i' tr' where
    i': "ide_outs d ?ys (i1, ?tr1) = (i', tr')" "i_status i' = 0x50" "length (i_data i') = 256"
    "\<And>D. replay (disk_fd d) D tr' = mem_poke (replay (disk_fd d) D ?tr1) ((s + 1) * 512) (bytes_of ?ys)" by auto
  have "ide_outs d ws (i, tr) = (i', tr')" using ide_outs_append [of d ?xs ?ys] i1(1) i'(1) by simp
  moreover have "replay (disk_fd d) D tr' = mem_poke (replay (disk_fd d) D tr) (s * 512) (bytes_of ws)" for D
  proof -
    have "replay (disk_fd d) D ?tr1 = mem_poke (replay (disk_fd d) D tr) (s * 512) (bytes_of ?xs)"
      by (simp only: replay_append replay_simps nat_int)
    moreover have "(s + 1) * 512 = s * 512 + length (bytes_of ?xs)" using Suc.prems(4) by simp
    ultimately have "replay (disk_fd d) D tr' = mem_poke (replay (disk_fd d) D tr) (s * 512) (bytes_of ?xs @ bytes_of ?ys)"
      unfolding i'(4) by (simp only: mem_poke_append)
    then show ?thesis by (simp add: bytes_of_append [symmetric])
  qed
  ultimately show ?case using i'(2,3) by blast
qed

section \<open>The driver's view\<close>

text \<open>Exits for a driver's port accesses: one byte written to a register, and string instructions on the data port.\<close>

definition outb :: "u16 \<Rightarrow> u8 \<Rightarrow> x_io" where
  "outb p b = \<lparr>io_direction = Io_out, io_port = p, io_items = [[b]]\<rparr>"

definition outsw :: "u8 list list \<Rightarrow> x_io" where
  "outsw ps = \<lparr>io_direction = Io_out, io_port = 0x1f0, io_items = ps\<rparr>"

definition insw :: "nat \<Rightarrow> x_io" where
  "insw m = \<lparr>io_direction = Io_in, io_port = 0x1f0, io_items = replicate m [0, 0]\<rparr>"

definition ide_select :: "nat \<Rightarrow> u32 \<Rightarrow> u8 \<Rightarrow> x_io list" where
  "ide_select k lba cmd = [outb 0x1f2 (of_nat k), outb 0x1f3 (ucast lba), outb 0x1f4 (ucast (drop_bit 8 lba)),
     outb 0x1f5 (ucast (drop_bit 16 lba)), outb 0x1f6 (0xe0 OR ucast (drop_bit 24 lba)), outb 0x1f7 cmd]"

fun vmm_ios :: "ex_os \<Rightarrow> x_io list \<Rightarrow> x_vmm \<Rightarrow> ex_log \<Rightarrow> (x_io list \<times> x_vmm \<times> ex_log) option" where
  "vmm_ios w [] v tr = Some ([], v, tr)"
| "vmm_ios w (e # es) v tr =
     (case vmm_handle_io w e v tr of
        None \<Rightarrow> None
      | Some (e', v1, tr1) \<Rightarrow> map_option (\<lambda>(es', v2, tr2). (e' # es', v2, tr2)) (vmm_ios w es v1 tr1))"

lemma vmm_ios_append:
  "vmm_ios w (xs @ ys) v tr =
     (case vmm_ios w xs v tr of
        None \<Rightarrow> None
      | Some (es, v1, tr1) \<Rightarrow> map_option (\<lambda>(fs, v2, tr2). (es @ fs, v2, tr2)) (vmm_ios w ys v1 tr1))"
proof (induction xs arbitrary: v tr)
  case Nil
  then show ?case by (simp add: option.map_id)
next
  case (Cons e es)
  then show ?case by (auto simp: option.map_comp comp_def case_prod_beta split: option.splits)
qed

lemma outb_ide:
  assumes "\<not> is_serial p" and "is_ide p"
  shows "vmm_handle_io w (outb p b) v tr = (case ide_out w (x_disk v) p [b] (x_ide v) tr of (i, tr1) \<Rightarrow> Some (outb p b, v\<lparr>x_ide := i\<rparr>, tr1))"
  using assms by (simp add: vmm_handle_io_def outb_def io_out_item_def case_prod_beta Let_def)

lemma lba_bytes:
  assumes "unat lba < 2 ^ 28"
  shows "push_bit 24 (ucast ((0xe0 OR ucast (drop_bit 24 lba) :: u8) AND 0x0f)) OR push_bit 16 (ucast (ucast (drop_bit 16 lba) :: u8)) OR
    push_bit 8 (ucast (ucast (drop_bit 8 lba) :: u8)) OR ucast (ucast lba :: u8) = (lba :: u32)" (is "?l = lba")
proof -
  have m: "(0x0f :: u8) = mask 4" "(0xe0 :: u8) = push_bit 5 7" by (simp_all add: mask_eq_exp_minus_1 push_bit_eq_mult)
  have seven: "(7 :: u8) = mask 3" by (simp add: mask_eq_exp_minus_1)
  have hi: "\<not> bit lba n" if "28 \<le> n" for n
  proof -
    have "unat lba < 2 ^ n" by (rule less_le_trans [OF assms]) (rule power_increasing [OF that], simp)
    then have "\<not> bit (unat lba) n" by (simp add: bit_iff_odd)
    then show ?thesis by (simp add: bit_unsigned_iff)
  qed
  show ?thesis
  proof (rule bit_word_eqI)
    fix n :: nat
    consider "n < 8" | "8 \<le> n" "n < 16" | "16 \<le> n" "n < 24" | "24 \<le> n" "n < 28" | "28 \<le> n" by linarith
    then show "bit ?l n = bit lba n" unfolding m seven by cases (use hi in \<open>auto simp: bit_simps not_le\<close>)
  qed
qed

lemma ide_selected:
  assumes "unat lba < 2 ^ 28"
  shows "\<exists>es i. vmm_ios w (ide_select k lba cmd) v tr =
      (case ide_command w (x_disk v) cmd i tr of (i1, tr1) \<Rightarrow> Some (es, v\<lparr>x_ide := i1\<rparr>, tr1)) \<and>
    i_nsect i = of_nat k \<and> ide_lba i = lba \<and> i_data i = i_data (x_ide v)"
proof -
  let ?i = "(x_ide v)\<lparr>i_nsect := of_nat k, i_lba_low := ucast lba, i_lba_mid := ucast (drop_bit 8 lba),
    i_lba_high := ucast (drop_bit 16 lba), i_drive_head := 0xe0 OR ucast (drop_bit 24 lba)\<rparr>"
  have p: "\<not> is_serial p \<and> is_ide p" if "p \<in> {0x1f2, 0x1f3, 0x1f4, 0x1f5, 0x1f6, 0x1f7}" for p
    using that by (auto simp: is_serial_def is_ide_def)
  have "vmm_ios w (ide_select k lba cmd) v tr =
      (case ide_command w (x_disk v) cmd ?i tr of (i1, tr1) \<Rightarrow> Some (ide_select k lba cmd, v\<lparr>x_ide := i1\<rparr>, tr1))"
    using p by (simp add: ide_select_def outb_ide ide_out_def case_prod_beta)
  moreover have "ide_lba ?i = lba" using lba_bytes [OF assms] by (simp add: ide_lba_def)
  ultimately show ?thesis by (intro exI [of _ "ide_select k lba cmd"] exI [of _ ?i]) simp
qed

lemma outsw_ide:
  assumes "\<forall>p \<in> set ps. length p = 2"
  shows "vmm_handle_io w (outsw ps) v tr =
    (case ide_outs (x_disk v) (map le_val ps) (x_ide v, tr) of (i, tr1) \<Rightarrow> Some (outsw ps, v\<lparr>x_ide := i\<rparr>, tr1))"
proof -
  have f: "foldl (\<lambda>s p. io_out_item w 0x1f0 p s) (v, tr) ps =
      (case ide_outs (x_disk v) (map le_val ps) (x_ide v, tr) of (i, tr1) \<Rightarrow> (v\<lparr>x_ide := i\<rparr>, tr1))"
    using assms
  proof (induction ps arbitrary: v tr)
    case (Cons p ps)
    then have "io_out_item w 0x1f0 p (v, tr) = (case ide_data_out (x_disk v) (le_val p) (x_ide v) tr of (i, tr1) \<Rightarrow> (v\<lparr>x_ide := i\<rparr>, tr1))"
      using port_word [of p] by (simp add: io_out_item_def is_serial_def is_ide_def ide_out_def case_prod_beta Let_def)
    with Cons show ?case by (cases "ide_data_out (x_disk v) (le_val p) (x_ide v) tr") (simp add: ide_outs_def)
  qed (simp add: ide_outs_def)
  show ?thesis by (simp add: vmm_handle_io_def outsw_def f case_prod_beta Let_def)
qed

lemma insw_ide:
  "vmm_handle_io w (insw m) v tr =
    map_option (\<lambda>(xs, i, tr1). ((insw m)\<lparr>io_items := map (le_bytes 2) xs\<rparr>, v\<lparr>x_ide := i\<rparr>, tr1)) (ide_ins w (x_disk v) m (x_ide v) tr)"
proof -
  have one: "io_in_item w 0x1f0 [0, 0] v tr =
      map_option (\<lambda>(x, i, tr1). (le_bytes 2 x, v\<lparr>x_ide := i\<rparr>, tr1)) (ide_data_in w (x_disk v) (x_ide v) tr)" for v tr
    by (simp add: io_in_item_def is_serial_def is_ide_def ide_in_def word_port_bytes option.map_comp comp_def case_prod_unfold)
  have f: "io_in_items w 0x1f0 (replicate m [0, 0]) v tr =
      map_option (\<lambda>(xs, i, tr1). (map (le_bytes 2) xs, v\<lparr>x_ide := i\<rparr>, tr1)) (ide_ins w (x_disk v) m (x_ide v) tr)"
  proof (induction m arbitrary: v tr)
    case (Suc m)
    then show ?case
      by (cases "ide_data_in w (x_disk v) (x_ide v) tr") (auto simp: one option.map_comp comp_def case_prod_unfold)
  qed simp
  show ?thesis by (simp add: vmm_handle_io_def insw_def f option.map_comp comp_def case_prod_unfold)
qed

lemma sectors_words: "concat (map (sector_words R) [s..<s + k]) = words_of (map R [s * 512..<s * 512 + k * 512])"
proof (induction k)
  case (Suc k)
  have "[s * 512..<s * 512 + Suc k * 512] = [s * 512..<s * 512 + k * 512] @ [(s + k) * 512..<(s + k) * 512 + 512]"
    using upt_add_eq_append [of "s * 512" "s * 512 + k * 512" 512] by (simp add: algebra_simps)
  then show ?case using Suc words_of_append [of "map R [s * 512..<s * 512 + k * 512]" "256 * k"] by (simp add: sector_words_def)
qed simp

lemma pairs_words: "\<forall>p \<in> set ps. length p = 2 \<Longrightarrow> words_of (concat ps) = map le_val ps \<and> bytes_of (map le_val ps) = concat ps \<and> map (le_bytes 2) (map le_val ps :: u16 list) = ps"
proof (induction ps)
  case (Cons p ps)
  have "le_bytes 2 (le_val p :: u16) = p" using Cons.prems by (intro le_bytes_le_val) simp_all
  moreover have "words_of (p @ concat ps) = le_val p # words_of (concat ps)" using Cons.prems by (auto simp: numeral_2_eq_2 length_Suc_conv)
  ultimately show ?case using Cons by (simp add: bytes_of_def)
qed (simp add: bytes_of_def)

lemma concat_pairs: "\<forall>p \<in> set ps. length p = 2 \<Longrightarrow> length (concat ps) = 2 * length ps"
  by (induction ps) auto

text \<open>
  Claim C39.  The IDE disk is a disk.  A driver that selects up to 255 sectors inside the image, gives the write command and writes their words to the data port
  changes exactly those sectors of the image, and the controller is ready afterwards; when it then selects the same
  sectors for reading, it reads the same words, whatever was in the controller's buffer.  The host keeps what is written to the image.
\<close>

theorem ide_roundtrip:
  assumes "disk_ok (x_disk v)" and "disk_host w (disk_fd (x_disk v)) (unat (disk_size (x_disk v))) D" and "length (i_data (x_ide v)) = 256"
    and "1 \<le> k" and "k < 256" and "unat lba < 2 ^ 28" and "(unat lba + k) * 512 \<le> unat (disk_size (x_disk v))"
    and "length ps = 256 * k" and "\<forall>p \<in> set ps. length p = 2"
  shows "\<exists>es v1 tr1 es' v2 tr2. vmm_ios w (ide_select k lba 0x30 @ [outsw ps]) v tr = Some (es, v1, tr1) \<and> i_status (x_ide v1) = 0x50 \<and>
    replay (disk_fd (x_disk v)) D tr1 = mem_poke (replay (disk_fd (x_disk v)) D tr) (unat lba * 512) (concat ps) \<and>
    vmm_ios w (ide_select k lba 0x20 @ [insw (256 * k)]) v1 tr1 = Some (es' @ [(insw (256 * k))\<lparr>io_items := ps\<rparr>], v2, tr2)"
proof -
  let ?d = "x_disk v" and ?s = "unat lba"
  let ?R = "\<lambda>tr. replay (disk_fd ?d) D tr"
  have si: "\<forall>j < k. sector_in ?d (?s + j)" using assms(5,6,7) by (auto simp: sector_in_def)
  have lba: "lba = of_nat ?s" by simp
  have nz: "(of_nat k :: u8) \<noteq> 0" using nsect_pred [of k] assms(4,5) by auto
  note pw = pairs_words [OF assms(9)]
  from ide_selected [OF assms(6), of w k "0x30" v tr] nz obtain es i where
    e: "vmm_ios w (ide_select k lba 0x30) v tr = Some (es, v\<lparr>x_ide := i\<rparr>, tr)" and "writing ?s k i"
    using assms(3) lba by (auto simp: ide_command_def writing_def)
  from ide_sectors_written [OF assms(1,4,5) this(2) si, of "map le_val ps" tr] assms(8) pw obtain i1 tr1 where
    o1: "ide_outs ?d (map le_val ps) (i, tr) = (i1, tr1)" "i_status i1 = 0x50" "length (i_data i1) = 256"
    "?R tr1 = mem_poke (?R tr) (?s * 512) (concat ps)" by fastforce
  let ?v1 = "v\<lparr>x_ide := i1\<rparr>"
  have w1: "vmm_ios w (ide_select k lba 0x30 @ [outsw ps]) v tr = Some (es @ [outsw ps], ?v1, tr1)"
    using e o1(1) outsw_ide [OF assms(9), of w "v\<lparr>x_ide := i\<rparr>" tr] by (simp add: vmm_ios_append)
  let ?tr2 = "tr1 @ [X_pread (disk_fd ?d) 512 (int (?s * 512))]"
  from ide_selected [OF assms(6), of w k "0x20" ?v1 tr1] obtain es' i2 where
    e2: "vmm_ios w (ide_select k lba 0x20) ?v1 tr1 = (case ide_command w ?d 0x20 i2 tr1 of (i, tr') \<Rightarrow> Some (es', v\<lparr>x_ide := i\<rparr>, tr'))"
    "i_nsect i2 = of_nat k" "ide_lba i2 = lba" by auto
  from si assms(4) have s0: "sector_in ?d ?s" by auto
  obtain i3 where i3: "ide_command w ?d 0x20 i2 tr1 = (i3, ?tr2)" "reading ?d (?R tr1) ?s k i3"
    using ide_load_sector_in [OF assms(1) s0 assms(2), of "i2\<lparr>i_nsect := of_nat k, i_lba := lba\<rparr>" tr1] e2(2,3) nz
    by (simp add: ide_command_def reading_def Let_def)
  have "?R ?tr2 = ?R tr1" by simp
  with ide_sectors_read [OF assms(1,2,4,5), of ?tr2 ?s i3] i3(2) si obtain i4 tr4 where
    r: "ide_ins w ?d (256 * k) i3 ?tr2 = Some (concat (map (sector_words (?R tr1)) [?s..<?s + k]), i4, tr4)" by auto
  have "length (concat ps) = k * 512" using concat_pairs [OF assms(9)] assms(8) by simp
  then have "map (?R tr1) [?s * 512..<?s * 512 + k * 512] = concat ps" unfolding o1(4) using peek_poke_same [of "?R tr" "?s * 512" "concat ps"] by simp
  then have "concat (map (sector_words (?R tr1)) [?s..<?s + k]) = map le_val ps" using pw by (simp add: sectors_words)
  then have "vmm_ios w (ide_select k lba 0x20 @ [insw (256 * k)]) ?v1 tr1 = Some (es' @ [(insw (256 * k))\<lparr>io_items := ps\<rparr>], v\<lparr>x_ide := i4\<rparr>, tr4)"
    using e2(1) i3(1) r pw by (simp add: vmm_ios_append insw_ide)
  with w1 o1 show ?thesis by (intro exI [of _ "es @ [outsw ps]"] exI [of _ ?v1] exI [of _ tr1] exI [of _ es'] exI) simp
qed

text \<open>A host whose reads return what was written.\<close>

definition x_disk_os :: "(nat \<Rightarrow> u8) \<Rightarrow> ex_os" where
  "x_disk_os D = (x_file_os (\<lambda>_. []))\<lparr>eo_ret := (\<lambda>tr c. case c of X_pread _ n _ \<Rightarrow> int n | _ \<Rightarrow> 1),
     eo_data := (\<lambda>tr c. case c of X_pread fd n off \<Rightarrow> map (replay fd D tr) [nat off..<nat off + n] | _ \<Rightarrow> [])\<rparr>"

lemma x_disk_os_host: "disk_host (x_disk_os D) fd sz D"
  by (simp add: disk_host_def x_disk_os_def)

definition demo_disk_vmm :: "u64 \<Rightarrow> x_vmm" where
  "demo_disk_vmm sz = zero_vmm\<lparr>x_disk := \<lparr>disk_fd = 5, disk_size = sz, disk_num_sectors = 2\<rparr>\<rparr>"

lemma demo_disk_vmm_simps [simp]:
  "x_disk (demo_disk_vmm sz) = \<lparr>disk_fd = 5, disk_size = sz, disk_num_sectors = 2\<rparr>" "length (i_data (x_ide (demo_disk_vmm sz))) = 256"
  by (simp_all add: demo_disk_vmm_def zero_vmm_def zero_ide_def)

theorem ide_roundtrip_witness:
  "\<exists>es v1 tr1 es' v2 tr2. vmm_ios (x_disk_os (\<lambda>_. 0)) (ide_select 1 1 0x30 @ [outsw (replicate 256 [1, 2])]) (demo_disk_vmm 1024) [] = Some (es, v1, tr1) \<and>
     vmm_ios (x_disk_os (\<lambda>_. 0)) (ide_select 1 1 0x20 @ [insw 256]) v1 tr1 = Some (es' @ [(insw 256)\<lparr>io_items := replicate 256 [1, 2]\<rparr>], v2, tr2)"
  using ide_roundtrip [of "demo_disk_vmm 1024" "x_disk_os (\<lambda>_. 0)" "\<lambda>_. 0" 1 1 "replicate 256 [1, 2]" "[]"] x_disk_os_host
  by (fastforce simp: disk_ok_def)

section \<open>Past the end of the image\<close>

text \<open>
  Claim C40.  Reading past the end of the image leaves the sector buffer.  A driver that asks for two or more sectors starting with the last one of the image
  reads that sector; the next read of the data port finds the next sector outside the image, which does not set
  the position back to the start of the buffer, and returns what lies behind the buffer's 256 words.
\<close>

theorem ide_read_overrun:
  assumes "disk_ok (x_disk v)" and "disk_host w (disk_fd (x_disk v)) (unat (disk_size (x_disk v))) D"
    and "2 \<le> k" and "k < 256" and "unat lba < 2 ^ 28"
    and "(unat lba + 1) * 512 \<le> unat (disk_size (x_disk v))" and "unat (disk_size (x_disk v)) < (unat lba + 2) * 512"
  shows "(\<exists>es v1 tr1. vmm_ios w (ide_select k lba 0x20 @ [insw 256]) v tr =
      Some (es @ [(insw 256)\<lparr>io_items := map (le_bytes 2) (sector_words (replay (disk_fd (x_disk v)) D tr) (unat lba))\<rparr>], v1, tr1)) \<and>
    vmm_ios w (ide_select k lba 0x20 @ [insw 257]) v tr = None"
proof -
  let ?d = "x_disk v" and ?s = "unat lba"
  let ?tr1 = "tr @ [X_pread (disk_fd ?d) 512 (int (?s * 512))]"
  have nz: "(of_nat k :: u8) \<noteq> 0" using nsect_pred [of k] assms(3,4) by auto
  from ide_selected [OF assms(5), of w k "0x20" v tr] obtain es i where
    e: "vmm_ios w (ide_select k lba 0x20) v tr = (case ide_command w ?d 0x20 i tr of (i', tr') \<Rightarrow> Some (es, v\<lparr>x_ide := i'\<rparr>, tr'))"
    "i_nsect i = of_nat k" "ide_lba i = lba" by auto
  have s0: "sector_in ?d ?s" and s1: "\<not> sector_in ?d (?s + 1)" using assms(5-7) by (auto simp: sector_in_def)
  obtain i1 where i1: "ide_command w ?d 0x20 i tr = (i1, ?tr1)" "reading ?d (replay (disk_fd ?d) D tr) ?s k i1"
    using ide_load_sector_in [OF assms(1) s0 assms(2), of "i\<lparr>i_nsect := of_nat k, i_lba := lba\<rparr>" tr] e(2,3) nz
    by (simp add: ide_command_def reading_def Let_def)
  let ?i2 = "i1\<lparr>i_data_pos := 256\<rparr>"
  have b: "ide_ins w ?d 256 i1 ?tr1 = Some (sector_words (replay (disk_fd ?d) D tr) ?s, ?i2, ?tr1)"
    using ide_ins_buffer [of i1 256 w ?d ?tr1] i1(2) by (simp add: reading_def)
  have n: "(of_nat k :: u8) - 1 = of_nat (k - 1)" "(0 :: u8) < of_nat k" "(0 :: u8) < of_nat (k - 1)"
    using nsect_pred [of k] nsect_pred [of "k - 1"] assms(3,4) by auto
  have "ide_data_in w ?d ?i2 ?tr1 = None"
    using ide_load_sector_out [OF assms(1) _ s1] assms(5) i1(2) n
    by (simp add: ide_data_in_def reading_def Let_def ide_fetch_def add.commute)
  then have "ide_ins w ?d (256 + Suc 0) i1 ?tr1 = None" using b by (simp only: ide_ins_add option.case prod.case ide_ins.simps) simp
  then have "ide_ins w ?d 257 i1 ?tr1 = None" by simp
  with b e(1) i1(1) show ?thesis by (simp add: vmm_ios_append insw_ide)
qed

theorem ide_read_overrun_witness:
  "vmm_ios (x_disk_os (\<lambda>_. 0)) (ide_select 2 1 0x20 @ [insw 257]) (demo_disk_vmm 1024) [] = None"
  using ide_read_overrun [of "demo_disk_vmm 1024" "x_disk_os (\<lambda>_. 0)" "\<lambda>_. 0" 2 1 "[]"] x_disk_os_host by (simp add: disk_ok_def)

end
