(* ===== verification/Example_Virtio.thy ===== *)
theory Example_Virtio
  imports Example_Devices
begin

text \<open>
  The virtio block device of the example monitor (\<^verbatim>\<open>docs/example-vmm/vmm.c\<close>): the registers of the legacy MMIO transport, the request queue and the exit
  handler \<open>vmm_handle_mmio\<close>.  Undefined (\<open>None\<close>) are an access outside RAM, a copy past the end of the stack buffer \<open>data\<close>, the
  use of an object that was not initialised, and a loop that does not end.
\<close>

section \<open>Registers\<close>

definition VIO_MMIO_BASE :: u64 where "VIO_MMIO_BASE = 0xa0000000"
definition VIO_MMIO_SIZE :: u64 where "VIO_MMIO_SIZE = 0x200"
definition VIO_MMIO_IRQ :: u32 where "VIO_MMIO_IRQ = 5"

datatype vio_reg = VIO_REG_MAGIC | VIO_REG_VERSION | VIO_REG_DEVICE_ID | VIO_REG_VENDOR_ID | VIO_REG_HOST_FEATURES | VIO_REG_HOST_FEATURES_SEL | VIO_REG_GUEST_FEATURES | VIO_REG_GUEST_FEATURES_SEL | VIO_REG_GUEST_PAGE_SIZE
  | VIO_REG_QUEUE_SEL | VIO_REG_QUEUE_NUM_MAX | VIO_REG_QUEUE_NUM | VIO_REG_QUEUE_ALIGN | VIO_REG_QUEUE_PFN | VIO_REG_QUEUE_NOTIFY
  | VIO_REG_INTERRUPT_STATUS | VIO_REG_INTERRUPT_ACK | VIO_REG_STATUS | VIO_REG_CONFIG

fun vio_reg_off :: "vio_reg \<Rightarrow> u64" where
  "vio_reg_off VIO_REG_MAGIC = 0x000"
| "vio_reg_off VIO_REG_VERSION = 0x004"
| "vio_reg_off VIO_REG_DEVICE_ID = 0x008"
| "vio_reg_off VIO_REG_VENDOR_ID = 0x00c"
| "vio_reg_off VIO_REG_HOST_FEATURES = 0x010"
| "vio_reg_off VIO_REG_HOST_FEATURES_SEL = 0x014"
| "vio_reg_off VIO_REG_GUEST_FEATURES = 0x020"
| "vio_reg_off VIO_REG_GUEST_FEATURES_SEL = 0x024"
| "vio_reg_off VIO_REG_GUEST_PAGE_SIZE = 0x028"
| "vio_reg_off VIO_REG_QUEUE_SEL = 0x030"
| "vio_reg_off VIO_REG_QUEUE_NUM_MAX = 0x034"
| "vio_reg_off VIO_REG_QUEUE_NUM = 0x038"
| "vio_reg_off VIO_REG_QUEUE_ALIGN = 0x03c"
| "vio_reg_off VIO_REG_QUEUE_PFN = 0x040"
| "vio_reg_off VIO_REG_QUEUE_NOTIFY = 0x050"
| "vio_reg_off VIO_REG_INTERRUPT_STATUS = 0x060"
| "vio_reg_off VIO_REG_INTERRUPT_ACK = 0x064"
| "vio_reg_off VIO_REG_STATUS = 0x070"
| "vio_reg_off VIO_REG_CONFIG = 0x100"

declare vio_reg_off.simps [simp del]

definition VIO_BLK_T_IN :: u32 where "VIO_BLK_T_IN = 0"
definition VIO_BLK_T_OUT :: u32 where "VIO_BLK_T_OUT = 1"

lemmas vio_regs = vio_reg_off.simps VIO_MMIO_BASE_def VIO_MMIO_SIZE_def VIO_MMIO_IRQ_def

section \<open>Guest memory\<close>

record x_vring_desc =
  xd_addr :: u64
  xd_len :: u32
  xd_flags :: u16
  xd_next :: u16

definition x_desc_of :: "u8 list \<Rightarrow> x_vring_desc" where
  "x_desc_of bs = \<lparr>xd_addr = le_val (take 8 bs), xd_len = le_val (take 4 (drop 8 bs)), xd_flags = le_val (take 2 (drop 12 bs)),
     xd_next = le_val (take 2 (drop 14 bs))\<rparr>"

record virtio_blk_req =
  rq_type :: u32
  rq_ioprio :: u32
  rq_sector :: u64

definition req_of :: "u8 list \<Rightarrow> virtio_blk_req" where
  "req_of bs = \<lparr>rq_type = le_val (take 4 bs), rq_ioprio = le_val (take 4 (drop 4 bs)), rq_sector = le_val (take 8 (drop 8 bs))\<rparr>"

text \<open>The pointer for an address, none (0 in the code) if it is not below the size of RAM.\<close>

definition vio_guest_to_host :: "u64 \<Rightarrow> u64 \<Rightarrow> nat option" where
  "vio_guest_to_host mem_size gpa = (if mem_size \<le> gpa then None else Some (unat gpa))"

definition vio_inject_irq :: "int \<Rightarrow> ex_log \<Rightarrow> ex_log" where
  "vio_inject_irq vm_fd tr = tr @ [X_irq_line vm_fd VIO_MMIO_IRQ 1]"

definition vio_read16 :: "u64 \<Rightarrow> guest_ram \<Rightarrow> u64 \<Rightarrow> u16 option" where
  "vio_read16 m r gpa = (case vio_guest_to_host m gpa of None \<Rightarrow> Some 0 | Some p \<Rightarrow> ram_u16 r p)"

definition vio_write8 :: "u64 \<Rightarrow> guest_ram \<Rightarrow> u64 \<Rightarrow> u8 \<Rightarrow> guest_ram option" where
  "vio_write8 m r gpa x = (case vio_guest_to_host m gpa of None \<Rightarrow> Some r | Some p \<Rightarrow> ram_put r p [x])"

definition vio_write16 :: "u64 \<Rightarrow> guest_ram \<Rightarrow> u64 \<Rightarrow> u16 \<Rightarrow> guest_ram option" where
  "vio_write16 m r gpa x = (case vio_guest_to_host m gpa of None \<Rightarrow> Some r | Some p \<Rightarrow> ram_put r p (le_bytes 2 x))"

definition vio_write32 :: "u64 \<Rightarrow> guest_ram \<Rightarrow> u64 \<Rightarrow> u32 \<Rightarrow> guest_ram option" where
  "vio_write32 m r gpa x = (case vio_guest_to_host m gpa of None \<Rightarrow> Some r | Some p \<Rightarrow> ram_put r p (le_bytes 4 x))"

text \<open>The copies are made only if the whole range lies in RAM; \<open>None\<close> of the second says that the destination was left alone.\<close>

definition vio_copies :: "u64 \<Rightarrow> u64 \<Rightarrow> u32 \<Rightarrow> bool" where
  "vio_copies m gpa len \<longleftrightarrow> gpa < m \<and> gpa + ucast len \<le> m"

definition vio_copy_to_guest :: "u64 \<Rightarrow> guest_ram \<Rightarrow> u64 \<Rightarrow> u8 list \<Rightarrow> guest_ram option" where
  "vio_copy_to_guest m r gpa src = (if vio_copies m gpa (of_nat (length src)) then ram_put r (unat gpa) src else Some r)"

definition vio_copy_from_guest :: "u64 \<Rightarrow> guest_ram \<Rightarrow> u64 \<Rightarrow> u32 \<Rightarrow> u8 list option" where
  "vio_copy_from_guest m r gpa len = (if vio_copies m gpa len then ram_get r (unat gpa) (unat len) else None)"

section \<open>Requests\<close>

definition DATA_SIZE :: nat where "DATA_SIZE = 131072"

text \<open>
  The part of a segment that is transferred.  The sum is made in 32 bits and may wrap, so that a long segment behind others is not cut.
\<close>

definition vio_chunk :: "u32 \<Rightarrow> u32 \<Rightarrow> u32" where
  "vio_chunk sofar len = (if unat (sofar + len) > DATA_SIZE then of_nat DATA_SIZE - sofar else len)"

definition vio_segment :: "ex_os \<Rightarrow> int \<Rightarrow> u64 \<Rightarrow> u32 \<Rightarrow> u64 \<Rightarrow> u32 \<Rightarrow> u64 \<Rightarrow> u32 \<Rightarrow> guest_ram \<Rightarrow> ex_log \<Rightarrow> (guest_ram \<times> ex_log) option" where
  "vio_segment w fd m type off sofar addr chunk r tr =
     (let pos = sint (off + ucast sofar)
      in if DATA_SIZE < unat sofar + unat chunk then None
         else if type = VIO_BLK_T_IN then
           (let c = X_pread fd (unat chunk) pos; tr1 = tr @ [c]
            in if vio_copies m addr chunk then
                 (if chunk = 0 \<or> eo_ret w tr c = int (unat chunk) then map_option (\<lambda>r1. (r1, tr1)) (vio_copy_to_guest m r addr (fixed (unat chunk) (eo_data w tr c)))
                  else None)
               else Some (r, tr1))
         else (if chunk = 0 then Some (r, tr @ [X_pwrite fd [] pos])
               else map_option (\<lambda>bs. (r, tr @ [X_pwrite fd bs pos])) (vio_copy_from_guest m r addr chunk)))"

text \<open>The walk along the data segments: the number of bytes and the descriptor for the status.\<close>

partial_function (option) vio_chain ::
  "ex_os \<Rightarrow> int \<Rightarrow> u64 \<Rightarrow> u32 \<Rightarrow> u64 \<Rightarrow> u32 \<Rightarrow> u64 \<Rightarrow> u16 \<Rightarrow> u32 \<Rightarrow> x_vring_desc \<Rightarrow> guest_ram \<Rightarrow> ex_log \<Rightarrow> (u32 \<times> x_vring_desc \<times> guest_ram \<times> ex_log) option" where
  "vio_chain w fd m n desc_gpa type off nxt sofar st r tr =
     (if ucast nxt < n then
        (case vio_copy_from_guest m r (desc_gpa + ucast nxt * 16) 16 of
           None \<Rightarrow> None
         | Some bs \<Rightarrow>
             (let d = x_desc_of bs
              in if xd_flags d AND 1 = 0 then Some (sofar, d, r, tr)
                 else (let chunk = vio_chunk sofar (xd_len d)
                       in case vio_segment w fd m type off sofar (xd_addr d) chunk r tr of
                            None \<Rightarrow> None
                          | Some (r1, tr1) \<Rightarrow> vio_chain w fd m n desc_gpa type off (xd_next d) (sofar + chunk) st r1 tr1)))
      else Some (sofar, st, r, tr))"

text \<open>The status byte, the element of the used ring and its index.\<close>

definition vio_publish :: "u64 \<Rightarrow> u32 \<Rightarrow> u64 \<Rightarrow> u64 \<Rightarrow> u16 \<Rightarrow> u32 \<Rightarrow> guest_ram \<Rightarrow> guest_ram option" where
  "vio_publish m n used_gpa st_addr desc_idx sofar r =
     (case vio_write8 m r st_addr 0 of
        None \<Rightarrow> None
      | Some r1 \<Rightarrow>
         (case vio_read16 m r1 (used_gpa + 2) of
            None \<Rightarrow> None
          | Some uidx \<Rightarrow>
             (let uelem = used_gpa + 4 + ucast (ucast uidx mod n) * 8
              in case vio_write32 m r1 uelem (ucast desc_idx) of
                   None \<Rightarrow> None
                 | Some r2 \<Rightarrow>
                    (case vio_write32 m r2 (uelem + 4) sofar of
                       None \<Rightarrow> None
                     | Some r3 \<Rightarrow> vio_write16 m r3 (used_gpa + 2) (uidx + 1)))))"

text \<open>One turn of the loop over the available ring, for the request at \<open>used_idx\<close>.\<close>

definition vio_request :: "ex_os \<Rightarrow> int \<Rightarrow> u64 \<Rightarrow> u32 \<Rightarrow> u64 \<Rightarrow> u64 \<Rightarrow> u64 \<Rightarrow> u16 \<Rightarrow> guest_ram \<Rightarrow> ex_log \<Rightarrow> (guest_ram \<times> ex_log) option" where
  "vio_request w fd m n desc_gpa avail_gpa used_gpa used_idx r tr = do {
     desc_idx \<leftarrow> vio_read16 m r (avail_gpa + 4 + ucast (ucast used_idx mod n) * 2);
     hb \<leftarrow> vio_copy_from_guest m r (ucast desc_idx * 16 + desc_gpa) 16;
     let hdr_desc = x_desc_of hb;
     qb \<leftarrow> vio_copy_from_guest m r (xd_addr hdr_desc) 16;
     let req = req_of qb;
     (sofar, st, r1, tr1) \<leftarrow>
       (if rq_type req = VIO_BLK_T_IN \<or> rq_type req = VIO_BLK_T_OUT
        then vio_chain w fd m n desc_gpa (rq_type req) (rq_sector req * 512) (xd_next hdr_desc) 0 hdr_desc r tr
        else Some (0, hdr_desc, r, tr));
     r2 \<leftarrow> vio_publish m n used_gpa (xd_addr st) desc_idx sofar r1;
     Some (r2, tr1)
   }"

partial_function (option) vio_loop ::
  "ex_os \<Rightarrow> int \<Rightarrow> u64 \<Rightarrow> u32 \<Rightarrow> u64 \<Rightarrow> u64 \<Rightarrow> u64 \<Rightarrow> u16 \<Rightarrow> u16 \<Rightarrow> guest_ram \<Rightarrow> ex_log \<Rightarrow> (u16 \<times> guest_ram \<times> ex_log) option" where
  "vio_loop w fd m n desc_gpa avail_gpa used_gpa avail_idx used_idx r tr =
     (if used_idx \<noteq> avail_idx then
        (case vio_request w fd m n desc_gpa avail_gpa used_gpa used_idx r tr of
           None \<Rightarrow> None
         | Some (r1, tr1) \<Rightarrow> vio_loop w fd m n desc_gpa avail_gpa used_gpa avail_idx (used_idx + 1) r1 tr1)
      else Some (used_idx, r, tr))"

definition vio_used_off :: "u32 \<Rightarrow> u32 \<Rightarrow> u32" where
  "vio_used_off n align = (n * 16 + 2 * (3 + n) + align - 1) AND NOT (align - 1)"

definition vio_process_queue :: "ex_os \<Rightarrow> x_vmm \<Rightarrow> ex_log \<Rightarrow> (x_vmm \<times> ex_log) option" where
  "vio_process_queue w v tr =
     (let q = x_vio v
      in if vio_queue_num q = 0 \<or> vio_queue_pfn q = 0 then Some (v, tr)
         else (let base = ucast (vio_queue_pfn q) * ucast (vio_guest_page_size q); n = vio_queue_num q; m = x_mem_size v;
                   avail_gpa = base + ucast n * 16; used_gpa = base + ucast (vio_used_off n (vio_queue_align q))
               in do {
                 avail_idx \<leftarrow> vio_read16 m (x_ram v) (avail_gpa + 2);
                 (idx, r, tr1) \<leftarrow> vio_loop w (disk_fd (x_disk v)) m n base avail_gpa used_gpa avail_idx (vio_used_idx q) (x_ram v) tr;
                 Some (v\<lparr>x_ram := r, x_vio := q\<lparr>vio_used_idx := idx, vio_isr := vio_isr q OR 1\<rparr>\<rparr>, vio_inject_irq (x_vm_fd v) tr1)
               }))"

section \<open>Register accesses\<close>

definition x_virtio_mmio_read :: "x_vio \<Rightarrow> u64 \<Rightarrow> nat \<Rightarrow> u64" where
  "x_virtio_mmio_read q off len =
     (if (vio_reg_off VIO_REG_CONFIG) \<le> off \<and> off - (vio_reg_off VIO_REG_CONFIG) + of_nat len \<le> 128 then
        le_val (take (min len 8) (drop (unat (off - (vio_reg_off VIO_REG_CONFIG))) (vio_config q)))
      else (let val = (if off = (vio_reg_off VIO_REG_MAGIC) then 0x74726976
                       else if off = (vio_reg_off VIO_REG_VERSION) then 1
                       else if off = (vio_reg_off VIO_REG_DEVICE_ID) then 2
                       else if off = (vio_reg_off VIO_REG_VENDOR_ID) then 0x554d4551
                       else if off = (vio_reg_off VIO_REG_HOST_FEATURES) then 0
                       else if off = (vio_reg_off VIO_REG_QUEUE_NUM_MAX) then 64
                       else if off = (vio_reg_off VIO_REG_QUEUE_NUM) then ucast (vio_queue_num q)
                       else if off = (vio_reg_off VIO_REG_QUEUE_PFN) then ucast (vio_queue_pfn q)
                       else if off = (vio_reg_off VIO_REG_INTERRUPT_STATUS) then ucast (vio_isr q)
                       else if off = (vio_reg_off VIO_REG_STATUS) then ucast (vio_status q)
                       else 0)
            in if len < 8 then val AND (push_bit (len * 8) 1 - 1) else val))"

definition x_virtio_mmio_write :: "ex_os \<Rightarrow> u64 \<Rightarrow> u64 \<Rightarrow> x_vmm \<Rightarrow> ex_log \<Rightarrow> (x_vmm \<times> ex_log) option" where
  "x_virtio_mmio_write w off val v tr =
     (let q = x_vio v
      in if off = (vio_reg_off VIO_REG_GUEST_PAGE_SIZE) then Some (v\<lparr>x_vio := q\<lparr>vio_guest_page_size := ucast val\<rparr>\<rparr>, tr)
         else if off = (vio_reg_off VIO_REG_QUEUE_SEL) then Some (v\<lparr>x_vio := q\<lparr>vio_queue_sel := ucast val\<rparr>\<rparr>, tr)
         else if off = (vio_reg_off VIO_REG_QUEUE_NUM) then Some (v\<lparr>x_vio := q\<lparr>vio_queue_num := ucast val\<rparr>\<rparr>, tr)
         else if off = (vio_reg_off VIO_REG_QUEUE_ALIGN) then
           Some (v\<lparr>x_vio := q\<lparr>vio_queue_align := (if (ucast val :: u32) = 0 then 4096 else ucast val)\<rparr>\<rparr>, tr)
         else if off = (vio_reg_off VIO_REG_QUEUE_PFN) then Some (v\<lparr>x_vio := q\<lparr>vio_queue_pfn := ucast val\<rparr>\<rparr>, tr)
         else if off = (vio_reg_off VIO_REG_QUEUE_NOTIFY) then (if val = 0 then vio_process_queue w v tr else Some (v, tr))
         else if off = (vio_reg_off VIO_REG_INTERRUPT_ACK) then
           (let isr = vio_isr q AND NOT (ucast val)
            in Some (v\<lparr>x_vio := q\<lparr>vio_isr := isr\<rparr>\<rparr>, if isr = 0 then tr @ [X_irq_line (x_vm_fd v) VIO_MMIO_IRQ 0] else tr))
         else if off = (vio_reg_off VIO_REG_STATUS) then
           (if val = 0 then Some (v\<lparr>x_vio := q\<lparr>vio_status := 0, vio_queue_num := 0, vio_queue_pfn := 0, vio_used_idx := 0\<rparr>\<rparr>, tr)
            else Some (v\<lparr>x_vio := q\<lparr>vio_status := ucast val\<rparr>\<rparr>, tr))
         else Some (v, tr))"

text \<open>The members of \<open>run->mmio\<close>; the data are the \<open>len\<close> bytes of the access, at most 8.\<close>

record x_mmio =
  mm_addr :: u64
  mm_data :: "u8 list"
  mm_is_write :: bool

definition vmm_handle_mmio :: "ex_os \<Rightarrow> x_mmio \<Rightarrow> x_vmm \<Rightarrow> ex_log \<Rightarrow> (x_mmio \<times> x_vmm \<times> ex_log) option" where
  "vmm_handle_mmio w e v tr =
     (let a = mm_addr e; len = length (mm_data e)
      in if VIO_MMIO_BASE \<le> a \<and> a < VIO_MMIO_BASE + VIO_MMIO_SIZE then
           (let off = a - VIO_MMIO_BASE
            in if mm_is_write e then map_option (\<lambda>(v1, tr1). (e, v1, tr1)) (x_virtio_mmio_write w off (le_val (mm_data e)) v tr)
               else Some (e\<lparr>mm_data := le_bytes len (x_virtio_mmio_read (x_vio v) off len)\<rparr>, v, tr))
         else if mm_is_write e then Some (e, v, tr)
         else Some (e\<lparr>mm_data := replicate len 0\<rparr>, v, tr))"

section \<open>Accesses that stay in RAM\<close>

lemma unat_ucast_up:
  "unat (ucast (x :: u32) :: u64) = unat x" "unat (ucast (y :: u16) :: u64) = unat y" "unat (ucast (y :: u16) :: u32) = unat y"
proof -
  have "unat x < 2 ^ 32" "unat y < 2 ^ 16" using unsigned_less [of x, where 'a = nat] unsigned_less [of y, where 'a = nat] by simp_all
  then show "unat (ucast x :: u64) = unat x" "unat (ucast y :: u64) = unat y" "unat (ucast y :: u32) = unat y"
    by (simp_all add: unsigned_ucast_eq take_bit_nat_eq_self)
qed

lemma vio_copies_iff: "vio_copies m gpa len \<longleftrightarrow> unat gpa < unat m \<and> unat (gpa + ucast len) \<le> unat m"
  by (simp add: vio_copies_def word_less_nat_alt word_le_nat_alt)

lemma vio_copies_in:
  assumes "unat gpa + unat len \<le> unat m" and "unat gpa < unat m"
  shows "vio_copies m gpa len"
proof -
  have "unat (gpa + ucast len) = unat gpa + unat (ucast len :: u64)"
    using assms unsigned_less [of m, where 'a = nat] by (intro unat_add_lem [THEN iffD1]) (simp add: unat_ucast_up)
  then show ?thesis using assms by (simp add: vio_copies_iff unat_ucast_up)
qed

lemma vio_copy_from_in:
  assumes "unat gpa + unat len \<le> unat m" and "unat gpa < unat m"
  shows "vio_copy_from_guest m r gpa len = ram_get r (unat gpa) (unat len)"
  using vio_copies_in [OF assms] by (simp add: vio_copy_from_guest_def)

lemma vio_copy_to_in:
  assumes "unat gpa + length bs \<le> unat m" and "unat gpa < unat m" and "length bs < 2 ^ 32"
  shows "vio_copy_to_guest m r gpa bs = ram_put r (unat gpa) bs"
  using vio_copies_in [of gpa "of_nat (length bs)" m] assms unat_u32 [OF assms(3)] by (simp add: vio_copy_to_guest_def)

lemma of_nat_u64_sum:
  assumes "unat (x :: u64) = a" and "a + b < 2 ^ 64"
  shows "unat (x + of_nat b) = a + b"
proof -
  have "x + of_nat b = of_nat (a + b)" using assms(1) [symmetric] by simp
  then show ?thesis using unat_u64 [OF assms(2)] by (simp only:)
qed

section \<open>The transfers of a request\<close>

text \<open>A descriptor of the table at \<open>t\<close>, and a chain of data segments that ends with the descriptor for the status.\<close>

definition x_desc_at :: "guest_ram \<Rightarrow> nat \<Rightarrow> nat \<Rightarrow> x_vring_desc option" where
  "x_desc_at r t i = map_option x_desc_of (ram_get r (t + 16 * i) 16)"

fun chained :: "guest_ram \<Rightarrow> nat \<Rightarrow> nat \<Rightarrow> nat \<Rightarrow> (nat \<times> nat) list \<Rightarrow> nat \<Rightarrow> bool" where
  "chained r t n i [] st = (i < n \<and> (case x_desc_at r t i of None \<Rightarrow> False | Some d \<Rightarrow> xd_flags d AND 1 = 0 \<and> unat (xd_addr d) = st))"
| "chained r t n i ((a, l) # segs) st =
     (i < n \<and> (case x_desc_at r t i of None \<Rightarrow> False
       | Some d \<Rightarrow> xd_flags d AND 1 \<noteq> 0 \<and> unat (xd_addr d) = a \<and> unat (xd_len d) = l \<and> chained r t n (unat (xd_next d)) segs st))"

text \<open>What a request does to RAM and disk: the segments are moved one after the other.\<close>

fun transfer :: "bool \<Rightarrow> nat \<Rightarrow> (nat \<times> nat) list \<Rightarrow> guest_ram \<times> (nat \<Rightarrow> u8) \<Rightarrow> (guest_ram \<times> (nat \<Rightarrow> u8)) option" where
  "transfer wr pos [] s = Some s"
| "transfer wr pos ((a, l) # segs) (r, D) =
     (if wr then (case ram_get r a l of None \<Rightarrow> None | Some bs \<Rightarrow> transfer wr (pos + l) segs (r, mem_poke D pos bs))
      else (case ram_put r a (map D [pos..<pos + l]) of None \<Rightarrow> None | Some r1 \<Rightarrow> transfer wr (pos + l) segs (r1, D)))"

definition seg_area :: "(nat \<times> nat) list \<Rightarrow> nat set" where
  "seg_area segs = (\<Union>(a, l) \<in> set segs. {a..<a + l})"

lemma seg_area_simps [simp]: "seg_area [] = {}" "seg_area ((a, l) # segs) = {a..<a + l} \<union> seg_area segs"
  by (auto simp: seg_area_def)

lemma x_desc_at_touches: "touches r r' A \<Longrightarrow> {t + 16 * i..<t + 16 * i + 16} \<inter> A = {} \<Longrightarrow> x_desc_at r' t i = x_desc_at r t i"
  by (simp add: x_desc_at_def touches_get)

lemma chained_touches:
  assumes "touches r r' A" and "{t..<t + 16 * n} \<inter> A = {}"
  shows "chained r' t n i segs st = chained r t n i segs st"
proof -
  have d: "x_desc_at r' t i = x_desc_at r t i" if "i < n" for i
  proof (rule x_desc_at_touches [OF assms(1)])
    have "{t + 16 * i..<t + 16 * i + 16} \<subseteq> {t..<t + 16 * n}" using that by auto
    then show "{t + 16 * i..<t + 16 * i + 16} \<inter> A = {}" using assms(2) by blast
  qed
  show ?thesis
  proof (induction segs arbitrary: i)
    case (Cons s segs)
    obtain a l where "s = (a, l)" by fastforce
    then show ?case using d [of i] Cons by (cases "i < n") (simp_all split: option.splits)
  qed (use d in \<open>simp cong: conj_cong\<close>)
qed

lemma vio_segment_ok:
  assumes "disk_host w fd sz D" and "unat off = pos" and "pos + unat sofar + unat len \<le> sz" and "sz < 2 ^ 63"
    and "unat sofar + unat len \<le> DATA_SIZE" and "unat addr + unat len \<le> unat m" and "unat addr < unat m" and "unat m = ram_bytes r"
    and "type = (if wr then VIO_BLK_T_OUT else VIO_BLK_T_IN)"
  shows "\<exists>r1 tr1. vio_segment w fd m type off sofar addr len r tr = Some (r1, tr1) \<and>
    transfer wr (pos + unat sofar) [(unat addr, unat len)] (r, replay fd D tr) = Some (r1, replay fd D tr1) \<and>
    touches r r1 (if wr then {} else {unat addr..<unat addr + unat len})"
proof -
  let ?p = "pos + unat sofar"
  have "unat (off + ucast sofar) = ?p"
    using of_nat_u64_sum [OF assms(2), of "unat sofar"] assms(3,4) by (simp add: of_nat_unat)
  then have p: "sint (off + ucast sofar) = int ?p" using assms(3,4) sint_disk_size [of "off + ucast sofar"] by simp
  have d: "\<not> DATA_SIZE < unat sofar + unat len" using assms(5) by simp
  have c: "vio_copies m addr len" by (rule vio_copies_in [OF assms(6,7)])
  show ?thesis
  proof (cases wr)
    case True
    from ram_get_defined [of "unat addr" "unat len" r] assms(6,8) obtain bs where bs: "ram_get r (unat addr) (unat len) = Some bs" by auto
    then have "len = 0 \<Longrightarrow> bs = []" by (auto simp: ram_get_Some ram_peek_def)
    then show ?thesis using True d c bs assms(9) p
      by (auto simp: vio_segment_def Let_def VIO_BLK_T_IN_def VIO_BLK_T_OUT_def vio_copy_from_guest_def simp del: of_nat_add)
  next
    case False
    let ?bs = "map (replay fd D tr) [?p..<?p + unat len]"
    have h: "eo_ret w tr (X_pread fd (unat len) (int ?p)) = int (unat len)" "eo_data w tr (X_pread fd (unat len) (int ?p)) = ?bs"
      using assms(1,3) by (simp_all add: disk_host_def del: of_nat_add)
    from guest.put_defined [of "unat addr" ?bs r] assms(6,8) obtain r1 where r1: "ram_put r (unat addr) ?bs = Some r1" by auto
    have "vio_copy_to_guest m r addr ?bs = Some r1"
      using vio_copy_to_in [of addr ?bs m r] r1 assms(6,7) unsigned_less [of len, where 'a = nat] by simp
    then show ?thesis using False d c assms(9) p h r1 touches_put [OF r1]
      by (auto simp: vio_segment_def Let_def VIO_BLK_T_IN_def VIO_BLK_T_OUT_def simp del: of_nat_add)
  qed
qed

lemma unat_sum_u32: "unat (x :: u32) + unat y < 2 ^ 32 \<Longrightarrow> unat (x + y) = unat x + unat y"
  using unat_add_lem [of x y] by simp

lemma vio_chunk_id: "unat sofar + unat len \<le> DATA_SIZE \<Longrightarrow> vio_chunk sofar len = len"
  using unat_sum_u32 [of sofar len] by (simp add: vio_chunk_def DATA_SIZE_def)

lemma vio_desc_read:
  assumes "unat desc_gpa = t" and "t + 16 * n \<le> unat m" and "unat i < n"
  shows "vio_copy_from_guest m r (desc_gpa + ucast (i :: u16) * 16) 16 = ram_get r (t + 16 * unat i) 16"
    and "vio_copy_from_guest m r (ucast i * 16 + desc_gpa) 16 = ram_get r (t + 16 * unat i) 16"
proof -
  have b: "t + 16 * unat i + 16 \<le> unat m" using assms(2,3) by simp
  have "desc_gpa + ucast i * 16 = desc_gpa + of_nat (16 * unat i)" by (simp add: mult.commute)
  moreover have "unat (desc_gpa + of_nat (16 * unat i)) = t + 16 * unat i"
    using of_nat_u64_sum [OF assms(1), of "16 * unat i"] b unsigned_less [of m, where 'a = nat] by simp
  ultimately have u: "unat (desc_gpa + ucast i * 16) = t + 16 * unat i" by (simp only:)
  have c: "ucast i * 16 + desc_gpa = desc_gpa + ucast i * 16" by (rule add.commute)
  show "vio_copy_from_guest m r (desc_gpa + ucast i * 16) 16 = ram_get r (t + 16 * unat i) 16"
    using vio_copy_from_in [of "desc_gpa + ucast i * 16" 16 m r] b unfolding u by simp
  then show "vio_copy_from_guest m r (ucast i * 16 + desc_gpa) 16 = ram_get r (t + 16 * unat i) 16" unfolding c .
qed

lemma vio_chain_step:
  assumes "disk_host w fd sz D" and "unat off = pos" and "sz < 2 ^ 63" and "unat desc_gpa = t" and "t + 16 * unat n \<le> unat m"
    and "type = (if wr then VIO_BLK_T_OUT else VIO_BLK_T_IN)"
    and "chained r t (unat n) (unat nxt) ((a, l) # segs) st" and "unat m = ram_bytes r"
    and "pos + unat sofar + l \<le> sz" and "unat sofar + l \<le> DATA_SIZE" and "a < unat m" and "a + l \<le> unat m"
    and "wr \<or> {a..<a + l} \<inter> {t..<t + 16 * unat n} = {}"
  shows "\<exists>nxt' r1 tr1. vio_chain w fd m n desc_gpa type off nxt sofar st0 r tr = vio_chain w fd m n desc_gpa type off nxt' (sofar + of_nat l) st0 r1 tr1 \<and>
    transfer wr (pos + unat sofar) [(a, l)] (r, replay fd D tr) = Some (r1, replay fd D tr1) \<and>
    touches r r1 (if wr then {} else {a..<a + l}) \<and> chained r1 t (unat n) (unat nxt') segs st"
proof -
  from assms(7) have i: "unat nxt < unat n" and lt: "ucast nxt < n" by (simp_all add: word_less_nat_alt unat_ucast_up)
  from assms(7) obtain bs where bs: "ram_get r (t + 16 * unat nxt) 16 = Some bs" and
    d: "xd_flags (x_desc_of bs) AND 1 \<noteq> 0" "unat (xd_addr (x_desc_of bs)) = a" "unat (xd_len (x_desc_of bs)) = l"
      "chained r t (unat n) (unat (xd_next (x_desc_of bs))) segs st"
    by (auto simp: x_desc_at_def split: option.splits)
  let ?d = "x_desc_of bs"
  have ck: "vio_chunk sofar (xd_len ?d) = xd_len ?d" using assms(10) d(3) by (intro vio_chunk_id) simp
  have "\<exists>r1 tr1. vio_segment w fd m type off sofar (xd_addr ?d) (xd_len ?d) r tr = Some (r1, tr1) \<and>
    transfer wr (pos + unat sofar) [(unat (xd_addr ?d), unat (xd_len ?d))] (r, replay fd D tr) = Some (r1, replay fd D tr1) \<and>
    touches r r1 (if wr then {} else {unat (xd_addr ?d)..<unat (xd_addr ?d) + unat (xd_len ?d)})"
    by (rule vio_segment_ok [OF assms(1,2) _ assms(3) _ _ _ assms(8,6)]) (use assms(9-12) d in auto)
  then obtain r1 tr1 where r1: "vio_segment w fd m type off sofar (xd_addr ?d) (xd_len ?d) r tr = Some (r1, tr1)"
    "transfer wr (pos + unat sofar) [(a, l)] (r, replay fd D tr) = Some (r1, replay fd D tr1)" "touches r r1 (if wr then {} else {a..<a + l})"
    unfolding d(2,3) by blast
  have "chained r1 t (unat n) (unat (xd_next ?d)) segs st"
    by (rule chained_touches [OF r1(3), THEN iffD2, OF _ d(4)]) (use assms(13) in \<open>cases wr; simp only: if_True if_False; blast\<close>)
  moreover have "xd_len ?d = of_nat l" using d(3) [symmetric] by simp
  then have "vio_chain w fd m n desc_gpa type off nxt sofar st0 r tr = vio_chain w fd m n desc_gpa type off (xd_next ?d) (sofar + of_nat l) st0 r1 tr1"
    using lt d(1) r1(1) bs ck by (subst vio_chain.simps) (simp add: vio_desc_read(1) [OF assms(4,5) i] Let_def)
  ultimately show ?thesis using r1(2,3) by blast
qed

lemma vio_chain_ok:
  assumes "disk_host w fd sz D" and "unat off = pos" and "sz < 2 ^ 63" and "unat desc_gpa = t" and "t + 16 * unat n \<le> unat m"
    and "type = (if wr then VIO_BLK_T_OUT else VIO_BLK_T_IN)"
    and "chained r t (unat n) (unat nxt) segs st" and "unat m = ram_bytes r"
    and "pos + unat sofar + sum_list (map snd segs) \<le> sz" and "unat sofar + sum_list (map snd segs) \<le> DATA_SIZE"
    and "\<forall>(a, l) \<in> set segs. a < unat m \<and> a + l \<le> unat m" and "wr \<or> seg_area segs \<inter> {t..<t + 16 * unat n} = {}"
  shows "\<exists>d r' tr'. vio_chain w fd m n desc_gpa type off nxt sofar st0 r tr = Some (sofar + of_nat (sum_list (map snd segs)), d, r', tr') \<and>
    unat (xd_addr d) = st \<and> transfer wr (pos + unat sofar) segs (r, replay fd D tr) = Some (r', replay fd D tr') \<and>
    touches r r' (if wr then {} else seg_area segs)"
  using assms(7-12)
proof (induction segs arbitrary: nxt sofar r tr)
  case Nil
  then have i: "unat nxt < unat n" and "ucast nxt < n" by (simp_all add: word_less_nat_alt unat_ucast_up)
  with Nil show ?case
    by (subst vio_chain.simps) (auto simp: vio_desc_read(1) [OF assms(4,5) i] x_desc_at_def Let_def split: option.splits)
next
  case (Cons s segs)
  obtain a l where s: "s = (a, l)" by fastforce
  have ar: "wr \<or> {a..<a + l} \<inter> {t..<t + 16 * unat n} = {}" "wr \<or> seg_area segs \<inter> {t..<t + 16 * unat n} = {}"
    using Cons.prems(6) [unfolded s seg_area_simps] by blast+
  have b: "pos + unat sofar + l \<le> sz" "unat sofar + l \<le> DATA_SIZE" "a < unat m" "a + l \<le> unat m" using Cons.prems(3-5) by (simp_all add: s)
  from vio_chain_step [OF assms(1-6) Cons.prems(1) [unfolded s] Cons.prems(2) b ar(1), of st0 tr] obtain nxt' r1 tr1 where
    r1: "vio_chain w fd m n desc_gpa type off nxt sofar st0 r tr = vio_chain w fd m n desc_gpa type off nxt' (sofar + of_nat l) st0 r1 tr1"
    "transfer wr (pos + unat sofar) [(a, l)] (r, replay fd D tr) = Some (r1, replay fd D tr1)"
    "touches r r1 (if wr then {} else {a..<a + l})" and ch: "chained r1 t (unat n) (unat nxt') segs st" by blast
  have "unat (of_nat l :: u32) = l" using b(2) by (intro unat_u32) (simp add: DATA_SIZE_def)
  then have u: "unat (sofar + of_nat l) = unat sofar + l" using b(2) by (subst unat_sum_u32) (simp_all add: DATA_SIZE_def)
  have b1: "unat m = ram_bytes r1" using Cons.prems(2) r1(3) by (simp add: touches_def)
  from Cons.IH [OF ch b1, of "sofar + of_nat l" tr1] Cons.prems(3-5) ar(2) obtain e r' tr' where
    e: "vio_chain w fd m n desc_gpa type off nxt' (sofar + of_nat l) st0 r1 tr1 = Some (sofar + of_nat l + of_nat (sum_list (map snd segs)), e, r', tr')"
      "unat (xd_addr e) = st" "transfer wr (pos + unat sofar + l) segs (r1, replay fd D tr1) = Some (r', replay fd D tr')"
      "touches r1 r' (if wr then {} else seg_area segs)"
    by (auto simp: s u add.assoc)
  have "transfer wr (pos + unat sofar) (s # segs) (r, replay fd D tr) = Some (r', replay fd D tr')"
    using r1(2) e(3) by (auto simp: s split: option.splits if_splits)
  moreover have "touches r r' (if wr then {} else seg_area (s # segs))"
    using touches_mono [OF r1(3), of "if wr then {} else seg_area (s # segs)"] touches_mono [OF e(4), of "if wr then {} else seg_area (s # segs)"]
    by (auto simp: s intro: touches_trans)
  ultimately show ?case using r1(1) e(1,2) by (simp add: s add.assoc)
qed

section \<open>The used ring\<close>

definition publish_writes :: "nat \<Rightarrow> nat \<Rightarrow> nat \<Rightarrow> u16 \<Rightarrow> u16 \<Rightarrow> u32 \<Rightarrow> (nat \<times> u8 list) list" where
  "publish_writes n us st u head len =
     (let e = us + 4 + 8 * (unat u mod n)
      in [(st, [0]), (e, le_bytes 4 (ucast head :: u32)), (e + 4, le_bytes 4 len), (us + 2, le_bytes 2 (u + 1))])"

lemma vio_access_in:
  assumes "unat gpa < unat m"
  shows "vio_read16 m r gpa = ram_u16 r (unat gpa)" "vio_write8 m r gpa x = ram_put r (unat gpa) [x]"
    "vio_write16 m r gpa y = ram_put r (unat gpa) (le_bytes 2 y)" "vio_write32 m r gpa z = ram_put r (unat gpa) (le_bytes 4 z)"
  using assms by (simp_all add: vio_read16_def vio_write8_def vio_write16_def vio_write32_def vio_guest_to_host_def word_le_nat_alt)

lemma ring_index: "(ucast (ucast (i :: u16) mod n :: u32) :: u64) = of_nat (unat i mod unat n)"
proof -
  have "unat (ucast i mod n) = unat i mod unat n" by (simp add: unat_mod unat_ucast_up)
  moreover have "(ucast (ucast i mod n) :: u64) = of_nat (unat (ucast i mod n))" by (rule of_nat_unat [symmetric])
  ultimately show ?thesis by (simp only:)
qed

lemma vio_publish_eq:
  assumes "unat used_gpa = us" and "us + 4 + 8 * unat n \<le> unat m" and "0 < n" and "unat st_addr < unat m"
    and "ram_u16 r (us + 2) = Some u" and "unat st_addr \<notin> {us..<us + 4 + 8 * unat n}"
  shows "vio_publish m n used_gpa st_addr head len r = pokes r (publish_writes (unat n) us (unat st_addr) u head len)"
proof -
  let ?k = "unat u mod unat n"
  have k: "?k < unat n" using assms(3) by (simp add: word_less_nat_alt)
  have m: "unat m < 2 ^ 64" using unsigned_less [of m, where 'a = nat] by simp
  have a2: "unat (used_gpa + 2) = us + 2" using of_nat_u64_sum [OF assms(1), of 2] assms(2) m by simp
  have e: "used_gpa + 4 + ucast (ucast u mod n) * 8 = used_gpa + of_nat (4 + 8 * ?k)" by (simp add: ring_index mult.commute)
  have ue: "unat (used_gpa + of_nat (4 + 8 * ?k)) = us + 4 + 8 * ?k" using of_nat_u64_sum [OF assms(1), of "4 + 8 * ?k"] assms(2) m k by simp
  have e4: "used_gpa + of_nat (4 + 8 * ?k) + 4 = used_gpa + of_nat (8 + 8 * ?k)" by simp
  have ue4: "unat (used_gpa + of_nat (8 + 8 * ?k)) = us + 4 + 8 * ?k + 4" using of_nat_u64_sum [OF assms(1), of "8 + 8 * ?k"] assms(2) m k by simp
  have in2: "unat (used_gpa + 2) < unat m" using a2 assms(2) k by simp
  have ine: "unat (used_gpa + of_nat (4 + 8 * ?k)) < unat m" "unat (used_gpa + of_nat (8 + 8 * ?k)) < unat m" using ue ue4 assms(2) k by simp_all
  have u: "ram_u16 r1 (us + 2) = Some u" if "ram_put r (unat st_addr) [0] = Some r1" for r1
    using guest.get_put_other [OF that, of "us + 2" 2] assms(2,5,6) by (auto simp: ram_u16_def)
  show ?thesis
    unfolding vio_publish_def vio_access_in(2) [OF assms(4)] vio_access_in(1) [OF in2] vio_access_in(3) [OF in2] a2 Let_def
    using u by (auto simp: e e4 vio_access_in(4) [OF ine(1)] vio_access_in(4) [OF ine(2)] ue ue4 publish_writes_def Let_def
        simp del: of_nat_add of_nat_mult split: option.splits)
qed

lemma publish_stored:
  assumes "pokes r (publish_writes n us st u head len) = Some r'"
  shows "ram_u16 r' (us + 2) = Some (u + 1)" "0 < n \<Longrightarrow> touches r r' (insert st {us..<us + 4 + 8 * n})"
proof -
  show "ram_u16 r' (us + 2) = Some (u + 1)"
    using pokes_nth [OF assms, of 3 "us + 2" "le_bytes 2 (u + 1)"] by (simp add: publish_writes_def Let_def ram_u16_def)
  assume n: "0 < n"
  then have "unat u mod n < n" by simp
  then show "touches r r' (insert st {us..<us + 4 + 8 * n})"
    by (intro pokes_touches_set [OF assms]) (auto simp: publish_writes_def Let_def)
qed

section \<open>Requests as the guest posts them\<close>

record blk_req =
  bq_head :: u16
  bq_hdr :: nat
  bq_write :: bool
  bq_pos :: nat
  bq_segs :: "(nat \<times> nat) list"
  bq_status :: nat

text \<open>
  The descriptor table at \<open>t\<close> and the available ring behind it, the used ring at \<open>us\<close>, both inside RAM; and a request in slot \<open>i\<close> of the available
  ring: header, chain of data segments and status.
\<close>

definition rings_in :: "u64 \<Rightarrow> u32 \<Rightarrow> nat \<Rightarrow> nat \<Rightarrow> guest_ram \<Rightarrow> bool" where
  "rings_in m n t us r \<longleftrightarrow> 0 < n \<and> t + 18 * unat n + 4 \<le> unat m \<and> us + 4 + 8 * unat n \<le> unat m \<and> unat m = ram_bytes r"

definition posted :: "guest_ram \<Rightarrow> nat \<Rightarrow> nat \<Rightarrow> u16 \<Rightarrow> blk_req \<Rightarrow> bool" where
  "posted r t n i q \<longleftrightarrow>
     ram_u16 r (t + 16 * n + 4 + 2 * (unat i mod n)) = Some (bq_head q) \<and> unat (bq_head q) < n \<and>
     (case x_desc_at r t (unat (bq_head q)) of None \<Rightarrow> False
      | Some h \<Rightarrow> unat (xd_addr h) = bq_hdr q \<and> chained r t n (unat (xd_next h)) (bq_segs q) (bq_status q)) \<and>
     (case ram_get r (bq_hdr q) 16 of None \<Rightarrow> False
      | Some b \<Rightarrow> rq_type (req_of b) = (if bq_write q then VIO_BLK_T_OUT else VIO_BLK_T_IN) \<and> unat (rq_sector (req_of b)) * 512 = bq_pos q)"

definition blk_len :: "blk_req \<Rightarrow> nat" where
  "blk_len q = sum_list (map snd (bq_segs q))"

text \<open>The request stays inside RAM (of \<open>M\<close> bytes), the disk (of \<open>sz\<close> bytes) and the stack buffer.\<close>

definition blk_ok :: "nat \<Rightarrow> nat \<Rightarrow> blk_req \<Rightarrow> bool" where
  "blk_ok M sz q \<longleftrightarrow> bq_pos q + blk_len q \<le> sz \<and> blk_len q \<le> DATA_SIZE \<and> bq_status q < M \<and>
     (\<forall>(a, l) \<in> set (bq_segs q). a < M \<and> a + l \<le> M)"

text \<open>The addresses that serving it reads as control data, and those it writes besides the used ring.\<close>

definition blk_control :: "nat \<Rightarrow> nat \<Rightarrow> blk_req \<Rightarrow> nat set" where
  "blk_control t n q = {t..<t + 18 * n + 4} \<union> {bq_hdr q..<bq_hdr q + 16}"

definition blk_area :: "blk_req \<Rightarrow> nat set" where
  "blk_area q = insert (bq_status q) (if bq_write q then {} else seg_area (bq_segs q))"

definition used_area :: "nat \<Rightarrow> nat \<Rightarrow> nat set" where
  "used_area us n = {us..<us + 4 + 8 * n}"

text \<open>What serving a request means: the transfer, the status 0, and an element of the used ring.\<close>

definition blk_serve :: "nat \<Rightarrow> nat \<Rightarrow> u16 \<Rightarrow> blk_req \<Rightarrow> guest_ram \<times> (nat \<Rightarrow> u8) \<Rightarrow> (guest_ram \<times> (nat \<Rightarrow> u8)) option" where
  "blk_serve n us u q s =
     (case transfer (bq_write q) (bq_pos q) (bq_segs q) s of
        None \<Rightarrow> None
      | Some (r, D) \<Rightarrow> map_option (\<lambda>r1. (r1, D)) (pokes r (publish_writes n us (bq_status q) u (bq_head q) (of_nat (blk_len q)))))"

fun blk_serve_all :: "nat \<Rightarrow> nat \<Rightarrow> u16 \<Rightarrow> blk_req list \<Rightarrow> guest_ram \<times> (nat \<Rightarrow> u8) \<Rightarrow> (guest_ram \<times> (nat \<Rightarrow> u8)) option" where
  "blk_serve_all n us u [] s = Some s"
| "blk_serve_all n us u (q # qs) s = (case blk_serve n us u q s of None \<Rightarrow> None | Some s1 \<Rightarrow> blk_serve_all n us (u + 1) qs s1)"

lemma posted_touches:
  assumes "touches r r' A" and "blk_control t n q \<inter> A = {}" and "0 < n" and "posted r t n i q"
  shows "posted r' t n i q"
proof -
  have k: "unat i mod n < n" using assms(3) by simp
  have h: "unat (bq_head q) < n" using assms(4) by (simp add: posted_def)
  have sub: "{a..<a + b} \<inter> A = {}" if "t \<le> a" "a + b \<le> t + 18 * n + 4" for a b
  proof -
    have "{a..<a + b} \<subseteq> {t..<t + 18 * n + 4}" using that by auto
    then show ?thesis using assms(2) unfolding blk_control_def by blast
  qed
  have a: "ram_get r' (t + 16 * n + 4 + 2 * (unat i mod n)) 2 = ram_get r (t + 16 * n + 4 + 2 * (unat i mod n)) 2"
    by (rule touches_get [OF assms(1)], rule sub) (use k in simp_all)
  have d: "x_desc_at r' t (unat (bq_head q)) = x_desc_at r t (unat (bq_head q))"
    by (rule x_desc_at_touches [OF assms(1)], rule sub) (use h in simp_all)
  have c: "chained r' t n j segs st = chained r t n j segs st" for j segs st
    by (rule chained_touches [OF assms(1)], rule sub) simp_all
  have b: "ram_get r' (bq_hdr q) 16 = ram_get r (bq_hdr q) 16"
    by (rule touches_get [OF assms(1)]) (use assms(2) in \<open>auto simp: blk_control_def\<close>)
  show ?thesis using assms(4) unfolding posted_def ram_u16_def a d c b .
qed

lemma transfer_bytes: "transfer wr pos segs (r, D) = Some (r', D') \<Longrightarrow> ram_bytes r' = ram_bytes r"
proof (induction segs arbitrary: pos r D)
  case (Cons s segs)
  obtain a l where "s = (a, l)" by fastforce
  with Cons show ?case by (auto split: option.splits if_splits dest: guest.put_size)
qed simp

lemma vio_request_chain:
  assumes "rings_in m n t us r" and "unat desc_gpa = t" and "posted r t (unat n) i q" and "bq_pos q < 2 ^ 63"
  shows "\<exists>h off nxt. vio_request w fd m n desc_gpa (desc_gpa + ucast n * 16) used_gpa i r tr = do {
      (sofar, st, r1, tr1) \<leftarrow> vio_chain w fd m n desc_gpa (if bq_write q then VIO_BLK_T_OUT else VIO_BLK_T_IN) off nxt 0 h r tr;
      r2 \<leftarrow> vio_publish m n used_gpa (xd_addr st) (bq_head q) sofar r1;
      Some (r2, tr1) } \<and> unat off = bq_pos q \<and> chained r t (unat n) (unat nxt) (bq_segs q) (bq_status q)"
proof -
  let ?n = "unat n" and ?k = "unat i mod unat n"
  have n: "0 < ?n" and b: "t + 18 * ?n + 4 \<le> unat m" "unat m = ram_bytes r"
    using assms(1) by (simp_all add: rings_in_def word_less_nat_alt)
  have k: "?k < ?n" using n by simp
  have m: "unat m < 2 ^ 64" using unsigned_less [of m, where 'a = nat] by simp
  have "desc_gpa + ucast n * 16 + 4 + ucast (ucast i mod n) * 2 = desc_gpa + of_nat (16 * ?n + 4 + 2 * ?k)"
    by (simp add: ring_index mult.commute)
  moreover have "unat (desc_gpa + of_nat (16 * ?n + 4 + 2 * ?k)) = t + (16 * ?n + 4 + 2 * ?k)"
    by (rule of_nat_u64_sum [OF assms(2)]) (use b(1) m k in simp)
  ultimately have ua: "unat (desc_gpa + ucast n * 16 + 4 + ucast (ucast i mod n) * 2) = t + 16 * ?n + 4 + 2 * ?k" by (simp only: add.assoc)
  have head: "vio_read16 m r (desc_gpa + ucast n * 16 + 4 + ucast (ucast i mod n) * 2) = Some (bq_head q)"
    using vio_access_in(1) [of "desc_gpa + ucast n * 16 + 4 + ucast (ucast i mod n) * 2" m r] b(1) k assms(3) unfolding ua by (simp add: posted_def)
  have hn: "unat (bq_head q) < ?n" using assms(3) by (simp add: posted_def)
  from assms(3) obtain hb where hb: "ram_get r (t + 16 * unat (bq_head q)) 16 = Some hb" "unat (xd_addr (x_desc_of hb)) = bq_hdr q"
    "chained r t ?n (unat (xd_next (x_desc_of hb))) (bq_segs q) (bq_status q)"
    by (auto simp: posted_def x_desc_at_def split: option.splits)
  from assms(3) obtain qb where qb: "ram_get r (bq_hdr q) 16 = Some qb"
    "rq_type (req_of qb) = (if bq_write q then VIO_BLK_T_OUT else VIO_BLK_T_IN)" "unat (rq_sector (req_of qb)) * 512 = bq_pos q"
    by (auto simp: posted_def split: option.splits)
  have tb: "t + 16 * ?n \<le> unat m" using b(1) by simp
  have hd: "vio_copy_from_guest m r (ucast (bq_head q) * 16 + desc_gpa) 16 = Some hb"
    using vio_desc_read(2) [OF assms(2) tb hn] hb(1) by simp
  have "bq_hdr q + 16 \<le> unat m" using qb(1) b(2) by (simp add: ram_get_Some ram_ok_def)
  then have rq: "vio_copy_from_guest m r (xd_addr (x_desc_of hb)) 16 = Some qb"
    using vio_copy_from_in [of "xd_addr (x_desc_of hb)" 16 m r] hb(2) qb(1) by simp
  have off: "unat (rq_sector (req_of qb) * 512) = bq_pos q"
    using unat_mult_lem [of "rq_sector (req_of qb)" 512] qb(3) assms(4) by simp
  show ?thesis
    using head hd rq qb(2) off hb(3)
    by (intro exI [of _ "x_desc_of hb"] exI [of _ "rq_sector (req_of qb) * 512"] exI [of _ "xd_next (x_desc_of hb)"])
      (cases "bq_write q"; simp add: vio_request_def Let_def)
qed

lemma blk_area_apart:
  assumes "blk_control t n q \<inter> (blk_area q \<union> used_area us n) = {}"
  shows "bq_write q \<or> seg_area (bq_segs q) \<inter> {t..<t + 16 * n} = {}"
proof -
  have "{t..<t + 16 * n} \<subseteq> blk_control t n q" by (auto simp: blk_control_def)
  moreover have "bq_write q \<or> seg_area (bq_segs q) \<subseteq> blk_area q" by (auto simp: blk_area_def)
  ultimately show ?thesis using assms by blast
qed

lemma vio_request_ok:
  assumes "disk_host w fd sz D" and "sz < 2 ^ 63" and "rings_in m n t us r" and "unat desc_gpa = t" and "unat used_gpa = us"
    and "posted r t (unat n) i q" and "blk_ok (unat m) sz q" and "ram_u16 r (us + 2) = Some u"
    and "blk_control t (unat n) q \<inter> (blk_area q \<union> used_area us (unat n)) = {}" and "blk_area q \<inter> used_area us (unat n) = {}"
  shows "\<exists>r' tr'. vio_request w fd m n desc_gpa (desc_gpa + ucast n * 16) used_gpa i r tr = Some (r', tr') \<and>
    blk_serve (unat n) us u q (r, replay fd D tr) = Some (r', replay fd D tr') \<and>
    touches r r' (blk_area q \<union> used_area us (unat n)) \<and> ram_u16 r' (us + 2) = Some (u + 1)"
proof -
  let ?n = "unat n" and ?ty = "if bq_write q then VIO_BLK_T_OUT else VIO_BLK_T_IN"
  have n: "0 < ?n" and b: "t + 16 * ?n \<le> unat m" "us + 4 + 8 * ?n \<le> unat m" "unat m = ram_bytes r"
    using assms(3) by (simp_all add: rings_in_def word_less_nat_alt)
  have "bq_pos q < 2 ^ 63" using assms(2,7) by (simp add: blk_ok_def)
  from vio_request_chain [OF assms(3,4,6) this] obtain h off nxt where
    h: "vio_request w fd m n desc_gpa (desc_gpa + ucast n * 16) used_gpa i r tr = do {
      (sofar, st, r1, tr1) \<leftarrow> vio_chain w fd m n desc_gpa ?ty off nxt 0 h r tr;
      r2 \<leftarrow> vio_publish m n used_gpa (xd_addr st) (bq_head q) sofar r1;
      Some (r2, tr1) }" and off: "unat off = bq_pos q" and ch: "chained r t ?n (unat nxt) (bq_segs q) (bq_status q)" by blast
  have "\<exists>d r' tr'. vio_chain w fd m n desc_gpa ?ty off nxt 0 h r tr = Some (0 + of_nat (sum_list (map snd (bq_segs q))), d, r', tr') \<and>
      unat (xd_addr d) = bq_status q \<and>
      transfer (bq_write q) (bq_pos q + unat (0 :: u32)) (bq_segs q) (r, replay fd D tr) = Some (r', replay fd D tr') \<and>
      touches r r' (if bq_write q then {} else seg_area (bq_segs q))"
    by (rule vio_chain_ok [OF assms(1) off assms(2,4) b(1) refl ch b(3)])
      (use assms(7) blk_area_apart [OF assms(9)] in \<open>auto simp: blk_ok_def blk_len_def\<close>)
  then obtain d r1 tr1 where c: "vio_chain w fd m n desc_gpa ?ty off nxt 0 h r tr = Some (of_nat (blk_len q), d, r1, tr1)"
      "unat (xd_addr d) = bq_status q" "transfer (bq_write q) (bq_pos q) (bq_segs q) (r, replay fd D tr) = Some (r1, replay fd D tr1)"
      "touches r r1 (if bq_write q then {} else seg_area (bq_segs q))"
    by (auto simp: blk_len_def)
  let ?ws = "publish_writes ?n us (bq_status q) u (bq_head q) (of_nat (blk_len q))"
  have "ram_get r1 (us + 2) 2 = ram_get r (us + 2) 2"
    by (rule touches_get [OF c(4)]) (use assms(10) n in \<open>auto simp: blk_area_def used_area_def disjoint_iff\<close>)
  then have u1: "ram_u16 r1 (us + 2) = Some u" using assms(8) by (simp add: ram_u16_def)
  have st: "unat (xd_addr d) < unat m" "unat (xd_addr d) \<notin> {us..<us + 4 + 8 * ?n}"
    using assms(7,10) c(2) by (auto simp: blk_ok_def blk_area_def used_area_def)
  have pub: "vio_publish m n used_gpa (xd_addr d) (bq_head q) (of_nat (blk_len q)) r1 = pokes r1 ?ws"
    using vio_publish_eq [OF assms(5) b(2) _ st(1) u1 st(2)] assms(3) c(2) by (simp add: rings_in_def)
  have "fits (ram_bytes r1) ?ws"
    using b(2,3) st(1) c(2) c(4) n mod_less_divisor [OF n, of "unat u"] by (auto simp: publish_writes_def Let_def touches_def)
  from pokes_defined [OF this] obtain r2 where r2: "pokes r1 ?ws = Some r2" by blast
  have "blk_serve ?n us u q (r, replay fd D tr) = Some (r2, replay fd D tr1)" using c(3) r2 by (simp add: blk_serve_def)
  moreover have "touches r r2 (blk_area q \<union> used_area us ?n)"
  proof (rule touches_trans)
    show "touches r r1 (blk_area q \<union> used_area us ?n)" by (rule touches_mono [OF c(4)]) (auto simp: blk_area_def)
    show "touches r1 r2 (blk_area q \<union> used_area us ?n)" by (rule touches_mono [OF publish_stored(2) [OF r2 n]]) (auto simp: blk_area_def used_area_def)
  qed
  ultimately show ?thesis using h c(1) pub r2 publish_stored(1) [OF r2] by auto
qed

text \<open>A write puts the bytes of its segments, one behind the other, on the disk; a read fills its segments with the bytes of the disk.\<close>

lemma transfer_write:
  assumes "\<forall>(a, l) \<in> set segs. a + l \<le> ram_bytes r"
  shows "transfer True pos segs (r, D) = Some (r, mem_poke D pos (concat (map (\<lambda>(a, l). ram_peek r a l) segs)))"
  using assms
proof (induction segs arbitrary: pos D)
  case (Cons s segs)
  obtain a l where s: "s = (a, l)" by fastforce
  have "ram_get r a l = Some (ram_peek r a l)" using Cons.prems by (simp add: s ram_get_Some ram_ok_def)
  then show ?case using Cons mem_poke_append [of D pos "ram_peek r a l"] by (simp add: s)
qed simp

lemma transfer_read:
  assumes "transfer False pos segs (r, D) = Some (r', D')"
  shows "D' = D" and "pokes r (map (\<lambda>(a, l, p). (a, map D [p..<p + l])) (zip (map fst segs) (zip (map snd segs) (map (\<lambda>k. pos + sum_list (take k (map snd segs))) [0..<length segs])))) = Some r'"
proof -
  have "D' = D \<and> pokes r (map (\<lambda>(a, l, p). (a, map D [p..<p + l])) (zip (map fst segs) (zip (map snd segs) (map (\<lambda>k. pos + sum_list (take k (map snd segs))) [0..<length segs])))) = Some r'"
    using assms
  proof (induction segs arbitrary: pos r)
    case (Cons s segs)
    obtain a l where s: "s = (a, l)" by fastforce
    from Cons.prems obtain r1 where r1: "ram_put r a (map D [pos..<pos + l]) = Some r1" "transfer False (pos + l) segs (r1, D) = Some (r', D')"
      by (auto simp: s split: option.splits)
    have "map (\<lambda>k. pos + sum_list (take k (map snd (s # segs)))) [0..<length (s # segs)] =
        pos # map (\<lambda>k. pos + l + sum_list (take k (map snd segs))) [0..<length segs]"
      by (simp add: s upt_conv_Cons map_Suc_upt [symmetric] comp_def del: upt_Suc)
    then show ?case using Cons.IH [OF r1(2)] r1(1) by (simp add: s)
  qed simp
  then show "D' = D" and "pokes r (map (\<lambda>(a, l, p). (a, map D [p..<p + l])) (zip (map fst segs) (zip (map snd segs) (map (\<lambda>k. pos + sum_list (take k (map snd segs))) [0..<length segs])))) = Some r'"
    by blast+
qed

section \<open>The queue\<close>

fun posted_all :: "guest_ram \<Rightarrow> nat \<Rightarrow> nat \<Rightarrow> u16 \<Rightarrow> blk_req list \<Rightarrow> bool" where
  "posted_all r t n i [] = True"
| "posted_all r t n i (q # qs) = (posted r t n i q \<and> posted_all r t n (i + 1) qs)"

text \<open>No request writes to the rings, to the header of a request or, itself, to the used ring.\<close>

definition blk_apart :: "nat \<Rightarrow> nat \<Rightarrow> nat \<Rightarrow> blk_req list \<Rightarrow> bool" where
  "blk_apart t n us qs \<longleftrightarrow> (\<forall>q \<in> set qs. blk_area q \<inter> used_area us n = {} \<and>
     (\<forall>q' \<in> set qs. blk_control t n q' \<inter> (blk_area q \<union> used_area us n) = {}))"

lemma blk_apart_Cons: "blk_apart t n us (q # qs) \<Longrightarrow> blk_apart t n us qs"
  by (simp add: blk_apart_def)

lemma posted_all_touches:
  assumes "touches r r' A" and "\<forall>q \<in> set qs. blk_control t n q \<inter> A = {}" and "0 < n" and "posted_all r t n i qs"
  shows "posted_all r' t n i qs"
  using assms(2,4)
proof (induction qs arbitrary: i)
  case (Cons q qs)
  then show ?case using posted_touches [OF assms(1) _ assms(3), of t q i] by simp
qed simp

lemma vio_loop_ok:
  assumes "disk_host w fd sz D" and "sz < 2 ^ 63" and "unat desc_gpa = t" and "unat used_gpa = us"
    and "rings_in m n t us r" and "posted_all r t (unat n) i qs" and "\<forall>q \<in> set qs. blk_ok (unat m) sz q" and "ram_u16 r (us + 2) = Some u"
    and "blk_apart t (unat n) us qs" and "length qs < 2 ^ 16"
  shows "\<exists>r' tr'. vio_loop w fd m n desc_gpa (desc_gpa + ucast n * 16) used_gpa (i + of_nat (length qs)) i r tr = Some (i + of_nat (length qs), r', tr') \<and>
    blk_serve_all (unat n) us u qs (r, replay fd D tr) = Some (r', replay fd D tr') \<and>
    touches r r' ((\<Union>q \<in> set qs. blk_area q) \<union> used_area us (unat n))"
  using assms(5-10)
proof (induction qs arbitrary: i r tr u)
  case Nil
  then show ?case by (subst vio_loop.simps) simp
next
  case (Cons q qs)
  let ?n = "unat n"
  let ?A = "(\<Union>q \<in> set (q # qs). blk_area q) \<union> used_area us ?n"
  have n: "0 < ?n" using Cons.prems(1) by (simp add: rings_in_def word_less_nat_alt)
  have "unat (of_nat (length (q # qs)) :: u16) = length (q # qs)" using Cons.prems(6) by (intro unat_u16) simp
  then have ne: "i \<noteq> i + of_nat (length (q # qs))" by auto
  have ap: "blk_control t ?n q \<inter> (blk_area q \<union> used_area us ?n) = {}" "blk_area q \<inter> used_area us ?n = {}"
    using Cons.prems(5) by (simp_all add: blk_apart_def)
  from Cons.prems(2,3) have "posted r t ?n i q" "blk_ok (unat m) sz q" by simp_all
  from vio_request_ok [OF assms(1,2) Cons.prems(1) assms(3,4) this Cons.prems(4) ap] obtain r1 tr1 where
    r1: "vio_request w fd m n desc_gpa (desc_gpa + ucast n * 16) used_gpa i r tr = Some (r1, tr1)"
      "blk_serve ?n us u q (r, replay fd D tr) = Some (r1, replay fd D tr1)" "touches r r1 (blk_area q \<union> used_area us ?n)"
      "ram_u16 r1 (us + 2) = Some (u + 1)" by blast
  have "rings_in m n t us r1" using Cons.prems(1) r1(3) by (simp add: rings_in_def touches_def)
  moreover have "posted_all r1 t ?n (i + 1) qs"
    by (rule posted_all_touches [OF r1(3) _ n]) (use Cons.prems(2,5) in \<open>simp_all add: blk_apart_def\<close>)
  ultimately obtain r' tr' where
    r': "vio_loop w fd m n desc_gpa (desc_gpa + ucast n * 16) used_gpa (i + 1 + of_nat (length qs)) (i + 1) r1 tr1 = Some (i + 1 + of_nat (length qs), r', tr')"
      "blk_serve_all ?n us (u + 1) qs (r1, replay fd D tr1) = Some (r', replay fd D tr')"
      "touches r1 r' ((\<Union>q \<in> set qs. blk_area q) \<union> used_area us ?n)"
    using Cons.IH [of r1 "i + 1" "u + 1" tr1] Cons.prems(3,6) r1(4) blk_apart_Cons [OF Cons.prems(5)] by auto
  have "i + 1 + of_nat (length qs) = i + of_nat (length (q # qs))" by simp
  with r'(1) ne r1(1) have "vio_loop w fd m n desc_gpa (desc_gpa + ucast n * 16) used_gpa (i + of_nat (length (q # qs))) i r tr =
      Some (i + of_nat (length (q # qs)), r', tr')" by (subst vio_loop.simps) simp
  moreover have "blk_serve_all ?n us u (q # qs) (r, replay fd D tr) = Some (r', replay fd D tr')" using r1(2) r'(2) by simp
  moreover have "touches r r' ?A"
  proof (rule touches_trans)
    show "touches r r1 ?A" by (rule touches_mono [OF r1(3)]) auto
    show "touches r1 r' ?A" by (rule touches_mono [OF r'(3)]) auto
  qed
  ultimately show ?case by blast
qed

section \<open>Notification\<close>

definition vio_table :: "x_vio \<Rightarrow> nat" where
  "vio_table q = unat (vio_queue_pfn q) * unat (vio_guest_page_size q)"

definition vio_used_ring :: "x_vio \<Rightarrow> nat" where
  "vio_used_ring q = vio_table q + unat (vio_used_off (vio_queue_num q) (vio_queue_align q))"

text \<open>The driver has set up the queue and made the requests up to index \<open>avail\<close> available; \<open>u\<close> is the index of the used ring.\<close>

definition vio_ready :: "x_vmm \<Rightarrow> u16 \<Rightarrow> u16 \<Rightarrow> bool" where
  "vio_ready v avail u \<longleftrightarrow> vio_queue_pfn (x_vio v) \<noteq> 0 \<and>
     rings_in (x_mem_size v) (vio_queue_num (x_vio v)) (vio_table (x_vio v)) (vio_used_ring (x_vio v)) (x_ram v) \<and>
     ram_u16 (x_ram v) (vio_table (x_vio v) + 16 * unat (vio_queue_num (x_vio v)) + 2) = Some avail \<and>
     ram_u16 (x_ram v) (vio_used_ring (x_vio v) + 2) = Some u"

definition notifies :: "x_mmio \<Rightarrow> bool" where
  "notifies e \<longleftrightarrow> mm_addr e = VIO_MMIO_BASE + vio_reg_off VIO_REG_QUEUE_NOTIFY \<and> mm_is_write e \<and> le_val (mm_data e) = (0 :: u64)"

lemma notify_processes:
  "notifies e \<Longrightarrow> vmm_handle_mmio w e v tr = map_option (\<lambda>(v1, tr1). (e, v1, tr1)) (vio_process_queue w v tr)"
  by (simp add: notifies_def vmm_handle_mmio_def x_virtio_mmio_write_def vio_regs Let_def)

lemma vio_process_loop:
  assumes "vio_ready v avail u"
  shows "\<exists>desc_gpa used_gpa. vio_process_queue w v tr = do {
      (idx, r, tr1) \<leftarrow> vio_loop w (disk_fd (x_disk v)) (x_mem_size v) (vio_queue_num (x_vio v)) desc_gpa
        (desc_gpa + ucast (vio_queue_num (x_vio v)) * 16) used_gpa avail (vio_used_idx (x_vio v)) (x_ram v) tr;
      Some (v\<lparr>x_ram := r, x_vio := (x_vio v)\<lparr>vio_used_idx := idx, vio_isr := vio_isr (x_vio v) OR 1\<rparr>\<rparr>, tr1 @ [X_irq_line (x_vm_fd v) VIO_MMIO_IRQ 1]) } \<and>
    unat desc_gpa = vio_table (x_vio v) \<and> unat used_gpa = vio_used_ring (x_vio v)"
proof -
  let ?q = "x_vio v" and ?m = "x_mem_size v"
  let ?n = "vio_queue_num ?q"
  let ?base = "ucast (vio_queue_pfn ?q) * ucast (vio_guest_page_size ?q) :: u64"
  let ?used = "?base + ucast (vio_used_off ?n (vio_queue_align ?q))"
  have r: "0 < ?n" "vio_table ?q + 18 * unat ?n + 4 \<le> unat ?m" "vio_used_ring ?q + 4 + 8 * unat ?n \<le> unat ?m"
    and pfn: "vio_queue_pfn ?q \<noteq> 0" and av: "ram_u16 (x_ram v) (vio_table ?q + 16 * unat ?n + 2) = Some avail"
    using assms by (simp_all add: vio_ready_def rings_in_def)
  have m: "unat ?m < 2 ^ 64" using unsigned_less [of ?m, where 'a = nat] by simp
  have "unat (ucast (vio_queue_pfn ?q) :: u64) * unat (ucast (vio_guest_page_size ?q) :: u64) < 2 ^ 64"
    using r(2) m by (simp add: unat_ucast_up vio_table_def)
  then have ub: "unat ?base = vio_table ?q"
    using unat_mult_lem [of "ucast (vio_queue_pfn ?q) :: u64" "ucast (vio_guest_page_size ?q)"] by (simp add: unat_ucast_up vio_table_def)
  have uu: "unat ?used = vio_used_ring ?q"
    using of_nat_u64_sum [OF ub, of "unat (vio_used_off ?n (vio_queue_align ?q))"] r(3) m by (simp add: vio_used_ring_def)
  have "?base + ucast ?n * 16 + 2 = ?base + of_nat (16 * unat ?n + 2)" by (simp add: mult.commute)
  moreover have "unat (?base + of_nat (16 * unat ?n + 2)) = vio_table ?q + (16 * unat ?n + 2)"
    by (rule of_nat_u64_sum [OF ub]) (use r(2) m in simp)
  ultimately have ua: "unat (?base + ucast ?n * 16 + 2) = vio_table ?q + 16 * unat ?n + 2" by (simp only: add.assoc)
  have rd: "vio_read16 ?m (x_ram v) (?base + ucast ?n * 16 + 2) = Some avail"
    using vio_access_in(1) [of "?base + ucast ?n * 16 + 2" ?m "x_ram v"] r(2) av unfolding ua by simp
  have "vio_process_queue w v tr = do {
      (idx, r, tr1) \<leftarrow> vio_loop w (disk_fd (x_disk v)) ?m ?n ?base (?base + ucast ?n * 16) ?used avail (vio_used_idx ?q) (x_ram v) tr;
      Some (v\<lparr>x_ram := r, x_vio := ?q\<lparr>vio_used_idx := idx, vio_isr := vio_isr ?q OR 1\<rparr>\<rparr>, tr1 @ [X_irq_line (x_vm_fd v) VIO_MMIO_IRQ 1]) }"
    using r(1) pfn rd by (simp add: vio_process_queue_def Let_def vio_inject_irq_def word_gt_0)
  with ub uu show ?thesis by blast
qed

text \<open>
  Claim C0.  When the driver notifies the virtio block device, every request it has made available since the last time is served, in
  order and once: writes reach the disk image at their sector, reads fill the guest's buffers with what the image then holds, each request gets its
  status and its element in the used ring, nothing else in RAM changes, and the interrupt is raised.  The requests are well-formed and stay inside
  RAM, disk and buffer, and do not write over the rings.
\<close>

theorem vio_queue_served:
  assumes "notifies e" and "vio_ready v (vio_used_idx (x_vio v) + of_nat (length qs)) u" and "length qs < 2 ^ 16"
    and "posted_all (x_ram v) (vio_table (x_vio v)) (unat (vio_queue_num (x_vio v))) (vio_used_idx (x_vio v)) qs"
    and "\<forall>q \<in> set qs. blk_ok (unat (x_mem_size v)) sz q" and "sz < 2 ^ 63"
    and "blk_apart (vio_table (x_vio v)) (unat (vio_queue_num (x_vio v))) (vio_used_ring (x_vio v)) qs"
    and "disk_host w (disk_fd (x_disk v)) sz D"
  shows "\<exists>r' tr'. vmm_handle_mmio w e v tr = Some (e,
      v\<lparr>x_ram := r', x_vio := (x_vio v)\<lparr>vio_used_idx := vio_used_idx (x_vio v) + of_nat (length qs), vio_isr := vio_isr (x_vio v) OR 1\<rparr>\<rparr>,
      tr' @ [X_irq_line (x_vm_fd v) VIO_MMIO_IRQ 1]) \<and>
    blk_serve_all (unat (vio_queue_num (x_vio v))) (vio_used_ring (x_vio v)) u qs (x_ram v, replay (disk_fd (x_disk v)) D tr) =
      Some (r', replay (disk_fd (x_disk v)) D tr') \<and>
    touches (x_ram v) r' ((\<Union>q \<in> set qs. blk_area q) \<union> used_area (vio_used_ring (x_vio v)) (unat (vio_queue_num (x_vio v))))"
proof -
  from vio_process_loop [OF assms(2), of w tr] obtain dg ug where
    p: "vio_process_queue w v tr = do {
      (idx, r, tr1) \<leftarrow> vio_loop w (disk_fd (x_disk v)) (x_mem_size v) (vio_queue_num (x_vio v)) dg (dg + ucast (vio_queue_num (x_vio v)) * 16) ug
        (vio_used_idx (x_vio v) + of_nat (length qs)) (vio_used_idx (x_vio v)) (x_ram v) tr;
      Some (v\<lparr>x_ram := r, x_vio := (x_vio v)\<lparr>vio_used_idx := idx, vio_isr := vio_isr (x_vio v) OR 1\<rparr>\<rparr>, tr1 @ [X_irq_line (x_vm_fd v) VIO_MMIO_IRQ 1]) }"
    and g: "unat dg = vio_table (x_vio v)" "unat ug = vio_used_ring (x_vio v)" by blast
  have "rings_in (x_mem_size v) (vio_queue_num (x_vio v)) (vio_table (x_vio v)) (vio_used_ring (x_vio v)) (x_ram v)"
    and "ram_u16 (x_ram v) (vio_used_ring (x_vio v) + 2) = Some u" using assms(2) by (simp_all add: vio_ready_def)
  from vio_loop_ok [OF assms(8,6) g this(1) assms(4,5) this(2) assms(7,3), of tr] show ?thesis
    by (auto simp: notify_processes [OF assms(1)] p)
qed

lemma vio_chunk_wraps:
  assumes "unat sofar \<le> DATA_SIZE" and "2 ^ 32 \<le> unat sofar + unat len"
  shows "vio_chunk sofar len = len"
proof -
  have "unat (sofar + len) = (unat sofar + unat len) mod 2 ^ 32" by (simp add: unat_word_ariths)
  also have "\<dots> = unat sofar + unat len - 2 ^ 32"
    using assms(2) unsigned_less [of sofar, where 'a = nat] unsigned_less [of len, where 'a = nat] by (simp add: mod_if)
  also have "\<dots> \<le> DATA_SIZE" using assms(1) unsigned_less [of len, where 'a = nat] by simp
  finally show ?thesis by (simp add: vio_chunk_def)
qed

text \<open>
  Claim C0.  A guest can make the block device write past its buffer of 128 KB on the monitor's stack: the check of a segment adds its length to the
  bytes so far in 32 bits, so that a segment long enough for the sum to wrap is taken whole.
\<close>

theorem vio_data_overflow:
  assumes "notifies e" and "vio_ready v avail u" and "avail \<noteq> vio_used_idx (x_vio v)"
    and "posted (x_ram v) (vio_table (x_vio v)) (unat (vio_queue_num (x_vio v))) (vio_used_idx (x_vio v)) q"
    and "bq_segs q = (a, l) # (b, k) # segs" and "l \<le> DATA_SIZE" and "2 ^ 32 \<le> l + k"
    and "a < unat (x_mem_size v)" and "a + l \<le> unat (x_mem_size v)" and "bq_pos q + l \<le> sz" and "sz < 2 ^ 63"
    and "bq_write q \<or> {a..<a + l} \<inter> {vio_table (x_vio v)..<vio_table (x_vio v) + 16 * unat (vio_queue_num (x_vio v))} = {}"
    and "disk_host w (disk_fd (x_disk v)) sz D"
  shows "vmm_handle_mmio w e v tr = None"
proof -
  let ?m = "x_mem_size v" and ?n = "vio_queue_num (x_vio v)" and ?t = "vio_table (x_vio v)" and ?r = "x_ram v" and ?i = "vio_used_idx (x_vio v)"
  let ?ty = "if bq_write q then VIO_BLK_T_OUT else VIO_BLK_T_IN" and ?fd = "disk_fd (x_disk v)"
  from vio_process_loop [OF assms(2), of w tr] obtain dg ug where
    p: "vio_process_queue w v tr = do {
      (idx, r, tr1) \<leftarrow> vio_loop w ?fd ?m ?n dg (dg + ucast ?n * 16) ug avail ?i ?r tr;
      Some (v\<lparr>x_ram := r, x_vio := (x_vio v)\<lparr>vio_used_idx := idx, vio_isr := vio_isr (x_vio v) OR 1\<rparr>\<rparr>, tr1 @ [X_irq_line (x_vm_fd v) VIO_MMIO_IRQ 1]) }"
    and dg: "unat dg = ?t" by blast
  have rings: "rings_in ?m ?n ?t (vio_used_ring (x_vio v)) ?r" using assms(2) by (simp add: vio_ready_def)
  then have tb: "?t + 16 * unat ?n \<le> unat ?m" and mb: "unat ?m = ram_bytes ?r" by (simp_all add: rings_in_def)
  have "bq_pos q < 2 ^ 63" using assms(10,11) by simp
  from vio_request_chain [OF rings dg assms(4) this, of w ?fd ug tr] obtain h off nxt where
    h: "vio_request w ?fd ?m ?n dg (dg + ucast ?n * 16) ug ?i ?r tr = do {
      (sofar, st, r1, tr1) \<leftarrow> vio_chain w ?fd ?m ?n dg ?ty off nxt 0 h ?r tr;
      r2 \<leftarrow> vio_publish ?m ?n ug (xd_addr st) (bq_head q) sofar r1;
      Some (r2, tr1) }" and off: "unat off = bq_pos q" and ch: "chained ?r ?t (unat ?n) (unat nxt) ((a, l) # (b, k) # segs) (bq_status q)"
    unfolding assms(5) by blast
  have b: "bq_pos q + unat (0 :: u32) + l \<le> sz" "unat (0 :: u32) + l \<le> DATA_SIZE" using assms(6,10) by simp_all
  from vio_chain_step [OF assms(13) off assms(11) dg tb refl ch mb b assms(8,9,12), of h tr] obtain nxt' r1 tr1 where
    c: "vio_chain w ?fd ?m ?n dg ?ty off nxt 0 h ?r tr = vio_chain w ?fd ?m ?n dg ?ty off nxt' (of_nat l) h r1 tr1"
      "chained r1 ?t (unat ?n) (unat nxt') ((b, k) # segs) (bq_status q)" by auto
  from c(2) obtain cs where cs: "unat nxt' < unat ?n" "ram_get r1 (?t + 16 * unat nxt') 16 = Some cs" "xd_flags (x_desc_of cs) AND 1 \<noteq> 0"
      "unat (xd_len (x_desc_of cs)) = k"
    by (auto simp: x_desc_at_def split: option.splits)
  have l: "unat (of_nat l :: u32) = l" using assms(6) by (intro unat_u32) (simp add: DATA_SIZE_def)
  have "vio_segment w ?fd ?m ?ty off (of_nat l) (xd_addr (x_desc_of cs)) (vio_chunk (of_nat l) (xd_len (x_desc_of cs))) r1 tr1 = None"
    using vio_chunk_wraps [of "of_nat l" "xd_len (x_desc_of cs)"] assms(6,7) l cs(4) by (simp add: vio_segment_def DATA_SIZE_def)
  then have "vio_chain w ?fd ?m ?n dg ?ty off nxt' (of_nat l) h r1 tr1 = None"
    using cs by (subst vio_chain.simps) (simp add: vio_desc_read(1) [OF dg tb cs(1)] Let_def word_less_nat_alt unat_ucast_up)
  with c(1) have "vio_loop w ?fd ?m ?n dg (dg + ucast ?n * 16) ug avail ?i ?r tr = None"
    using h assms(3) by (subst vio_loop.simps) simp
  then show ?thesis by (simp add: notify_processes [OF assms(1)] p)
qed

section \<open>A queue with one request\<close>

text \<open>A table of four descriptors at 0x1000 with the first one available, and the header of the request at 0x3000.\<close>

definition x_desc_bytes :: "x_vring_desc \<Rightarrow> u8 list" where
  "x_desc_bytes d = le_bytes 8 (xd_addr d) @ le_bytes 4 (xd_len d) @ le_bytes 2 (xd_flags d) @ le_bytes 2 (xd_next d)"

definition demo_req_bytes :: "u32 \<Rightarrow> u8 list" where
  "demo_req_bytes ty = le_bytes 4 ty @ le_bytes 4 (0 :: u32) @ le_bytes 8 (0 :: u64)"

definition demo_ring_writes :: "x_vring_desc list \<Rightarrow> u32 \<Rightarrow> (nat \<times> u8 list) list" where
  "demo_ring_writes ds ty = [(0x1000, concat (map x_desc_bytes ds)), (0x1042, le_bytes 2 (1 :: u16)), (0x3000, demo_req_bytes ty)]"

definition demo_blk_vmm :: "x_vring_desc list \<Rightarrow> u32 \<Rightarrow> x_vmm" where
  "demo_blk_vmm ds ty = (demo_disk_vmm 0x10000)\<lparr>x_mem_size := 0x10000,
     x_ram := (case pokes (fresh_ram 0x10000) (demo_ring_writes ds ty) of Some r \<Rightarrow> r | None \<Rightarrow> fresh_ram 0x10000),
     x_vio := zero_vio\<lparr>vio_guest_page_size := 4096, vio_queue_num := 4, vio_queue_align := 4096, vio_queue_pfn := 1\<rparr>\<rparr>"

lemma x_desc_of_bytes [simp]: "x_desc_of (x_desc_bytes d) = d"
  by (cases d) (simp add: x_desc_of_def x_desc_bytes_def)

lemma length_x_desc_bytes [simp]: "length (x_desc_bytes d) = 16"
  by (simp add: x_desc_bytes_def)

lemma demo_ring_facts:
  assumes "length ds = 4"
  shows "i < 4 \<Longrightarrow> x_desc_at (x_ram (demo_blk_vmm ds ty)) 0x1000 i = Some (ds ! i)"
    and "ram_u16 (x_ram (demo_blk_vmm ds ty)) 0x1042 = Some 1" and "ram_u16 (x_ram (demo_blk_vmm ds ty)) 0x1044 = Some 0"
    and "ram_get (x_ram (demo_blk_vmm ds ty)) 0x3000 16 = Some (demo_req_bytes ty)"
    and "ram_u16 (x_ram (demo_blk_vmm ds ty)) 0x2002 = Some 0" and "ram_bytes (x_ram (demo_blk_vmm ds ty)) = 0x10000"
proof -
  let ?ws = "demo_ring_writes ds ty"
  have lc: "length (concat (map x_desc_bytes ds)) = 64" using assms by (simp add: length_concat comp_def sum_list_triv)
  have "fits (ram_bytes (fresh_ram 0x10000)) ?ws" using lc by (simp add: demo_ring_writes_def demo_req_bytes_def fresh_ram_def)
  from pokes_defined [OF this] obtain r where r: "pokes (fresh_ram 0x10000) ?ws = Some r" by blast
  then have v: "x_ram (demo_blk_vmm ds ty) = r" by (simp add: demo_blk_vmm_def)
  have z: "ram_get (fresh_ram 0x10000) a 2 = Some [0, 0]" if "a < 0xF000" for a
    using that by (simp add: ram_get_def ram_ok_def ram_peek_def fresh_ram_def upt_rec)
  show "x_desc_at (x_ram (demo_blk_vmm ds ty)) 0x1000 i = Some (ds ! i)" if "i < 4"
  proof -
    have "ram_get r (0x1000 + 16 * i) 16 = Some (take 16 (drop (16 * i) (concat (map x_desc_bytes ds))))"
      using pokes_nth_sub [OF r, of 0 "0x1000" "concat (map x_desc_bytes ds)" "0x1000 + 16 * i" 16] that lc
      by (simp add: demo_ring_writes_def)
    then show ?thesis using block_nth [of x_desc_bytes 16 i ds] that assms by (simp add: v x_desc_at_def)
  qed
  show "ram_u16 (x_ram (demo_blk_vmm ds ty)) 0x1042 = Some 1"
    using pokes_nth [OF r, of 1 "0x1042" "le_bytes 2 (1 :: u16)"] by (simp add: v ram_u16_def demo_ring_writes_def)
  show "ram_get (x_ram (demo_blk_vmm ds ty)) 0x3000 16 = Some (demo_req_bytes ty)"
    using pokes_nth [OF r, of 2 "0x3000" "demo_req_bytes ty"] by (simp add: v demo_ring_writes_def demo_req_bytes_def)
  show "ram_u16 (x_ram (demo_blk_vmm ds ty)) 0x1044 = Some 0" "ram_u16 (x_ram (demo_blk_vmm ds ty)) 0x2002 = Some 0"
    using pokes_clear [OF r, of "0x1044" 2] pokes_clear [OF r, of "0x2002" 2] lc z by (simp_all add: v ram_u16_def demo_ring_writes_def demo_req_bytes_def)
  show "ram_bytes (x_ram (demo_blk_vmm ds ty)) = 0x10000" using pokes_bytes [OF r] by (simp add: v fresh_ram_def)
qed

lemma demo_blk_simps [simp]:
  "x_mem_size (demo_blk_vmm ds ty) = 0x10000" "vio_table (x_vio (demo_blk_vmm ds ty)) = 0x1000" "vio_used_ring (x_vio (demo_blk_vmm ds ty)) = 0x2000"
  "vio_queue_num (x_vio (demo_blk_vmm ds ty)) = 4" "vio_used_idx (x_vio (demo_blk_vmm ds ty)) = 0" "vio_queue_pfn (x_vio (demo_blk_vmm ds ty)) = 1"
  by (simp_all add: demo_blk_vmm_def vio_table_def vio_used_ring_def vio_used_off_def zero_vio_def)

lemma demo_blk_ready: "length ds = 4 \<Longrightarrow> vio_ready (demo_blk_vmm ds ty) 1 0"
  using demo_ring_facts(2-) [of ds ty] by (simp add: vio_ready_def rings_in_def)

definition notify_write :: x_mmio where
  "notify_write = \<lparr>mm_addr = 0xa0000050, mm_data = [0, 0, 0, 0], mm_is_write = True\<rparr>"

lemma notify_write_notifies: "notifies notify_write"
  by (simp add: notifies_def notify_write_def vio_regs)

definition demo_write_chain :: "x_vring_desc list" where
  "demo_write_chain = [\<lparr>xd_addr = 0x3000, xd_len = 16, xd_flags = 1, xd_next = 1\<rparr>, \<lparr>xd_addr = 0x4000, xd_len = 512, xd_flags = 1, xd_next = 2\<rparr>,
     \<lparr>xd_addr = 0x5000, xd_len = 1, xd_flags = 2, xd_next = 0\<rparr>, \<lparr>xd_addr = 0, xd_len = 0, xd_flags = 0, xd_next = 0\<rparr>]"

definition demo_write_req :: blk_req where
  "demo_write_req = \<lparr>bq_head = 0, bq_hdr = 0x3000, bq_write = True, bq_pos = 0, bq_segs = [(0x4000, 512)], bq_status = 0x5000\<rparr>"

lemma demo_header: "rq_type (req_of (demo_req_bytes ty)) = ty" "rq_sector (req_of (demo_req_bytes ty)) = 0"
  by (simp_all add: req_of_def demo_req_bytes_def)

lemma demo_write_posted: "posted (x_ram (demo_blk_vmm demo_write_chain VIO_BLK_T_OUT)) 0x1000 4 0 demo_write_req"
  using demo_ring_facts(1) [of demo_write_chain _ VIO_BLK_T_OUT] demo_ring_facts(3,4) [of demo_write_chain VIO_BLK_T_OUT]
  by (simp add: posted_def demo_write_req_def demo_header demo_write_chain_def)

text \<open>One write of 512 bytes to sector 0.\<close>

theorem vio_queue_served_witness:
  "\<exists>r' tr'. vmm_handle_mmio (x_disk_os (\<lambda>_. 7)) notify_write (demo_blk_vmm demo_write_chain VIO_BLK_T_OUT) [] =
      Some (notify_write, (demo_blk_vmm demo_write_chain VIO_BLK_T_OUT)\<lparr>x_ram := r',
        x_vio := (x_vio (demo_blk_vmm demo_write_chain VIO_BLK_T_OUT))\<lparr>vio_used_idx := 1, vio_isr := 1\<rparr>\<rparr>, tr' @ [X_irq_line 0 5 1]) \<and>
    blk_serve_all 4 0x2000 0 [demo_write_req] (x_ram (demo_blk_vmm demo_write_chain VIO_BLK_T_OUT), \<lambda>_. 7) = Some (r', replay 5 (\<lambda>_. 7) tr')"
proof -
  let ?v = "demo_blk_vmm demo_write_chain VIO_BLK_T_OUT"
  have s: "x_vm_fd ?v = 0" "disk_fd (x_disk ?v) = 5" "vio_isr (x_vio ?v) = 0"
    by (simp_all add: demo_blk_vmm_def demo_disk_vmm_def zero_vmm_def zero_vio_def)
  have ok: "blk_ok 0x10000 1024 demo_write_req" by (simp add: blk_ok_def blk_len_def demo_write_req_def DATA_SIZE_def)
  have ap: "blk_apart 0x1000 4 0x2000 [demo_write_req]"
    by (auto simp: blk_apart_def demo_write_req_def blk_area_def blk_control_def used_area_def)
  have len: "length demo_write_chain = 4" by (simp add: demo_write_chain_def)
  from vio_queue_served [of notify_write ?v "[demo_write_req]" 0 1024 "x_disk_os (\<lambda>_. 7)" "\<lambda>_. 7" "[]"]
    notify_write_notifies demo_blk_ready [OF len, of VIO_BLK_T_OUT] demo_write_posted ok ap x_disk_os_host
  show ?thesis by (auto simp: s VIO_MMIO_IRQ_def)
qed

definition demo_long_chain :: "x_vring_desc list" where
  "demo_long_chain = [\<lparr>xd_addr = 0x3000, xd_len = 16, xd_flags = 1, xd_next = 1\<rparr>, \<lparr>xd_addr = 0x4000, xd_len = 512, xd_flags = 3, xd_next = 2\<rparr>,
     \<lparr>xd_addr = 0x4000, xd_len = 0xFFFFFE00, xd_flags = 3, xd_next = 3\<rparr>, \<lparr>xd_addr = 0x5000, xd_len = 1, xd_flags = 2, xd_next = 0\<rparr>]"

definition demo_long_req :: blk_req where
  "demo_long_req = \<lparr>bq_head = 0, bq_hdr = 0x3000, bq_write = False, bq_pos = 0, bq_segs = [(0x4000, 512), (0x4000, 0xFFFFFE00)], bq_status = 0x5000\<rparr>"

lemma demo_long_posted: "posted (x_ram (demo_blk_vmm demo_long_chain VIO_BLK_T_IN)) 0x1000 4 0 demo_long_req"
  using demo_ring_facts(1) [of demo_long_chain _ VIO_BLK_T_IN] demo_ring_facts(3,4) [of demo_long_chain VIO_BLK_T_IN]
  by (simp add: posted_def demo_long_req_def demo_header demo_long_chain_def)

theorem vio_data_overflow_witness:
  "vmm_handle_mmio (x_disk_os (\<lambda>_. 7)) notify_write (demo_blk_vmm demo_long_chain VIO_BLK_T_IN) [] = None"
proof -
  let ?v = "demo_blk_vmm demo_long_chain VIO_BLK_T_IN"
  have d: "DATA_SIZE = 131072" by (simp add: DATA_SIZE_def)
  show ?thesis
    by (rule vio_data_overflow [OF notify_write_notifies demo_blk_ready, where q = demo_long_req and sz = 1024 and D = "\<lambda>_. 7" and l = 512 and k = "0xFFFFFE00"])
      (use demo_long_posted in \<open>auto simp: demo_long_chain_def demo_long_req_def x_disk_os_host d\<close>)
qed

section \<open>Chains that do not end\<close>

text \<open>Nothing bounds the walk along a chain: a descriptor of length 0 that names itself as the next one keeps the monitor busy for ever.\<close>

lemma vio_chain_cycle:
  assumes "ucast i < n" and "vio_copy_from_guest m r (desc_gpa + ucast i * 16) 16 = Some bs"
    and "xd_flags (x_desc_of bs) AND 1 \<noteq> 0" and "xd_next (x_desc_of bs) = i" and "xd_len (x_desc_of bs) = 0"
  shows "vio_chain w fd m n desc_gpa VIO_BLK_T_OUT off i 0 st r tr = None"
proof (rule ccontr)
  assume "vio_chain w fd m n desc_gpa VIO_BLK_T_OUT off i 0 st r tr \<noteq> None"
  then obtain y where y: "vio_chain w fd m n desc_gpa VIO_BLK_T_OUT off i 0 st r tr = Some y" by blast
  let ?P = "\<lambda>(w :: ex_os) (fd :: int) m' n' g ty (off :: u64) nxt (sofar :: u32) (st :: x_vring_desc) r' (tr :: ex_log) (y :: u32 \<times> x_vring_desc \<times> guest_ram \<times> ex_log).
      \<not> (m' = m \<and> n' = n \<and> g = desc_gpa \<and> nxt = i \<and> ty = VIO_BLK_T_OUT \<and> sofar = 0 \<and> r' = r)"
  have "?P w fd m n desc_gpa VIO_BLK_T_OUT off i 0 st r tr y"
  proof (rule vio_chain.raw_induct [where P = ?P, OF _ y])
    fix vc :: "ex_os \<Rightarrow> int \<Rightarrow> u64 \<Rightarrow> u32 \<Rightarrow> u64 \<Rightarrow> u32 \<Rightarrow> u64 \<Rightarrow> u16 \<Rightarrow> u32 \<Rightarrow> x_vring_desc \<Rightarrow> guest_ram \<Rightarrow> ex_log \<Rightarrow> (u32 \<times> x_vring_desc \<times> guest_ram \<times> ex_log) option"
      and w fd m' n' g ty off sofar st r' tr y and nxt :: u16
    assume IH: "\<And>w fd m' n' g ty off nxt sofar st r' tr y. vc w fd m' n' g ty off nxt sofar st r' tr = Some y \<Longrightarrow> ?P w fd m' n' g ty off nxt sofar st r' tr y"
      and e: "(if ucast nxt < n' then
        (case vio_copy_from_guest m' r' (g + ucast nxt * 16) 16 of
           None \<Rightarrow> None
         | Some bs \<Rightarrow>
             (let d = x_desc_of bs
              in if xd_flags d AND 1 = 0 then Some (sofar, d, r', tr)
                 else (let chunk = vio_chunk sofar (xd_len d)
                       in case vio_segment w fd m' ty off sofar (xd_addr d) chunk r' tr of
                            None \<Rightarrow> None
                          | Some (r1, tr1) \<Rightarrow> vc w fd m' n' g ty off (xd_next d) (sofar + chunk) st r1 tr1)))
      else Some (sofar, st, r', tr)) = Some y"
    have "vio_chunk 0 0 = 0" "vio_segment w fd m VIO_BLK_T_OUT off 0 (xd_addr (x_desc_of bs)) 0 r tr = Some (r, tr @ [X_pwrite fd [] (sint off)])"
      by (simp_all add: vio_chunk_def vio_segment_def VIO_BLK_T_IN_def VIO_BLK_T_OUT_def Let_def)
    then show "?P w fd m' n' g ty off nxt sofar st r' tr y"
      using e assms IH [of w fd m n desc_gpa VIO_BLK_T_OUT off i 0 st r "tr @ [X_pwrite fd [] (sint off)]" y] by (auto simp: Let_def)
  qed
  then show False by simp
qed

end
