(* ===== verification/Spec2Isabelle.thy ===== *)
theory Spec2Isabelle
  imports Net_Datapath Config_To_Guest Clones Snap_Device Example_Bios Example_Kernel Example_Virtio
begin

text \<open>
  Verification of vmtainer, a micro virtual machine monitor on KVM for Linux guests that can be saved to a
  file, restored and cloned.

  \<^bold>\<open>The program.\<close>  A class \<open>Vmm\<close> (\<^verbatim>\<open>src/src/vmm.hpp\<close>, \<^verbatim>\<open>vmm.cpp\<close>, \<^verbatim>\<open>virtio.cpp\<close>) owns the guest's RAM, one vCPU, a
  virtio-fs device whose queues an external \<open>virtiofsd\<close> serves over vhost-user, a virtio-net device that a thread
  of the monitor serves from a TAP interface, and a serial console.  It loads a Linux kernel with a small
  BIOS or restores a snapshot, and then runs the vCPU until the guest stops or asks for a snapshot.  In the guest, the first
  process (\<^verbatim>\<open>src/initrd_src/init.c\<close>) asks for the snapshot, and after a restore mounts the shared directory, reads the
  configuration that the monitor has put there and runs the container's entrypoint.

  \<^bold>\<open>How the model is built.\<close>  Each theory has the code's data as records and datatypes and one definition
  per function or handler, in the order of the source.  Machine integers are words of their width.  Memory is
  checked: an access outside guest RAM, a read past an object or a division by zero is \<open>None\<close>, as is a loop that does
  not end (\<open>partial_function\<close>).  System calls, KVM requests and messages are values of
  \<open>host_call\<close> (theory \<open>Host_Os\<close>); a function of the code that makes them takes the log of calls so far and returns it
  extended.  What the kernel answers is a parameter \<open>os\<close>, any function of the log and the call, so a theorem without a
  hypothesis on it holds for every behaviour of the host.

  \<^item> \<open>Prelude\<close>: little-endian encoding, lists and words.
  \<^item> \<open>Guest_Ram\<close>: the RAM mapping behind \<open>gpa_ptr\<close>, and the locale \<open>byte_store\<close> of its laws, which the
    guest RAM and flat buffers both satisfy.
  \<^item> \<open>Host_Os\<close>: the calls to the host, and what a log says about descriptors and interrupt lines.
  \<^item> \<open>Virtio_Types\<close>: registers, queues and features of \<^verbatim>\<open>virtio.hpp\<close>, and the locale \<open>virtio_transport\<close> of a register file
    that programs queues; both devices satisfy it.
  \<^item> \<open>Vhost_User\<close>: the vhost-user front end (\<open>vu_connect\<close>, \<open>vu_send\<close>, \<open>vu_early_init\<close>, \<open>vu_setup\<close>), down to the bytes of
    each message.
  \<^item> \<open>Virtio_Fs\<close>, \<open>Virtio_Net\<close>: the register files of the two devices, notification, interrupts, reset, and the set-up of
    the TAP.
  \<^item> \<open>Net_Datapath\<close>: \<open>net_thread_func\<close>, the thread that moves packets between the rings and the TAP.  The locale
    \<open>ring_service\<close> states what serving one ring entry promises; transmit and receive satisfy it.
  \<^item> \<open>Uart\<close>: the serial console (\<open>serial_in\<close>, \<open>serial_out\<close>) and the entrypoint timing.
  \<^item> \<open>Pages\<close>: zero pages and the dirty bitmap of \<open>save_snapshot\<close>.
  \<^item> \<open>Restore_Engines\<close>: the copy threads of \<open>restore_snapshot\<close>, interleaved by an explicit schedule.  The locale
    \<open>page_restorer\<close> states what an engine promises; the bitmap copy and the scan satisfy it.
  \<^item> \<open>Snapshot_Format\<close>: the header \<open>SnapHeader\<close> byte by byte, the file and its parser.
  \<^item> \<open>Uffd\<close>: demand paging with userfaultfd (\<open>init_uffd\<close>, \<open>uffd_worker\<close>).
  \<^item> \<open>Snapshot\<close>: the record \<open>vmm\<close> and \<open>save_snapshot\<close>, \<open>restore_snapshot\<close> and their file forms, composed of the above.
  \<^item> \<open>Run_Loop\<close>: \<open>Vmm::run\<close> with every exit it handles, and the thread that interrupts it (\<open>irq_thread_func\<close>).
  \<^item> \<open>Boot\<close>: the BIOS image, memory map and interrupt vectors (\<open>setup_bios\<close>), kernel and RAM disk
    (\<open>load_bzimage\<close>, \<open>load_initrd\<close>) and the processor's first state (\<open>setup_cpu\<close>).
  \<^item> \<open>Lifecycle\<close>: the record \<open>machine\<close> with the descriptors around \<open>vmm\<close>, creation (\<open>init\<close>, \<open>start_virtiofsd\<close>) and
    destruction (\<open>cleanup\<close>).
  \<^item> \<open>C_Strings\<close>: the C string functions that the source uses, with the laws of printing and scanning.
  \<^item> \<open>Config\<close>: the parser of the configuration file (\<open>parse_config\<close>) and the files for the guest (\<open>write_config_to_share\<close>).
  \<^item> \<open>Guest_Init\<close>: the guest's first process, with its own system calls \<open>guest_call\<close> and kernel \<open>guest_os\<close>.
  \<^item> \<open>Config_To_Guest\<close>: the way of a configuration from the host's file to the program the guest executes.
  \<^item> \<open>Commands\<close>: \<open>main\<close> with \<open>boot\<close>, \<open>restore\<close> and \<open>clone\<close>, composed of the operations above.  The record \<open>world\<close> collects what they
    depend on: the host, the events of the vCPU, the order of the copy threads, what the guest stores in RAM while it runs.
  \<^item> \<open>Clones\<close>: the snapshot that all clones share, and their addresses.
  \<^item> \<open>Snap_Device\<close>: the kernel module \<^verbatim>\<open>src/kmod/vmtainer_snap.c\<close>, whose operations are the steps of a relation on a state of files, buffers
    and mappings; what the kernel below it answers is an argument of each operation.
  \<^item> \<open>Copies\<close>: sequences of stores to guest RAM, shared by the two loaders.
  \<^item> The example monitor under \<^verbatim>\<open>src/docs/example-vmm\<close>, a small program of its own: \<open>Example_Host\<close> (its structures and the calls it makes,
    \<open>ex_call\<close>, answered by \<open>ex_os\<close>), \<open>Example_Acpi\<close> (\<^verbatim>\<open>acpi.c\<close>), \<open>Example_Bios\<close> (\<^verbatim>\<open>bios.c\<close>), \<open>Example_Kernel\<close> (\<^verbatim>\<open>kernel.c\<close>), \<open>Example_Devices\<close> (the
    IDE disk and the serial port of \<^verbatim>\<open>vmm.c\<close>) and \<open>Example_Virtio\<close> (its virtio block device).

  \<^bold>\<open>What is shown.\<close>  A saved machine comes back: its RAM byte for byte under every fair schedule of the copy threads and
  under demand paging, the state of KVM in the order of the code, the device registers; the file format is a round trip, and
  truncated or foreign files are refused.  The devices hold exactly what the driver programs, their interrupt line agrees with
  their status, and the vhost-user back end is told the rings the guest set up.  The packet thread always
  returns from a pass, sends exactly the queued frames and delivers packets whole.  The run loop
  returns 1 exactly for a snapshot request that is not to be ignored.  The boot image is where the kernel expects it.
  Creation and destruction open and close the same descriptors on every path.  What \<open>boot\<close> saves when the guest asks for it, \<open>restore\<close>
  brings back; clones read the same snapshot and have different addresses.  What the configuration file says is what
  the guest sets up and executes, after the snapshot and inside the shared directory.  The buffers of the snapshot device are zero at
  first and private to the file they were allocated through.
  Further theorems and lemmas pin down where the code does less than it should: unchecked guest addresses, parsers
  that overflow, lost short writes, a device that is dead after a reset, a truncated snapshot that is cloned.

  \<^bold>\<open>Bounds.\<close>  The only fuel is in the code itself (64 descriptors of a chain).  Schedules and lists of events are
  arguments; that the copy threads return is proved for schedules that give each thread enough turns, which
  the schedule used in the witness does (260 rounds for 256 pages).

  \<^bold>\<open>Not modelled.\<close>  The benchmarks \<^verbatim>\<open>scripts/mem_bench.c\<close> and \<^verbatim>\<open>kmod/snap_bench.c\<close>, which measure and print durations; of the
  example monitor the creation of machine and vCPUs and the threads.  Debug output and printed timings are left
  out everywhere, and memory barriers: the guest does not run while the packet thread serves an entry.
\<close>

section \<open>Restore and run\<close>

text \<open>
  Claim C17.  A restored guest goes on.  The snapshot was taken in the middle of the guest's write to the signal
  register, which the guest makes again when it is restored.  After a successful restore the run loop
  takes that write without returning and with RAM, network device and console untouched;
  the next signal is a new request, for which the loop returns 1.
\<close>

theorem restored_guest_resumes:
  assumes "restore_snapshot sched w hva s v tr = Some (True, v', tr')" and "is_signal e" and "is_signal e'"
  shows "(\<exists>v1 t1. run w' hva' (e # es) c v' t = run w' hva' es 0 v1 t1 \<and>
      ram v1 = ram v' \<and> net v1 = net v' \<and> serial v1 = serial v' \<and> \<not> ignore_next_signal v1) \<and>
    (\<exists>v2 t2. run w' hva' (e # e' # es) c v' t = Some (Returned 1 es, v2, t2))"
proof (intro conjI)
  have i: "ignore_next_signal v'" using restore_snapshot_True(2) [OF assms(1)] by auto
  from assms(2,3) obtain a bs len a' bs' len' where
    e: "e = Ran (Exit_mmio_write a bs len)" "unat a = MMIO_SIGNAL_GPA" "mmio_val bs len = MMIO_SIGNAL_MAGIC" and
    e': "e' = Ran (Exit_mmio_write a' bs' len')" "unat a' = MMIO_SIGNAL_GPA" "mmio_val bs' len' = MMIO_SIGNAL_MAGIC"
    by (auto elim!: is_signal.elims)
  show "\<exists>v1 t1. run w' hva' (e # es) c v' t = run w' hva' es 0 v1 t1 \<and>
      ram v1 = ram v' \<and> net v1 = net v' \<and> serial v1 = serial v' \<and> \<not> ignore_next_signal v1"
    using i e by (auto simp: handle_mmio_write_def case_prod_beta)
  show "\<exists>v2 t2. run w' hva' (e # e' # es) c v' t = Some (Returned 1 es, v2, t2)"
    using i e e' by (auto simp: handle_mmio_write_def case_prod_beta Let_def)
qed

theorem restored_guest_resumes_witness:
  "\<exists>s tr1 v' t' v2 t2. save_snapshot one_os demo_vm [] = (Some s, tr1) \<and>
     restore_snapshot (concat (replicate 260 [0..<num_copy_threads (copy_threads demo_new)])) one_os 0
       (with_bitmap (ram demo_vm) s) demo_new [] = Some (True, v', t') \<and>
     run one_os 0 [signal_event, signal_event] 0 v' t' = Some (Returned 1 [], v2, t2)"
proof -
  obtain s tr1 where s: "save_snapshot one_os demo_vm [] = (Some s, tr1)" using demo_saved by blast
  from demo_restored [OF s] obtain v' t' where
    r: "restore_snapshot (concat (replicate 260 [0..<num_copy_threads (copy_threads demo_new)])) one_os 0
       (with_bitmap (ram demo_vm) s) demo_new [] = Some (True, v', t')" by blast
  from conjunct2 [OF restored_guest_resumes [OF r is_signal_event is_signal_event]] s r show ?thesis by blast
qed

section \<open>The guest's request\<close>

text \<open>
  What the vCPU reports of a call of the guest's first process: a store to the signal register leaves the guest, with the address and
  the four bytes in the data area of \<open>kvm_run\<close>; the other calls stay in the guest's kernel as far as this register is concerned.
\<close>

fun guest_exits :: "guest_call \<Rightarrow> vcpu_event list" where
  "guest_exits (Mmio_write v) = [Ran (Exit_mmio_write VMM_MMIO_GPA (le_bytes 4 v @ replicate 4 0) 4)]"
| "guest_exits _ = []"

lemma guest_exits_mmio: "concat (map guest_exits cs) = concat (map guest_exits (filter is_mmio cs))"
proof (induction cs)
  case (Cons c cs)
  then show ?case by (cases c) auto
qed simp

lemma guest_signal_event: "guest_exits (Mmio_write VMM_MMIO_MAGIC) = [signal_event]"
proof -
  have "replicate 4 (0 :: u8) = [0, 0, 0, 0]" by (simp add: eval_nat_numeral)
  then show ?thesis by (simp add: VMM_MMIO_MAGIC_def VMM_MMIO_GPA_def signal_event_def le_bytes_def word_byte_def upt_rec drop_bit_eq_div)
qed

text \<open>
  Claim C26.  The guest's request reaches the monitor.  If the guest's kernel lets the first process map the signal register, then
  whatever else it answers, the process stores the magic number there once, at the address that the
  monitor watches, and the monitor's run loop, not told to ignore it, returns 1, the code for a snapshot.
\<close>

theorem guest_requests_snapshot:
  assumes "init_main g env0 = Some (e, tr)" and "\<forall>t. 0 \<le> g_ret g t (Gopen ''/dev/mem'')"
    and "\<forall>t fd. 0 \<le> g_ret g t (Mmap_mem fd VMM_MMIO_GPA)" and "\<not> ignore_next_signal v"
  shows "\<exists>v' t'. run w hva (concat (map guest_exits tr)) c v t = Some (Returned 1 [], v', t') \<and> ram v' = ram v"
proof -
  have "filter is_mmio tr = [Mmio_write VMM_MMIO_MAGIC]" by (rule init_main_signals [OF assms(1-3)])
  then have "concat (map guest_exits tr) = [signal_event]" using guest_exits_mmio [of tr] by (simp add: guest_signal_event del: guest_exits.simps)
  moreover have "\<not> ignore_next_signal (v\<lparr>fs := d\<rparr>)" for d using assms(4) by simp
  ultimately show ?thesis using assms(4)
    by (simp add: signal_event_def handle_mmio_write_def MMIO_SIGNAL_GPA_def MMIO_SIGNAL_MAGIC_def mmio_val_def case_prod_beta Let_def)
qed

theorem guest_requests_snapshot_witness:
  "\<exists>e tr v' t'. init_main \<lparr>g_ret = (\<lambda>_ _. 0), g_data = (\<lambda>_ _. '''')\<rparr> Map.empty = Some (e, tr) \<and>
     run one_os 0 (concat (map guest_exits tr)) 0 demo_vm [] = Some (Returned 1 [], v', t')"
proof -
  let ?g = "\<lparr>g_ret = (\<lambda>_ _. 0), g_data = (\<lambda>_ _. '''')\<rparr>"
  obtain e tr where r: "init_main ?g Map.empty = Some (e, tr)"
    by (auto simp: init_main_def signal_snapshot_def after_restore_def read_share_def read_entrypoint_def c_text_def log_msg_def Let_def case_prod_beta)
  have "\<not> ignore_next_signal demo_vm" by (simp add: demo_vm_def)
  from guest_requests_snapshot [OF r _ _ this] r show ?thesis by fastforce
qed

end
